(* ===== verification/Prelude.thy ===== *)
theory Prelude
  imports Main "HOL-Library.Word" "HOL-Library.Signed_Division" "HOL-Library.Multiset"
begin

text \<open>
  The vocabulary every component of the development shares: Go's 64-bit integers as
  integers with the wrap-around written out, the error values the packages return, the
  outcome of a call to an outside service, the 32-bit FNV-1a hash that routes keys to
  shards, and the generic list and map lemmas the component proofs use.
\<close>

section \<open>Collections of rewrite rules\<close>

named_theorems go_arith \<open>64-bit operations that stay in range are the mathematical ones\<close>

section \<open>Go integers\<close>

text \<open>
  \<open>int64\<close> (and \<open>int\<close>, on the 64-bit targets the code is built for) is two's complement
  and wraps. \<open>wrap64\<close> is the value a 64-bit register keeps; it agrees with reading a
  \<open>64 word\<close> as signed. Division truncates towards zero (\<open>sdiv\<close>).
\<close>

definition wrap64 :: "int \<Rightarrow> int" where
  "wrap64 x = (x + 9223372036854775808) mod 18446744073709551616 - 9223372036854775808"

definition in64 :: "int \<Rightarrow> bool" where
  "in64 x \<longleftrightarrow> - 9223372036854775808 \<le> x \<and> x < 9223372036854775808"

definition add64 :: "int \<Rightarrow> int \<Rightarrow> int" where
  "add64 a b = wrap64 (a + b)"

definition sub64 :: "int \<Rightarrow> int \<Rightarrow> int" where
  "sub64 a b = wrap64 (a - b)"

definition mul64 :: "int \<Rightarrow> int \<Rightarrow> int" where
  "mul64 a b = wrap64 (a * b)"

definition div64 :: "int \<Rightarrow> int \<Rightarrow> int" where
  "div64 a b = wrap64 (a sdiv b)"

lemma wrap64_word: "wrap64 x = sint (word_of_int x :: 64 word)"
  by (simp add: wrap64_def sint_uint uint_word_of_int signed_take_bit_eq_take_bit_shift
      take_bit_eq_mod mod_simps)

lemma in64_wrap64 [simp]: "in64 (wrap64 x)"
proof -
  have "0 \<le> (x + 9223372036854775808) mod 18446744073709551616"
    and "(x + 9223372036854775808) mod 18446744073709551616 < 18446744073709551616"
    by simp_all
  then show ?thesis
    unfolding in64_def wrap64_def by linarith
qed

lemma wrap64_id [go_arith]: "in64 x \<Longrightarrow> wrap64 x = x"
  by (simp add: in64_def wrap64_def)

lemma wrap64_wrap64 [simp]: "wrap64 (wrap64 x) = wrap64 x"
  by (simp add: wrap64_id)

lemma wrap64_add_left [simp]: "wrap64 (wrap64 x + y) = wrap64 (x + y)"
  by (simp add: wrap64_def mod_simps algebra_simps)

lemma wrap64_add_right [simp]: "wrap64 (x + wrap64 y) = wrap64 (x + y)"
  using wrap64_add_left [of y x] by (simp add: add.commute)

lemma add64_id [go_arith]: "in64 (a + b) \<Longrightarrow> add64 a b = a + b"
  by (simp add: add64_def wrap64_id)

lemma sub64_id [go_arith]: "in64 (a - b) \<Longrightarrow> sub64 a b = a - b"
  by (simp add: sub64_def wrap64_id)

lemma mul64_id [go_arith]: "in64 (a * b) \<Longrightarrow> mul64 a b = a * b"
  by (simp add: mul64_def wrap64_id)

lemma add64_assoc: "add64 (add64 a b) c = add64 a (add64 b c)"
  by (simp add: add64_def add.assoc)

lemma add64_commute: "add64 a b = add64 b a"
  by (simp add: add64_def add.commute)

lemma sdiv_nonneg: "0 \<le> a \<Longrightarrow> 0 < b \<Longrightarrow> (a :: int) sdiv b = a div b"
  by (simp add: signed_divide_int_def sgn_if)

lemma div64_nonneg [go_arith]: "in64 a \<Longrightarrow> 0 \<le> a \<Longrightarrow> 0 < b \<Longrightarrow> div64 a b = a div b"
proof -
  assume a: "in64 a" "0 \<le> a" and b: "0 < b"
  have "0 \<le> a div b" and "a div b \<le> a"
    using a(2) b zdiv_mono2 [of a 1 b] by (simp_all add: pos_imp_zdiv_nonneg_iff)
  with a(1) have "in64 (a div b)"
    unfolding in64_def by linarith
  with a(2) b show ?thesis
    by (simp add: div64_def sdiv_nonneg wrap64_id)
qed

section \<open>Errors\<close>

text \<open>The error values the packages return; a Go \<open>(T, error)\<close> result is \<open>go_error + 'a\<close>.\<close>

datatype go_error =
    ErrInsufficientBalance
  | ErrService \<comment> \<open>a call to Redis, PostgreSQL, ClickHouse or Kafka failed\<close>
  | ErrScript \<comment> \<open>a Redis command inside a script raised\<close>
  | ErrRedisNil
  | ErrScan \<comment> \<open>a column value does not fit its Go variable\<close>
  | ErrNoRows
  | ErrMissingRequestID
  | ErrModelNotFound
  | ErrAllChannelsFailed
  | ErrUpstream
  | ErrUpstreamStatus int
  | ErrDayFormat
  | ErrUnknownChannel
  | ErrAlreadyPaid
  | ErrNotPending
  | ErrAmount
  | ErrKeyNotFound
  | ErrUserExists
  | ErrBadCredentials
  | ErrUserDisabled
  | ErrInvalidInput string \<comment> \<open>the request itself is rejected\<close>
  | GoPanic \<comment> \<open>the goroutine panics\<close>

section \<open>Calls to outside services\<close>

text \<open>
  A call to a service can be answered, can fail before it took effect, or can take effect
  and lose its answer (a connection that drops after the commit). The operations take
  the outcomes of the calls they make as a schedule; a theorem quantifies over it.
\<close>

datatype fault = NoFault | FailBefore | FailAfter

type_synonym sched = "fault list"

fun pop_fault :: "sched \<Rightarrow> fault \<times> sched" where
  "pop_fault [] = (NoFault, [])"
| "pop_fault (f # fs) = (f, fs)"

text \<open>\<open>call_service f s (s', a)\<close>: state \<open>s\<close> before, \<open>s'\<close> with the effect, answer \<open>a\<close>.\<close>

fun call_service :: "fault \<Rightarrow> 's \<Rightarrow> 's \<times> (go_error + 'a) \<Rightarrow> 's \<times> (go_error + 'a)" where
  "call_service NoFault s r = r"
| "call_service FailBefore s r = (s, Inl ErrService)"
| "call_service FailAfter s r = (fst r, Inl ErrService)"

lemma call_service_state: "fst (call_service f s r) \<in> {s, fst r}"
  by (cases f) auto

lemma call_service_cases:
  obtains "fst (call_service f s r) = s" | "fst (call_service f s r) = fst r"
  using call_service_state [of f s r] by auto

section \<open>FNV-1a\<close>

text \<open>Go's \<open>hash/fnv\<close>, \<open>New32a\<close>: the offset basis, then exclusive-or and multiply per byte.\<close>

unbundle bit_operations_syntax

definition fnv_step :: "32 word \<Rightarrow> char \<Rightarrow> 32 word" where
  "fnv_step h c = (h XOR of_nat (of_char c)) * 16777619"

definition Sum32 :: "string \<Rightarrow> 32 word" where
  "Sum32 key = foldl fnv_step 2166136261 key"

section \<open>Unspecified orders\<close>

text \<open>
  Go iterates over a map, and runs goroutines, in no fixed order. The order is a parameter:
  \<open>map_range prio ks\<close> visits the keys \<open>ks\<close> as \<open>prio\<close> says, then the rest. Every permutation of
  \<open>ks\<close> is \<open>map_range prio ks\<close> for some \<open>prio\<close> (itself), so quantifying over \<open>prio\<close> covers all.
\<close>

definition map_range :: "nat list \<Rightarrow> nat list \<Rightarrow> nat list" where
  "map_range prio ks = filter (\<lambda>k. k \<in> set ks) (remdups prio) @ filter (\<lambda>k. k \<notin> set prio) ks"

lemma map_range_set: "set (map_range prio ks) = set ks"
  by (auto simp: map_range_def)

lemma map_range_distinct: "distinct ks \<Longrightarrow> distinct (map_range prio ks)"
  by (auto simp: map_range_def)

lemma map_range_any: "distinct ps \<Longrightarrow> set ps = set ks \<Longrightarrow> map_range ps ks = ps"
  by (simp add: map_range_def distinct_remdups_id)

section \<open>Lists and maps\<close>

text \<open>\<open>add64\<close> over a list is the wrapped mathematical sum, whatever the order.\<close>

lemma foldl_add64: "foldl add64 (wrap64 a) xs = wrap64 (a + sum_list xs)"
  by (induction xs arbitrary: a) (simp_all add: add64_def add.assoc [symmetric])

lemma sum_list_map_filter_split:
  "sum_list (map f xs) =
     sum_list (map f (filter P xs)) + sum_list (map f (filter (\<lambda>x. \<not> P x) xs))"
  for f :: "'a \<Rightarrow> int"
  by (induction xs) simp_all

lemma map_of_filter_fst:
  "map_of (filter (\<lambda>p. P (fst p)) xs) k = (if P k then map_of xs k else None)"
  by (induction xs) auto

lemma find_SomeD: "find P xs = Some x \<Longrightarrow> x \<in> set xs \<and> P x"
  by (auto simp: find_Some_iff)

lemma distinct_map_filter_one:
  assumes "distinct (map k xs)" and "v \<in> k ` set xs"
  shows "length (filter (\<lambda>y. k y = v) xs) = 1"
  using assms
proof (induction xs)
  case (Cons x xs)
  show ?case
  proof (cases "k x = v")
    case True
    with Cons.prems(1) have "filter (\<lambda>y. k y = v) xs = []"
      by (auto simp: filter_empty_conv image_iff)
    with True show ?thesis by simp
  qed (use Cons in auto)
qed simp

lemma filter_concat_nth:
  assumes "k < length xss" and "\<And>j. j < length xss \<Longrightarrow> j \<noteq> k \<Longrightarrow> filter P (xss ! j) = []"
  shows "filter P (concat xss) = filter P (xss ! k)"
  using assms
proof (induction xss arbitrary: k)
  case (Cons xs xss)
  show ?case
  proof (cases k)
    case 0
    have "filter P ys = []" if "ys \<in> set xss" for ys
      using that Cons.prems(2) [of "Suc _"] 0 by (auto simp: in_set_conv_nth)
    then have "filter P (concat xss) = []"
      by (auto simp: filter_empty_conv)
    with 0 show ?thesis by simp
  next
    case (Suc i)
    with Cons.prems(2) [of 0] have "filter P xs = []" by simp
    moreover have "filter P (concat xss) = filter P (xss ! i)"
    proof (rule Cons.IH)
      show "i < length xss" using Cons.prems(1) Suc by simp
      show "filter P (xss ! j) = []" if "j < length xss" "j \<noteq> i" for j
        using Cons.prems(2) [of "Suc j"] that Suc by simp
    qed
    ultimately show ?thesis using Suc by simp
  qed
qed simp

end
