(* ===== verification/Decimal.thy ===== *)
theory Decimal
  imports Prelude
begin

text \<open>
  The hand-written integer formatters (\<open>gateway/requestid.go\<close>, \<open>quota/monitor.go\<close>,
  \<open>payment/payment.go\<close>, \<open>auth/auth.go\<close>, \<open>router/upstream.go\<close>), the request-id
  generator, and Go's \<open>strconv.ParseInt\<close>, with the round trip between them.
\<close>

section \<open>Formatting\<close>

definition digit :: "int \<Rightarrow> char" where
  "digit d = char_of (48 + nat d)"

text \<open>The loop all formatters share: \<open>buf[i] = '0' + v%10; v /= 10\<close> while \<open>v > 0\<close>.\<close>

function itoa_loop :: "int \<Rightarrow> string \<Rightarrow> string" where
  "itoa_loop v acc = (if v > 0 then itoa_loop (v div 10) (digit (v mod 10) # acc) else acc)"
  by pat_completeness auto
termination
  by (relation "measure (\<lambda>(v, acc). nat v)") auto

declare itoa_loop.simps [simp del]

definition fmtInt :: "int \<Rightarrow> string" where
  "fmtInt v =
     (if v = 0 then ''0''
      else let neg = v < 0;
               v' = (if neg then wrap64 (- v) else v);
               s = itoa_loop v' []
           in if neg then CHR ''-'' # s else s)"

text \<open>\<open>payment\<close> and \<open>auth\<close> carry a variant without a sign: a negative number prints as nothing.\<close>

definition itoa_unsigned :: "int \<Rightarrow> string" where
  "itoa_unsigned v = (if v = 0 then ''0'' else itoa_loop v [])"

text \<open>\<open>router.itoaStatus\<close> has a three-byte buffer: a fourth digit is an index panic (\<open>None\<close>).\<close>

definition itoaStatus :: "int \<Rightarrow> string option" where
  "itoaStatus v =
     (if v = 0 then Some ''0''
      else let s = itoa_loop v [] in if length s \<le> 3 then Some s else None)"

definition newRequestID :: "string \<Rightarrow> int \<Rightarrow> int \<Rightarrow> string \<times> int" where
  "newRequestID entropyHex initTime seq =
     (let seq' = wrap64 (seq + 1)
      in (entropyHex @ ''-'' @ fmtInt initTime @ ''-'' @ fmtInt seq', seq'))"

section \<open>Parsing\<close>

definition is_digit :: "char \<Rightarrow> bool" where
  "is_digit c \<longleftrightarrow> 48 \<le> (of_char c :: nat) \<and> (of_char c :: nat) \<le> 57"

definition digits_value :: "string \<Rightarrow> int" where
  "digits_value s = foldl (\<lambda>n c. 10 * n + (int (of_char c) - 48)) 0 s"

definition ParseInt :: "string \<Rightarrow> int option" where
  "ParseInt s =
     (let (neg, ds) = (case s of
            [] \<Rightarrow> (False, [])
          | c # cs \<Rightarrow> if c = CHR ''-'' then (True, cs) else if c = CHR ''+'' then (False, cs) else (False, s));
          v = (if neg then - digits_value ds else digits_value ds)
      in if ds \<noteq> [] \<and> list_all is_digit ds \<and> in64 v then Some v else None)"

section \<open>Round trip\<close>

lemma digit_code: "0 \<le> d \<Longrightarrow> d < 10 \<Longrightarrow> of_char (digit d) = 48 + nat d"
  by (simp add: digit_def)

lemma digit_is_digit [simp]: "0 \<le> d \<Longrightarrow> d < 10 \<Longrightarrow> is_digit (digit d)"
  by (simp add: is_digit_def digit_code)

lemma digit_not_sign [simp]:
  assumes "0 \<le> d" "d < 10"
  shows "digit d \<noteq> CHR ''-''" "digit d \<noteq> CHR ''+''"
proof -
  have "(of_char (digit d) :: nat) \<noteq> of_char (CHR ''-'')"
    "(of_char (digit d) :: nat) \<noteq> of_char (CHR ''+'')"
    using digit_code [OF assms] by simp_all
  then show "digit d \<noteq> CHR ''-''" "digit d \<noteq> CHR ''+''" by auto
qed

lemma itoa_loop_append: "itoa_loop v acc = itoa_loop v [] @ acc"
proof (induction "nat v" arbitrary: v acc rule: less_induct)
  case less
  show ?case
  proof (cases "v > 0")
    case True
    then have IH: "itoa_loop (v div 10) acc = itoa_loop (v div 10) [] @ acc" for acc
      by (intro less) simp
    show ?thesis
      unfolding itoa_loop.simps [of v acc] itoa_loop.simps [of v "[]"]
      using True IH [of "[digit (v mod 10)]"] IH [of "digit (v mod 10) # acc"] by simp
  qed (simp add: itoa_loop.simps)
qed

lemma itoa_loop_step: "v > 0 \<Longrightarrow> itoa_loop v [] = itoa_loop (v div 10) [] @ [digit (v mod 10)]"
  by (subst itoa_loop.simps) (simp add: itoa_loop_append [of "v div 10" "[digit (v mod 10)]"])

lemma digits_value_snoc: "digits_value (s @ [c]) = 10 * digits_value s + (int (of_char c) - 48)"
  by (simp add: digits_value_def)

lemma itoa_loop_value: "0 \<le> v \<Longrightarrow> digits_value (itoa_loop v []) = v \<and> list_all is_digit (itoa_loop v [])"
proof (induction "nat v" arbitrary: v rule: less_induct)
  case less
  show ?case
  proof (cases "v > 0")
    case True
    then have "nat (v div 10) < nat v" "0 \<le> v div 10" by (simp_all add: pos_imp_zdiv_nonneg_iff)
    with less have IH: "digits_value (itoa_loop (v div 10) []) = v div 10 \<and>
        list_all is_digit (itoa_loop (v div 10) [])" by blast
    have "int (of_char (digit (v mod 10))) = 48 + v mod 10"
      by (simp add: digit_code)
    with IH True show ?thesis by (simp add: itoa_loop_step digits_value_snoc)
  qed (use less in \<open>simp add: itoa_loop.simps digits_value_def\<close>)
qed

lemma itoa_loop_hd:
  assumes "v > 0"
  obtains c cs where "itoa_loop v [] = c # cs" "is_digit c"
proof -
  have "itoa_loop v [] \<noteq> []" by (simp add: itoa_loop_step [OF assms])
  then obtain c cs where "itoa_loop v [] = c # cs" by (auto simp: neq_Nil_conv)
  with itoa_loop_value [of v] assms that show thesis by simp
qed

lemma is_digit_not_sign: "is_digit c \<Longrightarrow> c \<noteq> CHR ''-'' \<and> c \<noteq> CHR ''+''"
  by (auto simp: is_digit_def)

lemma itoa_loop_length: "0 \<le> v \<Longrightarrow> v < 10 ^ n \<Longrightarrow> length (itoa_loop v []) \<le> n"
proof (induction n arbitrary: v)
  case 0
  then show ?case by (simp add: itoa_loop.simps)
next
  case (Suc n)
  show ?case
  proof (cases "v > 0")
    case True
    have "v div 10 < 10 ^ n" using Suc.prems by (simp add: div_less_iff_less_mult mult.commute)
    with Suc True show ?thesis by (simp add: itoa_loop_step pos_imp_zdiv_nonneg_iff)
  qed (use Suc.prems in \<open>simp add: itoa_loop.simps\<close>)
qed

lemma itoaStatus_small: "0 \<le> v \<Longrightarrow> v < 1000 \<Longrightarrow> itoaStatus v \<noteq> None"
  using itoa_loop_length [of v 3] by (simp add: itoaStatus_def)

lemma ParseInt_neg: "ds \<noteq> [] \<Longrightarrow> list_all is_digit ds \<Longrightarrow> in64 (- digits_value ds) \<Longrightarrow>
    ParseInt (CHR ''-'' # ds) = Some (- digits_value ds)"
  by (simp add: ParseInt_def)

lemma ParseInt_pos: "list_all is_digit (c # cs) \<Longrightarrow> in64 (digits_value (c # cs)) \<Longrightarrow>
    ParseInt (c # cs) = Some (digits_value (c # cs))"
  using is_digit_not_sign [of c] by (simp add: ParseInt_def)

section \<open>Properties\<close>

text \<open>Theorem: The hand-written formatter and \<open>strconv.ParseInt\<close> are inverse: every 64-bit integer
  but the least one prints to a string of at most twenty bytes (the size of its buffer)
  that parses back to it.\<close>

theorem fmtInt_roundtrip:
  assumes "in64 v" "v \<noteq> - 9223372036854775808"
  shows "ParseInt (fmtInt v) = Some v \<and> length (fmtInt v) \<le> 20"
proof (cases "v = 0")
  case False
  define a where "a = \<bar>v\<bar>"
  have a: "0 < a" "in64 a" "in64 (- a)" "a < 10 ^ 19"
    using assms False by (auto simp: a_def in64_def)
  obtain c cs where ds: "itoa_loop a [] = c # cs" by (rule itoa_loop_hd [OF a(1)])
  have val: "digits_value (c # cs) = a" "list_all is_digit (c # cs)"
    using itoa_loop_value [of a] a(1) ds by auto
  have len: "length (c # cs) \<le> 19" using itoa_loop_length [of a 19] a ds by simp
  show ?thesis
  proof (cases "v < 0")
    case True
    then have "fmtInt v = CHR ''-'' # c # cs"
      using ds a(2) by (simp add: fmtInt_def a_def wrap64_id)
    with True val len ParseInt_neg [of "c # cs"] a(3) show ?thesis by (simp add: a_def)
  next
    case False
    with \<open>v \<noteq> 0\<close> have "fmtInt v = c # cs" using ds by (simp add: fmtInt_def a_def)
    with False val len ParseInt_pos [of c cs] a(2) show ?thesis by (simp add: a_def)
  qed
qed (simp add: fmtInt_def ParseInt_def digits_value_def is_digit_def in64_def)

theorem fmtInt_roundtrip_witness: "ParseInt (fmtInt (- 1050)) = Some (- 1050)"
  using fmtInt_roundtrip [of "- 1050"] by (simp add: in64_def)

end
