(* ===== verification/Pricing.thy ===== *)
theory Pricing
  imports Prelude
begin

text \<open>
  The price tables of \<open>internal/billing/pricing.go\<close>: the default prices, the atomically
  swapped user and supplier tables, the integer charge of a request, and the estimate
  the gateway reserves before it forwards a request. Amounts are micro-units in \<open>int64\<close>.
\<close>

section \<open>Price tables\<close>

record ModelPrice =
  InputPer1M :: int
  OutputPer1M :: int

type_synonym PriceTable = "string \<rightharpoonup> ModelPrice"

definition defaultPrices :: PriceTable where
  "defaultPrices =
     [''gpt-4o'' \<mapsto> \<lparr>InputPer1M = 2500000, OutputPer1M = 10000000\<rparr>,
      ''gpt-4o-mini'' \<mapsto> \<lparr>InputPer1M = 150000, OutputPer1M = 600000\<rparr>,
      ''deepseek-chat'' \<mapsto> \<lparr>InputPer1M = 270000, OutputPer1M = 1100000\<rparr>]"

definition NewPriceTable :: PriceTable where
  "NewPriceTable = (\<lambda>k. defaultPrices k)"

definition PriceTable_Get :: "PriceTable \<Rightarrow> string \<Rightarrow> ModelPrice" where
  "PriceTable_Get t model =
     (case t model of
        Some p \<Rightarrow> p
      | None \<Rightarrow> \<lparr>InputPer1M = 1000000, OutputPer1M = 2000000\<rparr>)"

definition PriceTable_Set :: "PriceTable \<Rightarrow> string \<Rightarrow> ModelPrice \<Rightarrow> PriceTable" where
  "PriceTable_Set t model p = t(model \<mapsto> p)"

text \<open>
  An \<open>atomicTable\<close> is a pointer that starts nil; \<open>Load\<close> installs a table of the
  defaults on first use. The two package variables are the fields of one record.
\<close>

type_synonym atomicTable = "PriceTable option"

definition atomicTable_Load :: "atomicTable \<Rightarrow> PriceTable \<times> atomicTable" where
  "atomicTable_Load a =
     (case a of
        Some p \<Rightarrow> (p, a)
      | None \<Rightarrow> (NewPriceTable, Some NewPriceTable))"

record price_state =
  priceTable :: atomicTable
  costTable :: atomicTable

definition init_prices :: price_state where
  "init_prices = \<lparr>priceTable = None, costTable = None\<rparr>"

definition PriceFor :: "price_state \<Rightarrow> string \<Rightarrow> ModelPrice \<times> price_state" where
  "PriceFor st model =
     (let (t, a) = atomicTable_Load (priceTable st)
      in (PriceTable_Get t model, st\<lparr>priceTable := a\<rparr>))"

definition UpdatePrice :: "price_state \<Rightarrow> string \<Rightarrow> ModelPrice \<Rightarrow> price_state" where
  "UpdatePrice st model p =
     (let (t, a) = atomicTable_Load (priceTable st)
      in st\<lparr>priceTable := Some (PriceTable_Set t model p)\<rparr>)"

definition CostPriceFor :: "price_state \<Rightarrow> string \<Rightarrow> ModelPrice \<times> price_state" where
  "CostPriceFor st model =
     (let (t, a) = atomicTable_Load (costTable st); st' = st\<lparr>costTable := a\<rparr>
      in case t model of
           Some p \<Rightarrow> (p, st')
         | None \<Rightarrow> PriceFor st' model)"

definition UpdateCostPrice :: "price_state \<Rightarrow> string \<Rightarrow> ModelPrice \<Rightarrow> price_state" where
  "UpdateCostPrice st model p =
     (let (t, a) = atomicTable_Load (costTable st)
      in st\<lparr>costTable := Some (PriceTable_Set t model p)\<rparr>)"

text \<open>What the tables answer: lazy initialisation never changes an answer.\<close>

abbreviation price_of :: "price_state \<Rightarrow> string \<Rightarrow> ModelPrice" where
  "price_of st model \<equiv> fst (PriceFor st model)"

abbreviation cost_of :: "price_state \<Rightarrow> string \<Rightarrow> ModelPrice" where
  "cost_of st model \<equiv> fst (CostPriceFor st model)"

lemmas price_defs = PriceFor_def UpdatePrice_def CostPriceFor_def UpdateCostPrice_def
  atomicTable_Load_def PriceTable_Get_def PriceTable_Set_def

lemma price_of_after_PriceFor [simp]: "price_of (snd (PriceFor st m)) m' = price_of st m'"
  by (simp add: price_defs split: option.splits)

lemma price_of_UpdatePrice:
  "price_of (UpdatePrice st m p) m' = (if m' = m then p else price_of st m')"
  by (simp add: price_defs split: option.splits)

lemma cost_of_UpdateCostPrice:
  "cost_of (UpdateCostPrice st m p) m' = (if m' = m then p else cost_of st m')"
  by (auto simp: price_defs Let_def split: option.splits)

lemma price_of_UpdateCostPrice [simp]: "price_of (UpdateCostPrice st m p) m' = price_of st m'"
  by (simp add: price_defs split: option.splits)

section \<open>Charges\<close>

definition CalculateAmount :: "int \<Rightarrow> int \<Rightarrow> ModelPrice \<Rightarrow> int" where
  "CalculateAmount prompt completion p =
     add64 (div64 (mul64 prompt (InputPer1M p)) 1000000)
           (div64 (mul64 completion (OutputPer1M p)) 1000000)"

definition EstimatePreCharge :: "int \<Rightarrow> int option \<Rightarrow> ModelPrice \<Rightarrow> int" where
  "EstimatePreCharge promptTokens maxTokens p =
     (let cap = 16000;
          completionCap = (case maxTokens of Some m \<Rightarrow> if m < cap then m else cap | None \<Rightarrow> cap);
          est = CalculateAmount promptTokens completionCap p
      in add64 (add64 est (div64 est 10)) 1)"

text \<open>
  The range in which the charge is exact: at most \<open>10^9\<close> tokens a side and \<open>9 * 10^9\<close>
  micro-units per million tokens, so that each product stays below \<open>2^63\<close>.
\<close>

definition tokens_ok :: "int \<Rightarrow> bool" where
  "tokens_ok n \<longleftrightarrow> 0 \<le> n \<and> n \<le> 1000000000"

definition price_ok :: "ModelPrice \<Rightarrow> bool" where
  "price_ok p \<longleftrightarrow> 0 \<le> InputPer1M p \<and> InputPer1M p \<le> 9000000000 \<and>
                 0 \<le> OutputPer1M p \<and> OutputPer1M p \<le> 9000000000"

lemma micro_floor_sum:
  "1000000 * (x div 1000000 + y div 1000000) \<le> x + y \<and>
   x + y < 1000000 * (x div 1000000 + y div 1000000 + 2)" for x y :: int
  unfolding distrib_left by (intro conjI) linarith+

lemma component_exact:
  assumes "0 \<le> n" "n \<le> 1000000000" "0 \<le> q" "q \<le> 9000000000"
  shows "div64 (mul64 n q) 1000000 = n * q div 1000000"
    and "0 \<le> n * q div 1000000" and "n * q div 1000000 \<le> 9000000000000"
proof -
  have nq: "0 \<le> n * q" "n * q \<le> 1000000000 * 9000000000"
    using assms mult_mono [of n 1000000000 q 9000000000] by simp_all
  then have "in64 (n * q)" by (simp add: in64_def)
  with nq(1) show "div64 (mul64 n q) 1000000 = n * q div 1000000"
    by (simp add: go_arith)
  show "0 \<le> n * q div 1000000"
    using nq(1) by (simp add: pos_imp_zdiv_nonneg_iff)
  show "n * q div 1000000 \<le> 9000000000000"
    using nq(2) by linarith
qed

lemma CalculateAmount_eq:
  assumes "tokens_ok a" "tokens_ok b" "price_ok p"
  shows "CalculateAmount a b p = a * InputPer1M p div 1000000 + b * OutputPer1M p div 1000000"
    (is "_ = ?l + ?r") and "0 \<le> CalculateAmount a b p" and "CalculateAmount a b p \<le> 18000000000000"
proof -
  have l: "div64 (mul64 a (InputPer1M p)) 1000000 = ?l" "0 \<le> ?l" "?l \<le> 9000000000000"
    using assms by (intro component_exact; simp add: tokens_ok_def price_ok_def)+
  have r: "div64 (mul64 b (OutputPer1M p)) 1000000 = ?r" "0 \<le> ?r" "?r \<le> 9000000000000"
    using assms by (intro component_exact; simp add: tokens_ok_def price_ok_def)+
  have "in64 (?l + ?r)" using l r by (simp add: in64_def)
  then show eq: "CalculateAmount a b p = ?l + ?r"
    unfolding CalculateAmount_def l(1) r(1) by (rule add64_id)
  show "0 \<le> CalculateAmount a b p" "CalculateAmount a b p \<le> 18000000000000"
    unfolding eq using l r by linarith+
qed

lemma CalculateAmount_mono:
  assumes "tokens_ok a" "tokens_ok b" "tokens_ok a'" "tokens_ok b'" "price_ok p"
    and "a \<le> a'" "b \<le> b'"
  shows "CalculateAmount a b p \<le> CalculateAmount a' b' p"
proof -
  have "a * InputPer1M p \<le> a' * InputPer1M p" "b * OutputPer1M p \<le> b' * OutputPer1M p"
    using assms by (simp_all add: mult_right_mono price_ok_def)
  then show ?thesis
    using assms by (simp add: CalculateAmount_eq add_mono zdiv_mono1)
qed

lemma CalculateAmount_zero [simp]: "CalculateAmount 0 0 p = 0"
  by (simp add: CalculateAmount_def mul64_def div64_def add64_def wrap64_def)

lemma EstimatePreCharge_eq:
  assumes "tokens_ok n" "price_ok p" "\<And>m. mt = Some m \<Longrightarrow> 0 \<le> m"
  defines "c \<equiv> (case mt of Some m \<Rightarrow> min m 16000 | None \<Rightarrow> 16000)"
  shows "EstimatePreCharge n mt p =
           CalculateAmount n c p + CalculateAmount n c p div 10 + 1"
    and "tokens_ok c"
proof -
  have capped: "(case mt of Some m \<Rightarrow> if m < 16000 then m else 16000 | None \<Rightarrow> 16000) = c"
    by (auto simp: c_def min_def split: option.splits)
  show c: "tokens_ok c"
    using assms(3) by (auto simp: c_def tokens_ok_def split: option.splits)
  have e: "0 \<le> CalculateAmount n c p" "CalculateAmount n c p \<le> 18000000000000"
    by (rule CalculateAmount_eq [OF assms(1) c assms(2)])+
  then have "in64 (CalculateAmount n c p)" by (simp add: in64_def)
  with e have d: "div64 (CalculateAmount n c p) 10 = CalculateAmount n c p div 10"
    by (simp add: div64_nonneg)
  have "0 \<le> CalculateAmount n c p div 10" "CalculateAmount n c p div 10 \<le> 18000000000000"
    using e by linarith+
  with e show "EstimatePreCharge n mt p = CalculateAmount n c p + CalculateAmount n c p div 10 + 1"
    unfolding EstimatePreCharge_def Let_def capped d by (simp add: go_arith in64_def)
qed

section \<open>Properties\<close>

text \<open>Theorem: In the exact range a charge is the true price rounded down to whole micro-units,
  component by component: it never exceeds the exact price and falls short of it by less
  than two micro-units, and no product or sum wraps.\<close>

theorem amount_rounding:
  assumes "tokens_ok prompt" "tokens_ok completion" "price_ok p"
  defines "exact \<equiv> prompt * InputPer1M p + completion * OutputPer1M p"
  shows "1000000 * CalculateAmount prompt completion p \<le> exact \<and>
         exact < 1000000 * (CalculateAmount prompt completion p + 2)"
  unfolding exact_def CalculateAmount_eq(1) [OF assms(1-3)] by (rule micro_floor_sum)

theorem amount_rounding_witness:
  "tokens_ok 19 \<and> tokens_ok 7 \<and>
   1000000 * CalculateAmount 19 7 \<lparr>InputPer1M = 150000, OutputPer1M = 600000\<rparr> \<le> 7050000 \<and>
   7050000 < 1000000 * (CalculateAmount 19 7 \<lparr>InputPer1M = 150000, OutputPer1M = 600000\<rparr> + 2)"
  using amount_rounding [of 19 7 "\<lparr>InputPer1M = 150000, OutputPer1M = 600000\<rparr>"]
  by (simp add: tokens_ok_def price_ok_def)

text \<open>Theorem: The reservation covers the charge. When the completion stays within the caller's
  non-negative \<open>max_tokens\<close> (capped at 16000), the estimate reserved before the request is
  strictly more than the amount settled after it.\<close>

theorem estimate_covers_charge:
  assumes "tokens_ok prompt" "price_ok p" "0 \<le> completion"
    and "0 \<le> m" "completion \<le> m" "completion \<le> 16000"
  shows "CalculateAmount prompt completion p < EstimatePreCharge prompt (Some m) p"
proof -
  let ?c = "min m 16000"
  have est: "EstimatePreCharge prompt (Some m) p =
      CalculateAmount prompt ?c p + CalculateAmount prompt ?c p div 10 + 1"
    using EstimatePreCharge_eq(1) [of prompt p "Some m"] assms by simp
  have ok: "tokens_ok completion" "tokens_ok ?c"
    using assms by (auto simp: tokens_ok_def)
  have "CalculateAmount prompt completion p \<le> CalculateAmount prompt ?c p"
    using assms ok by (intro CalculateAmount_mono) auto
  moreover have "0 \<le> CalculateAmount prompt ?c p"
    by (rule CalculateAmount_eq(2) [OF assms(1) ok(2) assms(2)])
  ultimately show ?thesis unfolding est by linarith
qed

theorem estimate_covers_charge_witness:
  "CalculateAmount 1000 500 \<lparr>InputPer1M = 2500000, OutputPer1M = 10000000\<rparr> = 7500 \<and>
   7500 < EstimatePreCharge 1000 (Some 800) \<lparr>InputPer1M = 2500000, OutputPer1M = 10000000\<rparr>"
  using estimate_covers_charge [of 1000 "\<lparr>InputPer1M = 2500000, OutputPer1M = 10000000\<rparr>" 500 800]
  by (simp add: tokens_ok_def price_ok_def CalculateAmount_eq)

text \<open>A negative \<open>max_tokens\<close> is not clamped: the estimate can be negative.\<close>

lemma negative_max_tokens_estimate:
  "EstimatePreCharge 100 (Some (- 1000)) (price_of init_prices ''gpt-4o'') < 0"
  by code_simp

end
