(* ===== verification/Order_Store.thy ===== *)
theory Order_Store
  imports Decimal Pricing
begin

text \<open>
  The money store: the rows of \<open>internal/billing/types.go\<close> and \<open>refund.go\<close>, and the
  statements of \<open>postgres.go\<close> over the \<open>orders\<close> and \<open>refunds\<close> tables of \<open>schema.sql\<close>.
  A table is its rows in insertion order. Each SQL statement is one atomic call whose
  outcome is a \<open>fault\<close>. Timestamps are microseconds; a day is its number since the
  epoch. The locale \<open>order_store\<close> is the contract of the Go interface \<open>OrderStore\<close>.
\<close>

section \<open>Rows\<close>

record Order =
  o_RequestID :: string
  o_UserID :: string
  o_Model :: string
  o_Provider :: string
  o_Status :: string
  o_PromptTokens :: int
  o_CompletionTokens :: int
  o_TotalTokens :: int
  o_AmountMicros :: int
  o_DurationMs :: int
  o_TTFTMs :: int
  o_CreatedAt :: int

abbreviation StatusSettled :: string where "StatusSettled \<equiv> ''SETTLED''"
abbreviation StatusNoCharge :: string where "StatusNoCharge \<equiv> ''NO_CHARGE''"

record Refund =
  rf_ID :: int
  rf_RequestID :: string
  rf_UserID :: string
  rf_OrderID :: string
  rf_ReasonCode :: string
  rf_AmountMicros :: int
  rf_Direction :: string
  rf_Status :: string
  rf_ApprovalLevel :: string
  rf_IdempotencyKey :: string
  rf_CreatedAt :: int

abbreviation DirectionCredit :: string where "DirectionCredit \<equiv> ''CREDIT''"
abbreviation DirectionDebit :: string where "DirectionDebit \<equiv> ''DEBIT''"
abbreviation RefundPending :: string where "RefundPending \<equiv> ''PENDING''"
abbreviation RefundExecuted :: string where "RefundExecuted \<equiv> ''EXECUTED''"
abbreviation ApprovalAuto :: string where "ApprovalAuto \<equiv> ''AUTO''"
abbreviation ApprovalManual :: string where "ApprovalManual \<equiv> ''MANUAL''"
abbreviation ReasonNegativeAmount :: string where "ReasonNegativeAmount \<equiv> ''NEGATIVE_AMOUNT''"

record DaySummary =
  ds_Count :: int
  ds_TotalTokens :: int
  ds_AmountMicros :: int

record MyUsageRow =
  mu_PromptTok :: int
  mu_ComplTok :: int
  mu_TotalTok :: int
  mu_CostMicros :: int

record Entry =
  en_RequestID :: string
  en_UserID :: string
  en_Model :: string
  en_Status :: string
  en_AmountMicros :: int
  en_Direction :: string
  en_CreatedAt :: int

record UsageDay =
  ud_Day :: int
  ud_Requests :: int
  ud_PromptTok :: int
  ud_ComplTok :: int
  ud_TotalTok :: int
  ud_AmountMicros :: int

record UsageByModelRow =
  um_Model :: string
  um_Requests :: int
  um_TotalTok :: int
  um_AmountMicros :: int
  um_CostMicros :: int
  um_MarginMicros :: int

text \<open>The database: the two tables and the \<open>BIGSERIAL\<close> counter of \<open>refunds.id\<close>.\<close>

record pg =
  pg_orders :: "Order list"
  pg_refunds :: "Refund list"
  pg_refund_seq :: int

definition empty_pg :: pg where
  "empty_pg = \<lparr>pg_orders = [], pg_refunds = [], pg_refund_seq = 0\<rparr>"

section \<open>Inserting orders\<close>

text \<open>\<open>INSERT ... ON CONFLICT (request_id) DO NOTHING\<close> of one row.\<close>

definition sql_insert_order :: "int \<Rightarrow> pg \<Rightarrow> Order \<Rightarrow> pg \<times> bool" where
  "sql_insert_order now db ord =
     (if list_ex (\<lambda>x. o_RequestID x = o_RequestID ord) (pg_orders db) then (db, False)
      else (db\<lparr>pg_orders := pg_orders db @ [ord\<lparr>o_CreatedAt := now\<rparr>]\<rparr>, True))"

definition InsertOrder :: "int \<Rightarrow> fault \<Rightarrow> pg \<Rightarrow> Order \<Rightarrow> pg \<times> (go_error + bool)" where
  "InsertOrder now f db ord =
     call_service f db (let (db', ins) = sql_insert_order now db ord in (db', Inr ins))"

fun sql_insert_rows :: "int \<Rightarrow> pg \<Rightarrow> Order list \<Rightarrow> pg" where
  "sql_insert_rows now db [] = db"
| "sql_insert_rows now db (ord # ords) = sql_insert_rows now (fst (sql_insert_order now db ord)) ords"

text \<open>
  One multi-row statement per thousand orders; \<open>clock i\<close> is \<open>time.Now()\<close> of chunk \<open>i\<close>. A
  failing chunk ends the call; the chunks before it are committed.
\<close>

function InsertOrders_loop ::
  "(nat \<Rightarrow> int) \<Rightarrow> nat \<Rightarrow> sched \<Rightarrow> pg \<Rightarrow> Order list \<Rightarrow> pg \<times> (go_error + unit) \<times> sched" where
  "InsertOrders_loop clock i fs db orders =
     (if orders = [] then (db, Inr (), fs)
      else let (f, fs') = pop_fault fs;
               batch = take 1000 orders
           in case call_service f db (sql_insert_rows (clock i) db batch, Inr ()) of
                (db', Inl e) \<Rightarrow> (db', Inl e, fs')
              | (db', Inr _) \<Rightarrow> InsertOrders_loop clock (Suc i) fs' db' (drop 1000 orders))"
  by pat_completeness auto
termination
  by (relation "measure (\<lambda>(clock, i, fs, db, orders). length orders)") auto

declare InsertOrders_loop.simps [simp del]

definition InsertOrders ::
  "(nat \<Rightarrow> int) \<Rightarrow> sched \<Rightarrow> pg \<Rightarrow> Order list \<Rightarrow> pg \<times> (go_error + unit) \<times> sched" where
  "InsertOrders clock fs db orders = InsertOrders_loop clock 0 fs db orders"

section \<open>Queries over orders\<close>

definition in_day :: "int \<Rightarrow> int \<Rightarrow> bool" where
  "in_day day t \<longleftrightarrow> day * 86400000000 \<le> t \<and> t < (day + 1) * 86400000000"

definition day_orders :: "pg \<Rightarrow> int \<Rightarrow> Order list" where
  "day_orders db day = filter (\<lambda>x. in_day day (o_CreatedAt x)) (pg_orders db)"

text \<open>
  \<open>GROUP BY\<close> with aggregates: the groups' keys, and a value per group. \<open>SUM\<close> of a
  \<open>bigint\<close> column is exact; reading it into an \<open>int64\<close> fails when it does not fit.
\<close>

definition group_keys :: "('a \<Rightarrow> string) \<Rightarrow> 'a list \<Rightarrow> string list" where
  "group_keys key rows = remdups (map key rows)"

definition sum_of :: "('a \<Rightarrow> int) \<Rightarrow> 'a list \<Rightarrow> int" where
  "sum_of f rows = sum_list (map f rows)"

definition group_rows :: "('a \<Rightarrow> string) \<Rightarrow> string \<Rightarrow> 'a list \<Rightarrow> 'a list" where
  "group_rows key k rows = filter (\<lambda>x. key x = k) rows"

definition query :: "fault \<Rightarrow> go_error + 'a \<Rightarrow> go_error + 'a" where
  "query f r = snd (call_service f () ((), r))"

definition status_summary :: "Order list \<Rightarrow> string \<Rightarrow> DaySummary" where
  "status_summary rows st =
     (let g = group_rows o_Status st rows
      in \<lparr>ds_Count = int (length g), ds_TotalTokens = sum_of o_TotalTokens g,
          ds_AmountMicros = sum_of o_AmountMicros g\<rparr>)"

definition Summary :: "fault \<Rightarrow> pg \<Rightarrow> int \<Rightarrow> go_error + (string \<rightharpoonup> DaySummary)" where
  "Summary f db day =
     query f
       (let rows = day_orders db day; ks = group_keys o_Status rows
        in if list_all (\<lambda>k. in64 (ds_TotalTokens (status_summary rows k)) \<and>
                            in64 (ds_AmountMicros (status_summary rows k))) ks
           then Inr (\<lambda>k. if k \<in> set ks then Some (status_summary rows k) else None)
           else Inl ErrScan)"

definition is_anomaly :: "Order \<Rightarrow> bool" where
  "is_anomaly x \<longleftrightarrow> o_AmountMicros x < 0 \<or> o_RequestID x = '''' \<or>
     o_Status x \<notin> {StatusSettled, StatusNoCharge}"

definition anomaly_text :: "Order \<Rightarrow> string" where
  "anomaly_text x = ''request='' @ o_RequestID x @ '' status='' @ o_Status x
     @ '' amount='' @ fmtInt (o_AmountMicros x) @ '' prompt='' @ fmtInt (o_PromptTokens x)
     @ '' completion='' @ fmtInt (o_CompletionTokens x)"

definition Anomalies :: "fault \<Rightarrow> pg \<Rightarrow> int \<Rightarrow> go_error + string list" where
  "Anomalies f db day =
     query f (Inr (map anomaly_text (take 100 (filter is_anomaly (day_orders db day)))))"

definition NegativeAmountOrders :: "fault \<Rightarrow> pg \<Rightarrow> int \<Rightarrow> go_error + Order list" where
  "NegativeAmountOrders f db day =
     query f (Inr (take 1000 (filter (\<lambda>x. o_AmountMicros x < 0) (day_orders db day))))"

definition provider_usage :: "Order list \<Rightarrow> string \<Rightarrow> MyUsageRow" where
  "provider_usage rows p =
     (let g = group_rows o_Provider p rows
      in \<lparr>mu_PromptTok = sum_of o_PromptTokens g, mu_ComplTok = sum_of o_CompletionTokens g,
          mu_TotalTok = sum_of o_TotalTokens g, mu_CostMicros = 0\<rparr>)"

definition settled_orders :: "pg \<Rightarrow> int \<Rightarrow> Order list" where
  "settled_orders db day = filter (\<lambda>x. o_Status x = StatusSettled) (day_orders db day)"

definition SumProviderUsage :: "fault \<Rightarrow> pg \<Rightarrow> int \<Rightarrow> go_error + (string \<rightharpoonup> MyUsageRow)" where
  "SumProviderUsage f db day =
     query f
       (let rows = settled_orders db day; ks = group_keys o_Provider rows
        in if list_all (\<lambda>k. in64 (mu_PromptTok (provider_usage rows k)) \<and>
                            in64 (mu_ComplTok (provider_usage rows k)) \<and>
                            in64 (mu_TotalTok (provider_usage rows k))) ks
           then Inr (\<lambda>k. if k \<in> set ks then Some (provider_usage rows k) else None)
           else Inl ErrScan)"

section \<open>Refunds\<close>

text \<open>
  \<open>ON CONFLICT (idempotency_key) DO UPDATE ... RETURNING id, (xmax = 0)\<close>: the existing id
  and \<open>False\<close>, or a fresh id and \<open>True\<close>. The sequence advances either way.
\<close>

definition sql_insert_refund :: "int \<Rightarrow> pg \<Rightarrow> Refund \<Rightarrow> pg \<times> int \<times> bool" where
  "sql_insert_refund now db r =
     (let next = pg_refund_seq db + 1; db' = db\<lparr>pg_refund_seq := next\<rparr>
      in case find (\<lambda>x. rf_IdempotencyKey x = rf_IdempotencyKey r) (pg_refunds db) of
           Some x \<Rightarrow> (db', rf_ID x, False)
         | None \<Rightarrow> (db'\<lparr>pg_refunds := pg_refunds db @ [r\<lparr>rf_ID := next, rf_CreatedAt := now\<rparr>]\<rparr>,
                    next, True))"

definition InsertRefund :: "int \<Rightarrow> fault \<Rightarrow> pg \<Rightarrow> Refund \<Rightarrow> pg \<times> (go_error + int \<times> bool)" where
  "InsertRefund now f db r =
     call_service f db (let (db', rid, created) = sql_insert_refund now db r in (db', Inr (rid, created)))"

definition ListRefunds :: "fault \<Rightarrow> pg \<Rightarrow> int \<Rightarrow> go_error + Refund list" where
  "ListRefunds f db limit =
     (let limit' = (if limit \<le> 0 \<or> limit > 1000 then 100 else limit)
      in query f (Inr (take (nat limit') (rev (sort_key rf_ID (pg_refunds db))))))"

definition MarkExecuted :: "fault \<Rightarrow> pg \<Rightarrow> int \<Rightarrow> pg \<times> (go_error + unit)" where
  "MarkExecuted f db rid =
     call_service f db
       (db\<lparr>pg_refunds := map (\<lambda>r. if rf_ID r = rid \<and> rf_Status r = RefundPending
                                  then r\<lparr>rf_Status := RefundExecuted\<rparr> else r) (pg_refunds db)\<rparr>,
        Inr ())"

section \<open>Ledger\<close>

definition scan64 :: "int \<Rightarrow> go_error + int" where
  "scan64 v = (if in64 v then Inr v else Inl ErrScan)"

definition order_net :: "pg \<Rightarrow> string \<Rightarrow> int" where
  "order_net db u = sum_of o_AmountMicros (group_rows o_UserID u (pg_orders db))"

definition refund_signed :: "Refund \<Rightarrow> int" where
  "refund_signed r = (if rf_Direction r = DirectionCredit then rf_AmountMicros r else - rf_AmountMicros r)"

definition refund_net :: "pg \<Rightarrow> string \<Rightarrow> int" where
  "refund_net db u =
     sum_of refund_signed (filter (\<lambda>r. rf_UserID r = u \<and> rf_Status r = RefundExecuted) (pg_refunds db))"

definition pg_Balance :: "sched \<Rightarrow> pg \<Rightarrow> string \<Rightarrow> go_error + int" where
  "pg_Balance fs db userID =
     (let (f1, fs1) = pop_fault fs; (f2, _) = pop_fault fs1
      in case query f1 (scan64 (order_net db userID)) of
           Inl e \<Rightarrow> Inl e
         | Inr net \<Rightarrow>
             (case query f2 (scan64 (refund_net db userID)) of
                Inl e \<Rightarrow> Inl e
              | Inr ref \<Rightarrow> Inr (add64 net ref)))"

definition order_entry :: "Order \<Rightarrow> Entry" where
  "order_entry x = \<lparr>en_RequestID = o_RequestID x, en_UserID = o_UserID x, en_Model = o_Model x,
     en_Status = o_Status x, en_AmountMicros = o_AmountMicros x, en_Direction = ''ORDER'',
     en_CreatedAt = o_CreatedAt x\<rparr>"

definition refund_entry :: "Refund \<Rightarrow> Entry" where
  "refund_entry r = \<lparr>en_RequestID = rf_RequestID r, en_UserID = rf_UserID r, en_Model = '''',
     en_Status = rf_Status r, en_AmountMicros = rf_AmountMicros r, en_Direction = rf_Direction r,
     en_CreatedAt = rf_CreatedAt r\<rparr>"

definition replay_rows :: "pg \<Rightarrow> int \<Rightarrow> int \<Rightarrow> Entry list" where
  "replay_rows db from to =
     sort_key en_CreatedAt
       (map order_entry (filter (\<lambda>x. from \<le> o_CreatedAt x \<and> o_CreatedAt x < to) (pg_orders db)) @
        map refund_entry (filter (\<lambda>r. from \<le> rf_CreatedAt r \<and> rf_CreatedAt r < to) (pg_refunds db)))"

text \<open>The callback \<open>fn\<close> threads a state of its own and stops the stream with an error.\<close>

fun replay_loop :: "('s \<Rightarrow> Entry \<Rightarrow> 's \<times> (go_error + unit)) \<Rightarrow> 's \<Rightarrow> Entry list \<Rightarrow> 's \<times> (go_error + unit)" where
  "replay_loop fn st [] = (st, Inr ())"
| "replay_loop fn st (e # es) =
     (case fn st e of (st', Inl err) \<Rightarrow> (st', Inl err) | (st', Inr _) \<Rightarrow> replay_loop fn st' es)"

definition Replay ::
  "fault \<Rightarrow> pg \<Rightarrow> int \<Rightarrow> int \<Rightarrow> ('s \<Rightarrow> Entry \<Rightarrow> 's \<times> (go_error + unit)) \<Rightarrow> 's \<Rightarrow> 's \<times> (go_error + unit)" where
  "Replay f db from to fn st =
     (case query f (Inr (replay_rows db from to)) of
        Inl e \<Rightarrow> (st, Inl e)
      | Inr es \<Rightarrow> replay_loop fn st es)"

section \<open>Usage reports\<close>

definition clamp_days :: "int \<Rightarrow> int" where
  "clamp_days days = (if days \<le> 0 \<or> days > 90 then 7 else days)"

definition user_window :: "int \<Rightarrow> pg \<Rightarrow> string \<Rightarrow> int \<Rightarrow> Order list" where
  "user_window now db userID days =
     filter (\<lambda>x. o_UserID x = userID \<and> o_CreatedAt x \<ge> now - days * 86400000000 \<and>
                 o_Status x = StatusSettled) (pg_orders db)"

definition UsageByDay :: "fault \<Rightarrow> int \<Rightarrow> pg \<Rightarrow> string \<Rightarrow> int \<Rightarrow> go_error + UsageDay list" where
  "UsageByDay f now db userID days =
     query f
       (let rows = user_window now db userID (clamp_days days);
            ds = sort (remdups (map (\<lambda>x. o_CreatedAt x div 86400000000) rows));
            row = (\<lambda>d. let g = filter (\<lambda>x. o_CreatedAt x div 86400000000 = d) rows
                       in \<lparr>ud_Day = d, ud_Requests = int (length g),
                           ud_PromptTok = sum_of o_PromptTokens g,
                           ud_ComplTok = sum_of o_CompletionTokens g,
                           ud_TotalTok = sum_of o_TotalTokens g,
                           ud_AmountMicros = sum_of o_AmountMicros g\<rparr>);
            out = map row ds
        in if list_all (\<lambda>d. in64 (ud_PromptTok d) \<and> in64 (ud_ComplTok d) \<and>
                            in64 (ud_TotalTok d) \<and> in64 (ud_AmountMicros d)) out
           then Inr out else Inl ErrScan)"

text \<open>
  \<open>approx t\<close> is \<open>int64(float64(t) * 0.35)\<close>; floating point is not modelled, so the
  estimate of the prompt share is a parameter.
\<close>

definition model_row :: "(int \<Rightarrow> int) \<Rightarrow> price_state \<Rightarrow> string \<Rightarrow> Order list \<Rightarrow> UsageByModelRow" where
  "model_row approx ps m g =
     (let tt = sum_of o_TotalTokens g; amt = sum_of o_AmountMicros g;
          approxInput = approx tt; approxOutput = sub64 tt approxInput;
          cost = CalculateAmount approxInput approxOutput (cost_of ps m)
      in \<lparr>um_Model = m, um_Requests = int (length g), um_TotalTok = tt, um_AmountMicros = amt,
          um_CostMicros = cost, um_MarginMicros = sub64 amt cost\<rparr>)"

definition UsageByModel ::
  "(int \<Rightarrow> int) \<Rightarrow> price_state \<Rightarrow> fault \<Rightarrow> int \<Rightarrow> pg \<Rightarrow> string \<Rightarrow> int \<Rightarrow> go_error + UsageByModelRow list" where
  "UsageByModel approx ps f now db userID days =
     query f
       (let rows = user_window now db userID (clamp_days days);
            ms = group_keys o_Model rows;
            out = rev (sort_key um_AmountMicros
                    (map (\<lambda>m. model_row approx ps m (group_rows o_Model m rows)) ms))
        in if list_all (\<lambda>m. in64 (um_TotalTok m) \<and> in64 (um_AmountMicros m)) out
           then Inr out else Inl ErrScan)"

section \<open>What an insert does to the table\<close>

text \<open>
  \<open>erase\<close> forgets the insertion time, the one column that depends on the clock.
  \<open>add_new\<close> is the first-wins union of rows by request id.
\<close>

definition erase :: "Order \<Rightarrow> Order" where
  "erase x = x\<lparr>o_CreatedAt := 0\<rparr>"

fun add_new :: "Order list \<Rightarrow> Order list \<Rightarrow> Order list" where
  "add_new rows [] = rows"
| "add_new rows (x # xs) =
     add_new (if o_RequestID x \<in> o_RequestID ` set rows then rows else rows @ [x]) xs"

definition rows_of :: "pg \<Rightarrow> Order list" where
  "rows_of db = map erase (pg_orders db)"

definition find_order :: "string \<Rightarrow> Order list \<Rightarrow> Order option" where
  "find_order rid rows = find (\<lambda>x. o_RequestID x = rid) rows"

definition pg_ok :: "pg \<Rightarrow> bool" where
  "pg_ok db \<longleftrightarrow> distinct (map o_RequestID (pg_orders db)) \<and>
     distinct (map rf_IdempotencyKey (pg_refunds db)) \<and> distinct (map rf_ID (pg_refunds db)) \<and>
     (\<forall>r\<in>set (pg_refunds db). rf_ID r \<le> pg_refund_seq db)"

lemma erase_simps [simp]:
  "o_RequestID (erase x) = o_RequestID x" "o_UserID (erase x) = o_UserID x"
  "o_AmountMicros (erase x) = o_AmountMicros x" "o_Status (erase x) = o_Status x"
  "erase (erase x) = erase x" "erase (x\<lparr>o_CreatedAt := t\<rparr>) = erase x"
  by (simp_all add: erase_def)

lemma add_new_append: "add_new rows (xs @ ys) = add_new (add_new rows xs) ys"
  by (induction rows xs rule: add_new.induct) simp_all

lemma add_new_ids: "o_RequestID ` set (add_new rows xs) = o_RequestID ` set rows \<union> o_RequestID ` set xs"
  by (induction rows xs rule: add_new.induct) auto

lemma add_new_known: "o_RequestID ` set xs \<subseteq> o_RequestID ` set rows \<Longrightarrow> add_new rows xs = rows"
  by (induction rows xs rule: add_new.induct) auto

lemma add_new_again: "set ys \<subseteq> set xs \<Longrightarrow> add_new (add_new rows xs) ys = add_new rows xs"
  by (rule add_new_known) (auto simp: add_new_ids)

text \<open>Completing an interrupted insert is the same as one insert.\<close>

lemma add_new_resume: "add_new (add_new rows (take n xs)) xs = add_new rows xs"
proof -
  have "add_new (add_new rows (take n xs)) (take n xs @ drop n xs)
      = add_new (add_new rows (take n xs)) (drop n xs)"
    by (simp only: add_new_append add_new_again [OF subset_refl])
  then show ?thesis
    by (simp add: add_new_append [symmetric])
qed

lemma add_new_prefix: "\<exists>zs. add_new rows xs = rows @ zs \<and> set zs \<subseteq> set xs"
proof (induction rows xs rule: add_new.induct)
  case (2 rows x xs)
  then show ?case by fastforce
qed simp

lemma add_new_distinct:
  "distinct (map o_RequestID rows) \<Longrightarrow> distinct (map o_RequestID (add_new rows xs))"
  by (induction rows xs rule: add_new.induct) auto

lemma find_order_append:
  "find_order rid (xs @ ys) = (case find_order rid xs of None \<Rightarrow> find_order rid ys | Some x \<Rightarrow> Some x)"
  by (induction xs) (auto simp: find_order_def)

lemma find_order_None: "find_order rid rows = None \<longleftrightarrow> rid \<notin> o_RequestID ` set rows"
  by (auto simp: find_order_def find_None_iff)

lemma find_order_Some: "find_order rid rows = Some x \<Longrightarrow> x \<in> set rows \<and> o_RequestID x = rid"
  by (auto simp: find_order_def find_Some_iff)

lemma find_order_distinct:
  "distinct (map o_RequestID rows) \<Longrightarrow> x \<in> set rows \<Longrightarrow> find_order (o_RequestID x) rows = Some x"
  by (induction rows) (auto simp: find_order_def image_iff)

lemma find_order_add_new:
  "find_order rid (add_new rows xs) =
     (case find_order rid rows of Some x \<Rightarrow> Some x | None \<Rightarrow> find_order rid xs)"
proof (induction rows xs rule: add_new.induct)
  case (2 rows x xs)
  then show ?case
    by (auto simp: find_order_append find_order_None [symmetric] split: option.splits)
       (auto simp: find_order_def find_None_iff)
qed (simp add: find_order_def split: option.splits)

lemma rows_of_insert_order: "rows_of (fst (sql_insert_order now db x)) = add_new (rows_of db) [erase x]"
  by (auto simp: sql_insert_order_def rows_of_def list_ex_iff image_iff) metis+

lemma rows_of_insert_rows: "rows_of (sql_insert_rows now db xs) = add_new (rows_of db) (map erase xs)"
  by (induction now db xs rule: sql_insert_rows.induct)
     (simp_all add: rows_of_insert_order add_new_append [symmetric])

lemma insert_rows_refunds [simp]:
  "pg_refunds (sql_insert_rows now db xs) = pg_refunds db"
  "pg_refund_seq (sql_insert_rows now db xs) = pg_refund_seq db"
  by (induction now db xs rule: sql_insert_rows.induct) (simp_all add: sql_insert_order_def)

lemma insert_rows_appends: "\<exists>zs. pg_orders (sql_insert_rows now db xs) = pg_orders db @ zs"
proof (induction now db xs rule: sql_insert_rows.induct)
  case (2 now db x xs)
  then show ?case by (force simp: sql_insert_order_def)
qed simp

lemma rows_of_ids: "map o_RequestID (rows_of db) = map o_RequestID (pg_orders db)"
  by (simp add: rows_of_def)

text \<open>
  Every outcome of \<open>InsertOrders\<close>: some prefix of the batch is stored; all of it when the
  call reports success; the table only grows and the refunds are untouched.
\<close>

lemma InsertOrders_loop_effect:
  assumes "InsertOrders_loop clock i fs db xs = (db', r, fs')"
  shows "(\<exists>n. rows_of db' = add_new (rows_of db) (map erase (take n xs))
              \<and> (isl r \<or> n = length xs))
    \<and> (\<exists>zs. pg_orders db' = pg_orders db @ zs)
    \<and> pg_refunds db' = pg_refunds db \<and> pg_refund_seq db' = pg_refund_seq db
    \<and> (fs = [] \<longrightarrow> r = Inr () \<and> fs' = [])"
  using assms
proof (induction clock i fs db xs arbitrary: db' r fs' rule: InsertOrders_loop.induct)
  case (1 clock i fs db xs)
  show ?case
  proof (cases "xs = []")
    case True
    with "1.prems" show ?thesis by (auto simp: InsertOrders_loop.simps)
  next
    case False
    obtain f gs where pf: "pop_fault fs = (f, gs)" by (cases "pop_fault fs")
    define one where "one = sql_insert_rows (clock i) db (take 1000 xs)"
    have eff: "rows_of one = add_new (rows_of db) (map erase (take 1000 xs))"
      "\<exists>zs. pg_orders one = pg_orders db @ zs" "pg_refunds one = pg_refunds db"
      "pg_refund_seq one = pg_refund_seq db"
      by (auto simp: one_def rows_of_insert_rows insert_rows_appends)
    show ?thesis
    proof (cases f)
      case NoFault
      have rec: "InsertOrders_loop clock (Suc i) gs one (drop 1000 xs) = (db', r, fs')"
        using "1.prems" False pf NoFault
        by (subst (asm) InsertOrders_loop.simps) (simp add: one_def)
      have ih: "(\<exists>n. rows_of db' = add_new (rows_of one) (map erase (take n (drop 1000 xs)))
              \<and> (isl r \<or> n = length (drop 1000 xs)))
          \<and> (\<exists>zs. pg_orders db' = pg_orders one @ zs)
          \<and> pg_refunds db' = pg_refunds one \<and> pg_refund_seq db' = pg_refund_seq one
          \<and> (gs = [] \<longrightarrow> r = Inr () \<and> fs' = [])"
        by (rule "1.IH" [OF False pf [symmetric] refl refl _ refl rec]) (simp add: one_def NoFault)
      then obtain n where n: "rows_of db' = add_new (rows_of one) (map erase (take n (drop 1000 xs)))"
        "isl r \<or> n = length (drop 1000 xs)" by blast
      have "rows_of db' = add_new (rows_of db) (map erase (take (1000 + n) xs))"
        using n(1) eff(1) by (simp add: take_add add_new_append)
      moreover have "isl r \<or> rows_of db' = add_new (rows_of db) (map erase (take (length xs) xs))"
        using n eff(1) by (metis add_new_append append_take_drop_id map_append take_all_iff order_refl)
      ultimately have "\<exists>n. rows_of db' = add_new (rows_of db) (map erase (take n xs))
            \<and> (isl r \<or> n = length xs)" by blast
      moreover have "fs = [] \<Longrightarrow> gs = []"
        using pf by auto
      ultimately show ?thesis
        using ih eff by auto
    next
      case FailBefore
      with "1.prems" False pf have "db' = db" "isl r" "fs \<noteq> []"
        by (auto simp: InsertOrders_loop.simps [of clock i fs])
      then show ?thesis by (auto intro: exI [of _ 0])
    next
      case FailAfter
      with "1.prems" False pf have "db' = one" "isl r" "fs \<noteq> []"
        by (auto simp: InsertOrders_loop.simps [of clock i fs] one_def)
      then show ?thesis using eff by auto
    qed
  qed
qed

lemmas InsertOrders_effect = InsertOrders_loop_effect [where i = 0, folded InsertOrders_def]

section \<open>The contract of an order store\<close>

text \<open>
  What the settle path relies on. \<open>slot u\<close> is where the orders of user \<open>u\<close> are kept (a
  single database has one slot, a sharded one a slot per shard) and \<open>look s k rid\<close> the
  stored row, without its insertion time. A batch insert keeps the first row of every
  request id; a failed one has, for each request id, happened entirely or not at all.
\<close>

definition first_of :: "(string \<Rightarrow> nat) \<Rightarrow> nat \<Rightarrow> string \<Rightarrow> Order list \<Rightarrow> Order option" where
  "first_of slot k rid xs = find_order rid (map erase (filter (\<lambda>x. slot (o_UserID x) = k) xs))"

definition first_wins :: "Order option \<Rightarrow> Order option \<Rightarrow> Order option" where
  "first_wins old new = (case old of Some x \<Rightarrow> Some x | None \<Rightarrow> new)"

lemma first_wins_simps [simp]: "first_wins None b = b" "first_wins (Some x) b = Some x"
  by (simp_all add: first_wins_def)

lemma first_wins_None: "first_wins a b = None \<longleftrightarrow> a = None \<and> b = None"
  by (cases a) simp_all

lemma first_of_member: "x \<in> set xs \<Longrightarrow> first_of slot (slot (o_UserID x)) (o_RequestID x) xs \<noteq> None"
  unfolding first_of_def by (simp add: find_order_None image_iff) (metis)

locale order_store =
  fixes insert :: "sched \<Rightarrow> 's \<Rightarrow> Order list \<Rightarrow> 's \<times> (go_error + unit) \<times> sched"
    and slot :: "string \<Rightarrow> nat"
    and look :: "'s \<Rightarrow> nat \<Rightarrow> string \<Rightarrow> Order option"
    and inv :: "'s \<Rightarrow> bool"
  assumes insert_inv:
      "inv s \<Longrightarrow> insert fs s xs = (s', r, fs') \<Longrightarrow> inv s'"
    and insert_ok:
      "inv s \<Longrightarrow> insert fs s xs = (s', Inr (), fs') \<Longrightarrow>
         look s' k rid = first_wins (look s k rid) (first_of slot k rid xs)"
    and insert_err:
      "inv s \<Longrightarrow> insert fs s xs = (s', Inl e, fs') \<Longrightarrow>
         look s' k rid = look s k rid \<or>
         look s' k rid = first_wins (look s k rid) (first_of slot k rid xs)"
    and insert_available:
      "inv s \<Longrightarrow> \<exists>s'. insert [] s xs = (s', Inr (), [])"
begin

lemma insert_any:
  assumes "inv s" and "insert fs s xs = (s', r, fs')"
  shows "look s' k rid = look s k rid \<or>
         look s' k rid = first_wins (look s k rid) (first_of slot k rid xs)"
  using assms insert_ok [of s fs xs s' fs' k rid] insert_err [of s fs xs s' _ fs' k rid]
  by (cases r) auto

lemma insert_grows:
  assumes "inv s" and "insert fs s xs = (s', r, fs')" and "look s k rid = Some x"
  shows "look s' k rid = Some x"
  using insert_any [OF assms(1,2), of k rid] assms(3) by auto

lemma insert_stores:
  assumes "inv s" and "insert fs s xs = (s', Inr (), fs')" and "x \<in> set xs"
  shows "look s' (slot (o_UserID x)) (o_RequestID x) \<noteq> None"
  using insert_ok [OF assms(1,2)] first_of_member [OF assms(3)] by (simp add: first_wins_None)

text \<open>A failed insert followed by a successful retry stores what one insert stores.\<close>

lemma insert_retry:
  assumes "inv s" and "insert fs s xs = (s1, r, fs1)" and "insert gs s1 xs = (s2, Inr (), gs1)"
  shows "look s2 k rid = first_wins (look s k rid) (first_of slot k rid xs)"
  using insert_any [OF assms(1,2), of k rid] insert_ok [OF insert_inv [OF assms(1,2)] assms(3), of k rid]
  by (auto simp: first_wins_def split: option.splits)

end

definition pg_look :: "pg \<Rightarrow> nat \<Rightarrow> string \<Rightarrow> Order option" where
  "pg_look db k rid = (if k = 0 then find_order rid (rows_of db) else None)"

lemma pg_look_zero [simp]: "pg_look db 0 rid = find_order rid (rows_of db)"
  by (simp add: pg_look_def)

lemma first_of_single: "first_of (\<lambda>_. 0) k rid xs = (if k = 0 then find_order rid (map erase xs) else None)"
  by (auto simp: first_of_def find_order_def)

lemma find_order_take:
  "find_order rid (map erase (take n xs)) = None \<or>
   find_order rid (map erase (take n xs)) = find_order rid (map erase xs)"
proof -
  have "map erase xs = map erase (take n xs) @ map erase (drop n xs)"
    by (simp only: map_append [symmetric] append_take_drop_id)
  then show ?thesis
    by (cases "find_order rid (map erase (take n xs))") (simp_all only: find_order_append option.simps simp_thms)
qed

section \<open>Invariant of the database\<close>

lemma pg_ok_empty: "pg_ok empty_pg"
  by (simp add: pg_ok_def empty_pg_def)

lemma pg_ok_call: "pg_ok db \<Longrightarrow> pg_ok (fst r) \<Longrightarrow> pg_ok (fst (call_service f db r))"
  by (cases f) simp_all

lemma pg_ok_InsertOrders:
  assumes "pg_ok db" and "InsertOrders clock fs db xs = (db', r, fs')"
  shows "pg_ok db'"
proof -
  obtain n where "rows_of db' = add_new (rows_of db) (map erase (take n xs))"
    and "pg_refunds db' = pg_refunds db" "pg_refund_seq db' = pg_refund_seq db"
    using InsertOrders_effect [OF assms(2)] by blast
  with assms(1) show ?thesis
    by (simp add: pg_ok_def rows_of_ids [symmetric] add_new_distinct)
qed

lemma pg_ok_InsertOrder: "pg_ok db \<Longrightarrow> pg_ok (fst (InsertOrder now f db x))"
  unfolding InsertOrder_def
  by (rule pg_ok_call) (auto simp: sql_insert_order_def pg_ok_def list_ex_iff image_iff)

lemma pg_ok_InsertRefund: "pg_ok db \<Longrightarrow> pg_ok (fst (InsertRefund now f db r))"
  unfolding InsertRefund_def
  by (rule pg_ok_call)
     (fastforce simp: sql_insert_refund_def pg_ok_def find_None_iff Let_def split: option.splits)+

lemma pg_ok_MarkExecuted: "pg_ok db \<Longrightarrow> pg_ok (fst (MarkExecuted f db i))"
proof -
  have *: "map g (map (\<lambda>r. if rf_ID r = i \<and> rf_Status r = RefundPending
      then r\<lparr>rf_Status := RefundExecuted\<rparr> else r) rs) = map g rs"
    if "\<And>r. g (r\<lparr>rf_Status := RefundExecuted\<rparr>) = g r" for g :: "Refund \<Rightarrow> 'b" and rs
    using that by (induction rs) simp_all
  assume "pg_ok db"
  then show ?thesis
    unfolding MarkExecuted_def by (intro pg_ok_call) (auto simp: pg_ok_def * simp del: map_map)
qed

interpretation pgs: order_store "InsertOrders clock" "\<lambda>_. 0" pg_look pg_ok for clock
proof
  fix s s' :: pg and fs xs r fs'
  assume "pg_ok s" "InsertOrders clock fs s xs = (s', r, fs')"
  then show "pg_ok s'" by (rule pg_ok_InsertOrders)
next
  fix fs s xs s' fs' k rid
  assume "InsertOrders clock fs s xs = (s', Inr (), fs')"
  from InsertOrders_effect [OF this]
  show "pg_look s' k rid = first_wins (pg_look s k rid) (first_of (\<lambda>_. 0) k rid xs)"
    by (auto simp: pg_look_def first_of_single find_order_add_new first_wins_def)
next
  fix fs s xs s' fs' k rid e
  assume "InsertOrders clock fs s xs = (s', Inl e, fs')"
  from InsertOrders_effect [OF this] obtain n
    where "rows_of s' = add_new (rows_of s) (map erase (take n xs))" by blast
  then show "pg_look s' k rid = pg_look s k rid \<or>
      pg_look s' k rid = first_wins (pg_look s k rid) (first_of (\<lambda>_. 0) k rid xs)"
    using find_order_take [of rid n xs]
    by (auto simp: pg_look_def first_of_single find_order_add_new first_wins_def split: option.splits)
next
  fix s xs
  show "\<exists>s'. InsertOrders clock [] s xs = (s', Inr (), [])"
    using InsertOrders_effect [of clock "[]" s xs] by (metis prod_cases3)
qed

section \<open>Refund lookups\<close>

definition has_refund_key :: "string \<Rightarrow> pg \<Rightarrow> bool" where
  "has_refund_key key db \<longleftrightarrow> list_ex (\<lambda>r. rf_IdempotencyKey r = key) (pg_refunds db)"

lemma has_refund_key_iff: "has_refund_key key db \<longleftrightarrow> key \<in> rf_IdempotencyKey ` set (pg_refunds db)"
  by (auto simp: has_refund_key_def list_ex_iff)

lemma InsertRefund_created:
  "snd (InsertRefund now f db r) = Inr (i, True) \<Longrightarrow>
     \<not> has_refund_key (rf_IdempotencyKey r) db \<and>
     has_refund_key (rf_IdempotencyKey r) (fst (InsertRefund now f db r))"
  by (cases f) (auto simp: InsertRefund_def sql_insert_refund_def has_refund_key_iff Let_def
      find_None_iff find_Some_iff image_iff split: option.splits)

lemma InsertRefund_keeps_key:
  "has_refund_key key db \<Longrightarrow> has_refund_key key (fst (InsertRefund now f db r))"
  by (cases f) (auto simp: InsertRefund_def sql_insert_refund_def has_refund_key_iff Let_def
      split: option.splits)

text \<open>The answers of a sequence of refund attempts, each with its own time and outcome.\<close>

fun insert_refunds :: "pg \<Rightarrow> (int \<times> fault \<times> Refund) list \<Rightarrow> pg \<times> (Refund \<times> (go_error + int \<times> bool)) list" where
  "insert_refunds db [] = (db, [])"
| "insert_refunds db ((now, f, r) # rest) =
     (let (db1, ans) = InsertRefund now f db r; (db2, out) = insert_refunds db1 rest
      in (db2, (r, ans) # out))"

definition created_for :: "string \<Rightarrow> (Refund \<times> (go_error + int \<times> bool)) list \<Rightarrow> nat" where
  "created_for key out = length (filter
     (\<lambda>(r, ans). rf_IdempotencyKey r = key \<and> (case ans of Inr (_, c) \<Rightarrow> c | Inl _ \<Rightarrow> False)) out)"

lemma insert_refunds_created:
  "created_for key (snd (insert_refunds db rs)) \<le> (if has_refund_key key db then 0 else 1)"
proof (induction db rs rule: insert_refunds.induct)
  case (2 db now f r rest)
  obtain db1 ans where a: "InsertRefund now f db r = (db1, ans)" by fastforce
  have ih: "created_for key (snd (insert_refunds db1 rest)) \<le> (if has_refund_key key db1 then 0 else 1)"
    using 2 a by simp
  have keep: "has_refund_key key db \<Longrightarrow> has_refund_key key db1"
    using InsertRefund_keeps_key [of key db now f r] a by simp
  have new: "rf_IdempotencyKey r = key \<Longrightarrow> ans = Inr (i, True) \<Longrightarrow>
      \<not> has_refund_key key db \<and> has_refund_key key db1" for i
    using InsertRefund_created [of now f db r i] a by simp
  show ?case
    using a ih keep new
    by (auto simp: created_for_def split: prod.splits sum.splits if_splits)
qed (simp add: created_for_def)

section \<open>Ledger: balance and replay\<close>

text \<open>The signed effect of a replayed entry on the balance of \<open>u\<close>, and a callback summing it.\<close>

definition entry_signed :: "string \<Rightarrow> Entry \<Rightarrow> int" where
  "entry_signed u e =
     (if en_UserID e \<noteq> u then 0
      else if en_Direction e = ''ORDER'' then en_AmountMicros e
      else if en_Status e \<noteq> RefundExecuted then 0
      else if en_Direction e = DirectionCredit then en_AmountMicros e else - en_AmountMicros e)"

definition sum_entries :: "string \<Rightarrow> int \<Rightarrow> Entry \<Rightarrow> int \<times> (go_error + unit)" where
  "sum_entries u acc e = (add64 acc (entry_signed u e), Inr ())"

lemma replay_loop_sum: "replay_loop (sum_entries u) acc es = (foldl add64 acc (map (entry_signed u) es), Inr ())"
  by (induction es arbitrary: acc) (simp_all add: sum_entries_def)

lemma sum_list_sort_key: "sum_list (map g (sort_key k xs)) = sum_list (map g xs)"
  for g :: "'a \<Rightarrow> int"
  by (metis mset_map mset_sort sum_mset_sum_list)

lemma order_entries_sum:
  "sum_list (map (entry_signed u \<circ> order_entry) xs) = sum_of o_AmountMicros (group_rows o_UserID u xs)"
  by (induction xs) (simp_all add: sum_of_def group_rows_def entry_signed_def order_entry_def)

lemma refund_entries_sum:
  "list_all (\<lambda>r. rf_Direction r \<in> {DirectionCredit, DirectionDebit}) rs \<Longrightarrow>
   sum_list (map (entry_signed u \<circ> refund_entry) rs) =
     sum_of refund_signed (filter (\<lambda>r. rf_UserID r = u \<and> rf_Status r = RefundExecuted) rs)"
  by (induction rs) (auto simp: sum_of_def entry_signed_def refund_entry_def refund_signed_def)

section \<open>Properties\<close>

text \<open>C4: Settling is replay safe. Whatever happened to a first attempt to store a batch
(it succeeded, it failed after some of its thousand-row statements, or the answer was lost
after a commit), a second attempt that reports success leaves exactly one row per request
id of the batch, the first one given for it; the rows already there are untouched, nothing
but rows of the batch was added, and the key constraints of the schema still hold.\<close>

theorem insert_orders_exactly_once:
  assumes "pg_ok db"
    and "InsertOrders clock1 fs db xs = (db1, r, fs1)"
    and "InsertOrders clock2 gs db1 xs = (db2, Inr (), gs1)"
  shows "pg_ok db2 \<and> rows_of db2 = add_new (rows_of db) (map erase xs)
    \<and> (\<exists>zs. pg_orders db2 = pg_orders db @ zs \<and> erase ` set zs \<subseteq> erase ` set xs)
    \<and> (\<forall>x\<in>set xs. length (filter (\<lambda>y. o_RequestID y = o_RequestID x) (pg_orders db2)) = 1)"
proof -
  obtain n where n: "rows_of db1 = add_new (rows_of db) (map erase (take n xs))"
    and a1: "\<exists>zs. pg_orders db1 = pg_orders db @ zs"
    using InsertOrders_effect [OF assms(2)] by blast
  have "rows_of db2 = add_new (rows_of db1) (map erase xs)"
    and a2: "\<exists>zs. pg_orders db2 = pg_orders db1 @ zs"
    using InsertOrders_effect [OF assms(3)] by auto
  with n have rows: "rows_of db2 = add_new (rows_of db) (map erase xs)"
    by (simp add: take_map [symmetric] add_new_resume)
  have ok: "pg_ok db2"
    using assms pg_ok_InsertOrders by blast
  obtain zs where zs: "pg_orders db2 = pg_orders db @ zs"
    using a1 a2 by auto
  obtain ws where "add_new (rows_of db) (map erase xs) = rows_of db @ ws" "set ws \<subseteq> set (map erase xs)"
    using add_new_prefix by blast
  with rows zs have sub: "erase ` set zs \<subseteq> erase ` set xs"
    by (auto simp: rows_of_def)
  have one: "length (filter (\<lambda>y. o_RequestID y = o_RequestID x) (pg_orders db2)) = 1"
    if "x \<in> set xs" for x
  proof -
    have "o_RequestID x \<in> set (map o_RequestID (rows_of db2))"
      using that rows add_new_ids [of "rows_of db" "map erase xs"] by (simp add: image_image)
    with ok show ?thesis
      by (intro distinct_map_filter_one) (simp_all add: pg_ok_def rows_of_ids)
  qed
  show ?thesis
    using ok rows zs sub one by blast
qed

definition sample_order :: "string \<Rightarrow> string \<Rightarrow> int \<Rightarrow> Order" where
  "sample_order rid u amt = \<lparr>o_RequestID = rid, o_UserID = u, o_Model = ''gpt-4o'', o_Provider = ''openai'',
     o_Status = StatusSettled, o_PromptTokens = 10, o_CompletionTokens = 5, o_TotalTokens = 15,
     o_AmountMicros = amt, o_DurationMs = 7, o_TTFTMs = 2, o_CreatedAt = 0\<rparr>"

theorem insert_orders_exactly_once_witness:
  "length (filter (\<lambda>y. o_RequestID y = ''r1'')
     (pg_orders (fst (InsertOrders (\<lambda>_. 9) []
        (fst (InsertOrders (\<lambda>_. 5) [FailAfter] empty_pg [sample_order ''r1'' ''u'' 30]))
        [sample_order ''r1'' ''u'' 30])))) = 1"
proof -
  let ?xs = "[sample_order ''r1'' ''u'' 30]"
  obtain db1 r fs1 where 1: "InsertOrders (\<lambda>_. 5) [FailAfter] empty_pg ?xs = (db1, r, fs1)"
    by (metis prod_cases3)
  obtain db2 where 2: "InsertOrders (\<lambda>_. 9) [] db1 ?xs = (db2, Inr (), [])"
    using pgs.insert_available [of db1] pg_ok_InsertOrders [OF pg_ok_empty 1] by blast
  show ?thesis
    using insert_orders_exactly_once [OF pg_ok_empty 1 2] 1 2 by (simp add: sample_order_def)
qed

text \<open>Theorem: A refund is created at most once per idempotency key: in any sequence of
attempts with any outcomes (lost answers included), at most one attempt with a given key is
told that it created the row, and none when the key was already stored. This is the flag
the reconciliation engine credits the user on.\<close>

theorem refund_created_at_most_once:
  "created_for key (snd (insert_refunds db rs)) \<le> (if has_refund_key key db then 0 else 1)"
  by (rule insert_refunds_created)

text \<open>C22: The balance is the figure a replay of the ledger gives. Summing the entries that
\<open>Replay\<close> streams for a window that covers every row (orders added, executed credits added,
executed debits subtracted, other refunds ignored) ends without error on exactly the value
\<open>Balance\<close> returns, whatever order the stream has.\<close>

theorem balance_is_ledger_replay:
  assumes "\<forall>x\<in>set (pg_orders db). from \<le> o_CreatedAt x \<and> o_CreatedAt x < to"
    and "\<forall>r\<in>set (pg_refunds db). from \<le> rf_CreatedAt r \<and> rf_CreatedAt r < to
           \<and> rf_Direction r \<in> {DirectionCredit, DirectionDebit}"
    and "in64 (order_net db u)" and "in64 (refund_net db u)"
  shows "\<exists>b. pg_Balance [] db u = Inr b \<and> Replay NoFault db from to (sum_entries u) 0 = (b, Inr ())"
proof -
  have all: "filter (\<lambda>x. from \<le> o_CreatedAt x \<and> o_CreatedAt x < to) (pg_orders db) = pg_orders db"
    "filter (\<lambda>r. from \<le> rf_CreatedAt r \<and> rf_CreatedAt r < to) (pg_refunds db) = pg_refunds db"
    using assms(1,2) by (auto simp: filter_id_conv)
  have "list_all (\<lambda>r. rf_Direction r \<in> {DirectionCredit, DirectionDebit}) (pg_refunds db)"
    using assms(2) by (simp add: list_all_iff)
  then have "sum_list (map (entry_signed u) (replay_rows db from to)) = order_net db u + refund_net db u"
    by (simp add: replay_rows_def all sum_list_sort_key order_entries_sum refund_entries_sum
        order_net_def refund_net_def)
  then have "Replay NoFault db from to (sum_entries u) 0 = (wrap64 (order_net db u + refund_net db u), Inr ())"
    using foldl_add64 [of 0 "map (entry_signed u) (replay_rows db from to)"]
    by (simp add: Replay_def query_def replay_loop_sum wrap64_id in64_def)
  then show ?thesis
    using assms(3,4) by (simp add: pg_Balance_def query_def scan64_def add64_def)
qed

theorem balance_is_ledger_replay_witness:
  "\<exists>b. pg_Balance [] (empty_pg\<lparr>pg_orders := [sample_order ''r1'' ''u'' 30]\<rparr>) ''u'' = Inr b \<and>
     Replay NoFault (empty_pg\<lparr>pg_orders := [sample_order ''r1'' ''u'' 30]\<rparr>) 0 9 (sum_entries ''u'') 0
       = (b, Inr ())"
  by (rule balance_is_ledger_replay)
     (simp_all add: empty_pg_def sample_order_def order_net_def refund_net_def sum_of_def
       group_rows_def in64_def)

end
