(* ===== verification/Redis_Api.thy ===== *)
theory Redis_Api
  imports Prelude "HOL-Library.AList"
begin

text \<open>
  The Redis commands the billing packages call. Redis is a service outside the
  repository, so its commands are a parameter of the model: a record of operations on an
  abstract server state. The locale \<open>redis_kv\<close> names the documented behaviour the code
  relies on; \<open>mem_redis\<close> is an executable server that has it.
\<close>

section \<open>The commands\<close>

text \<open>
  Every value the code stores is a decimal integer, so \<open>GET\<close> answers the integer.
  \<open>INCRBY\<close> (and \<open>DECRBY\<close>, which adds the negated argument) is refused when the result
  leaves the 64-bit range. \<open>lua_num\<close> is the number a script's \<open>tonumber\<close> makes of an
  integer, a double: exact up to \<open>2^53\<close>. \<open>r_scan\<close> lists the keys with a prefix; a key
  may be listed more than once, as \<open>SCAN\<close> documents.
\<close>

record 'r redis =
  r_get :: "'r \<Rightarrow> string \<Rightarrow> int option"
  r_incrby :: "'r \<Rightarrow> string \<Rightarrow> int \<Rightarrow> 'r option"
  r_setex :: "'r \<Rightarrow> string \<Rightarrow> int \<Rightarrow> int \<Rightarrow> 'r"
  r_del :: "'r \<Rightarrow> string \<Rightarrow> 'r"
  r_scan :: "'r \<Rightarrow> string \<Rightarrow> string list"
  lua_num :: "int \<Rightarrow> int"

definition get0 :: "'r redis \<Rightarrow> 'r \<Rightarrow> string \<Rightarrow> int" where
  "get0 R s k = (case r_get R s k of None \<Rightarrow> 0 | Some v \<Rightarrow> v)"

definition has_prefix :: "string \<Rightarrow> string \<Rightarrow> bool" where
  "has_prefix p k \<longleftrightarrow> take (length p) k = p"

lemma has_prefix_append [simp]: "has_prefix p (p @ k)"
  by (simp add: has_prefix_def)

lemma has_prefixE:
  assumes "has_prefix p k"
  obtains r where "k = p @ r"
  using assms by (metis append_take_drop_id has_prefix_def)

text \<open>The integers a double holds exactly.\<close>

definition small :: "int \<Rightarrow> bool" where
  "small n \<longleftrightarrow> \<bar>n\<bar> \<le> 9007199254740992"

lemma small_in64:
  "small a \<Longrightarrow> small b \<Longrightarrow> in64 (a + b)" "small a \<Longrightarrow> small b \<Longrightarrow> in64 (a - b)"
  "small a \<Longrightarrow> in64 a"
  by (auto simp: small_def in64_def)

lemma small_diff: "small a \<Longrightarrow> small b \<Longrightarrow> 0 \<le> a \<Longrightarrow> 0 \<le> b \<Longrightarrow> small (a - b)"
  by (auto simp: small_def)

section \<open>What the code relies on\<close>

locale redis_kv =
  fixes R :: "'r redis"
  assumes incrby:
      "in64 (get0 R s k + d) \<Longrightarrow>
       \<exists>s'. r_incrby R s k d = Some s' \<and> r_get R s' = (r_get R s)(k \<mapsto> get0 R s k + d)"
    and incrby_overflow: "\<not> in64 (get0 R s k + d) \<Longrightarrow> r_incrby R s k d = None"
    and setex: "0 < ttl \<Longrightarrow> r_get R (r_setex R s k v ttl) = (r_get R s)(k \<mapsto> v)"
    and del: "r_get R (r_del R s k) = (r_get R s)(k := None)"
    and scan: "set (r_scan R s p) = {k. has_prefix p k \<and> r_get R s k \<noteq> None}"
    and lua_exact: "small n \<Longrightarrow> lua_num R n = n"
begin

lemma incrbyE:
  assumes "in64 (get0 R s k + d)"
  obtains s' where "r_incrby R s k d = Some s'"
    "r_get R s' = (r_get R s)(k \<mapsto> get0 R s k + d)"
  using incrby [OF assms] by blast

lemma get0_upd: "r_get R s' = (r_get R s)(k \<mapsto> v) \<Longrightarrow> get0 R s' k' = (if k' = k then v else get0 R s k')"
  by (simp add: get0_def)

lemma get0_lua: "small (get0 R s k) \<Longrightarrow> lua_num R (get0 R s k) = get0 R s k"
  by (rule lua_exact)

end

section \<open>An executable server\<close>

definition mem_redis :: "(string \<times> int) list redis" where
  "mem_redis =
     \<lparr>r_get = map_of,
      r_incrby = (\<lambda>s k d.
        let v = (case map_of s k of None \<Rightarrow> 0 | Some v \<Rightarrow> v) + d
        in if in64 v then Some (AList.update k v s) else None),
      r_setex = (\<lambda>s k v ttl. AList.update k v s),
      r_del = (\<lambda>s k. AList.delete k s),
      r_scan = (\<lambda>s p. filter (has_prefix p) (map fst s)),
      lua_num = (\<lambda>n. n)\<rparr>"

lemma mem_get [simp]: "r_get mem_redis = map_of"
  by (simp add: mem_redis_def)

lemma mem_get0 [simp]:
  "get0 mem_redis s k = (case map_of s k of None \<Rightarrow> 0 | Some v \<Rightarrow> v)"
  by (simp add: get0_def)

interpretation mem: redis_kv mem_redis
proof
  fix s p
  show "set (r_scan mem_redis s p) = {k. has_prefix p k \<and> r_get mem_redis s k \<noteq> None}"
    by (auto simp: mem_redis_def map_of_eq_None_iff image_iff)
qed (simp_all add: mem_redis_def get0_def Let_def update_conv' delete_conv')

end
