(* ===== verification/Precharge.thy ===== *)
theory Precharge
  imports Redis_Api Pricing
begin

text \<open>
  The billing fast path of \<open>internal/billing/precharge.go\<close>: the two Lua scripts that
  reserve and settle a pre-charge, the \<open>Precharger\<close> operations that run them, and an
  abstract wallet they refine. \<open>R\<close> is the Redis server, \<open>s\<close> its state and \<open>f\<close> what
  becomes of the network call.
\<close>

section \<open>Keys\<close>

definition balKey :: "string \<Rightarrow> string" where
  "balKey user = ''balance:'' @ user"

definition frozenKey :: "string \<Rightarrow> string" where
  "frozenKey user = ''frozen:'' @ user"

definition preKey :: "string \<Rightarrow> string" where
  "preKey req = ''precharge:'' @ req"

lemma keys_inj [simp]:
  "balKey u = balKey v \<longleftrightarrow> u = v" "frozenKey u = frozenKey v \<longleftrightarrow> u = v"
  "preKey r = preKey q \<longleftrightarrow> r = q"
  by (simp_all add: balKey_def frozenKey_def preKey_def)

lemma keys_distinct [simp]:
  "balKey u \<noteq> frozenKey v" "frozenKey v \<noteq> balKey u" "balKey u \<noteq> preKey r"
  "preKey r \<noteq> balKey u" "frozenKey u \<noteq> preKey r" "preKey r \<noteq> frozenKey u"
  by (simp_all add: balKey_def frozenKey_def preKey_def)

definition prechargeTTL :: int where
  "prechargeTTL = 48 * 3600"

section \<open>The scripts\<close>

text \<open>
  A script's result is the server state it leaves and its reply. A command that raises
  ends the script; the commands before it stay done.
\<close>

definition lua_get :: "'r redis \<Rightarrow> 'r \<Rightarrow> string \<Rightarrow> int" where
  "lua_get R s k = (case r_get R s k of None \<Rightarrow> 0 | Some v \<Rightarrow> lua_num R v)"

definition PreChargeScript ::
  "'r redis \<Rightarrow> 'r \<Rightarrow> string \<Rightarrow> string \<Rightarrow> string \<Rightarrow> int \<Rightarrow> int \<Rightarrow> 'r \<times> (go_error + int)" where
  "PreChargeScript R s k1 k2 k3 arg ttl =
     (let bal = lua_get R s k1; amount = lua_num R arg in
      if bal < amount then (s, Inr (- 1))
      else case r_incrby R s k1 (- amount) of
             None \<Rightarrow> (s, Inl ErrScript)
           | Some s1 \<Rightarrow>
               (case r_incrby R s1 k2 amount of
                  None \<Rightarrow> (s1, Inl ErrScript)
                | Some s2 \<Rightarrow> (r_setex R s2 k3 arg ttl, Inr 1)))"

definition SettleScript ::
  "'r redis \<Rightarrow> 'r \<Rightarrow> string \<Rightarrow> string \<Rightarrow> string \<Rightarrow> int \<Rightarrow> 'r \<times> (go_error + int)" where
  "SettleScript R s k1 k2 k3 arg =
     (let pre = lua_get R s k3 in
      if pre \<le> 0 then (s, Inr 0)
      else
        let charged = lua_num R arg;
            refund = lua_num R (pre - charged);
            s1 = (if refund < 0 then r_incrby R s k1 (- (- refund))
                  else if refund > 0 then r_incrby R s k1 refund
                  else Some s);
            reply = (if refund < 0 then 0 else refund)
        in case s1 of
             None \<Rightarrow> (s, Inl ErrScript)
           | Some s1 \<Rightarrow>
               (case r_incrby R s1 k2 (- pre) of
                  None \<Rightarrow> (s1, Inl ErrScript)
                | Some s2 \<Rightarrow> (r_del R s2 k3, Inr reply)))"

section \<open>The Precharger\<close>

definition PreCharge ::
  "'r redis \<Rightarrow> fault \<Rightarrow> 'r \<Rightarrow> string \<Rightarrow> string \<Rightarrow> int \<Rightarrow> 'r \<times> (go_error + unit)" where
  "PreCharge R f s userID requestID amountMicros =
     (if amountMicros \<le> 0 then (s, Inr ())
      else case call_service f s
                  (PreChargeScript R s (balKey userID) (frozenKey userID) (preKey requestID)
                     amountMicros prechargeTTL) of
             (s', Inl e) \<Rightarrow> (s', Inl e)
           | (s', Inr res) \<Rightarrow>
               if res < 0 then (s', Inl ErrInsufficientBalance) else (s', Inr ()))"

definition Settle ::
  "'r redis \<Rightarrow> fault \<Rightarrow> 'r \<Rightarrow> string \<Rightarrow> string \<Rightarrow> int \<Rightarrow> 'r \<times> (go_error + unit)" where
  "Settle R f s userID requestID chargedMicros =
     (let charged = (if chargedMicros < 0 then 0 else chargedMicros) in
      case call_service f s
             (SettleScript R s (balKey userID) (frozenKey userID) (preKey requestID) charged) of
        (s', Inl e) \<Rightarrow> (s', Inl e)
      | (s', Inr _) \<Rightarrow> (s', Inr ()))"

definition Balance :: "'r redis \<Rightarrow> fault \<Rightarrow> 'r \<Rightarrow> string \<Rightarrow> go_error + int" where
  "Balance R f s userID =
     snd (call_service f s (s, case r_get R s (balKey userID) of
                                 None \<Rightarrow> Inl ErrRedisNil
                               | Some v \<Rightarrow> Inr v))"

definition TopUp :: "'r redis \<Rightarrow> fault \<Rightarrow> 'r \<Rightarrow> string \<Rightarrow> int \<Rightarrow> 'r \<times> (go_error + unit)" where
  "TopUp R f s userID amountMicros =
     (if amountMicros \<le> 0 then (s, Inr ())
      else call_service f s
             (case r_incrby R s (balKey userID) amountMicros of
                None \<Rightarrow> (s, Inl ErrScript)
              | Some s' \<Rightarrow> (s', Inr ())))"

record SettleReq =
  sr_UserID :: string
  sr_RequestID :: string
  sr_ChargedMicros :: int

text \<open>The pipeline sends one script per request and ignores every reply.\<close>

fun BatchSettle :: "'r redis \<Rightarrow> sched \<Rightarrow> 'r \<Rightarrow> SettleReq list \<Rightarrow> 'r \<times> sched" where
  "BatchSettle R fs s [] = (s, fs)"
| "BatchSettle R fs s (x # xs) =
     (let (f, fs') = pop_fault fs;
          charged = (if sr_ChargedMicros x < 0 then 0 else sr_ChargedMicros x);
          (s', _) = call_service f s
             (SettleScript R s (balKey (sr_UserID x)) (frozenKey (sr_UserID x))
                (preKey (sr_RequestID x)) charged)
      in BatchSettle R fs' s' xs)"

fun FrozenBalance_loop :: "'r redis \<Rightarrow> sched \<Rightarrow> 'r \<Rightarrow> int \<Rightarrow> string list \<Rightarrow> (go_error + int) \<times> sched" where
  "FrozenBalance_loop R fs s tot [] = (Inr tot, fs)"
| "FrozenBalance_loop R fs s tot (k # ks) =
     (let (f, fs') = pop_fault fs in
      case snd (call_service f s (s, case r_get R s k of None \<Rightarrow> Inl ErrRedisNil | Some v \<Rightarrow> Inr v)) of
        Inr v \<Rightarrow> FrozenBalance_loop R fs' s (add64 tot v) ks
      | Inl e \<Rightarrow> if e = ErrRedisNil then FrozenBalance_loop R fs' s tot ks else (Inl e, fs'))"

definition FrozenBalance :: "'r redis \<Rightarrow> sched \<Rightarrow> 'r \<Rightarrow> (go_error + int) \<times> sched" where
  "FrozenBalance R fs s =
     (let (f, fs') = pop_fault fs in
      case f of
        NoFault \<Rightarrow> FrozenBalance_loop R fs' s 0 (r_scan R s ''frozen:'')
      | _ \<Rightarrow> (Inl ErrService, fs'))"

lemma Settle_unknown:
  "r_get R s (preKey r) = None \<Longrightarrow> Settle R NoFault s u r c = (s, Inr ())"
  by (simp add: Settle_def SettleScript_def lua_get_def)

section \<open>The wallet the scripts implement\<close>

text \<open>
  The abstract contract: a balance and a frozen amount per user, and the live pre-charge
  markers per request, over unbounded integers.
\<close>

record wallet =
  w_bal :: "string \<Rightarrow> int"
  w_frozen :: "string \<Rightarrow> int"
  w_marker :: "string \<rightharpoonup> int"

definition wallet_of :: "'r redis \<Rightarrow> 'r \<Rightarrow> wallet" where
  "wallet_of R s =
     \<lparr>w_bal = (\<lambda>u. get0 R s (balKey u)),
      w_frozen = (\<lambda>u. get0 R s (frozenKey u)),
      w_marker = (\<lambda>r. r_get R s (preKey r))\<rparr>"

definition spec_PreCharge :: "wallet \<Rightarrow> string \<Rightarrow> string \<Rightarrow> int \<Rightarrow> wallet" where
  "spec_PreCharge w u r a =
     (if a \<le> 0 \<or> w_bal w u < a then w
      else w\<lparr>w_bal := (w_bal w)(u := w_bal w u - a),
             w_frozen := (w_frozen w)(u := w_frozen w u + a),
             w_marker := (w_marker w)(r \<mapsto> a)\<rparr>)"

definition spec_Settle :: "wallet \<Rightarrow> string \<Rightarrow> string \<Rightarrow> int \<Rightarrow> wallet" where
  "spec_Settle w u r c =
     (case w_marker w r of
        None \<Rightarrow> w
      | Some p \<Rightarrow>
          if p \<le> 0 then w
          else w\<lparr>w_bal := (w_bal w)(u := w_bal w u + p - max c 0),
                 w_frozen := (w_frozen w)(u := w_frozen w u - p),
                 w_marker := (w_marker w)(r := None)\<rparr>)"

definition spec_TopUp :: "wallet \<Rightarrow> string \<Rightarrow> int \<Rightarrow> wallet" where
  "spec_TopUp w u a = (if a \<le> 0 then w else w\<lparr>w_bal := (w_bal w)(u := w_bal w u + a)\<rparr>)"

lemma wallet_sel [simp]:
  "w_bal (wallet_of R s) u = get0 R s (balKey u)"
  "w_frozen (wallet_of R s) u = get0 R s (frozenKey u)"
  "w_marker (wallet_of R s) r = r_get R s (preKey r)"
  by (simp_all add: wallet_of_def)

lemma wallet_eqI:
  "(\<And>u. w_bal w u = w_bal w' u) \<Longrightarrow> (\<And>u. w_frozen w u = w_frozen w' u) \<Longrightarrow>
   (\<And>r. w_marker w r = w_marker w' r) \<Longrightarrow> w = (w' :: wallet)"
  by (cases w; cases w') (auto simp: fun_eq_iff)

text \<open>The values a call touches are in the range doubles hold exactly.\<close>

definition touch_small :: "wallet \<Rightarrow> string \<Rightarrow> string \<Rightarrow> int \<Rightarrow> bool" where
  "touch_small w u r a \<longleftrightarrow>
     small (w_bal w u) \<and> small (w_frozen w u) \<and> small a \<and>
     (case w_marker w r of None \<Rightarrow> True | Some p \<Rightarrow> small p)"

section \<open>The scripts refine the wallet\<close>

context redis_kv
begin

lemma lua_get_small: "small (get0 R s k) \<Longrightarrow> lua_get R s k = get0 R s k"
  using lua_exact by (auto simp: lua_get_def get0_def split: option.splits)

lemma PreChargeScript_reject:
  assumes "small (get0 R s k1)" "small a" "get0 R s k1 < a"
  shows "PreChargeScript R s k1 k2 k3 a ttl = (s, Inr (- 1))"
  using assms by (simp add: PreChargeScript_def lua_get_small lua_exact)

lemma PreChargeScript_accept:
  assumes "small (get0 R s k1)" "small (get0 R s k2)" "small a" "\<not> get0 R s k1 < a"
    and "k1 \<noteq> k2" "0 < ttl"
  shows "\<exists>s'. PreChargeScript R s k1 k2 k3 a ttl = (s', Inr 1) \<and>
     r_get R s' = (r_get R s)(k1 \<mapsto> get0 R s k1 - a, k2 \<mapsto> get0 R s k2 + a, k3 \<mapsto> a)"
proof -
  obtain s1 where s1: "r_incrby R s k1 (- a) = Some s1"
    "r_get R s1 = (r_get R s)(k1 \<mapsto> get0 R s k1 + - a)"
    using incrbyE [of s k1 "- a"] small_in64(2) [OF assms(1,3)] by auto
  then have g: "get0 R s1 k2 = get0 R s k2"
    using assms(5) by (simp add: get0_def)
  obtain s2 where s2: "r_incrby R s1 k2 a = Some s2"
    "r_get R s2 = (r_get R s1)(k2 \<mapsto> get0 R s k2 + a)"
    using incrbyE [of s1 k2 a] small_in64(1) [OF assms(2,3)] by (auto simp: g)
  have "PreChargeScript R s k1 k2 k3 a ttl = (r_setex R s2 k3 a ttl, Inr 1)"
    using assms s1(1) s2(1) by (simp add: PreChargeScript_def lua_get_small lua_exact)
  with s1(2) s2(2) assms(6) show ?thesis by (simp add: setex)
qed

lemma SettleScript_none:
  assumes "get0 R s k3 \<le> 0" "small (get0 R s k3)"
  shows "SettleScript R s k1 k2 k3 c = (s, Inr 0)"
  using assms by (simp add: SettleScript_def lua_get_small)

text \<open>Refund and claw-back leave the same balance: the reservation minus the charge.\<close>

lemma SettleScript_settle:
  assumes sm: "small (get0 R s k1)" "small (get0 R s k2)" "small (get0 R s k3)" "small c"
    and pos: "0 < get0 R s k3" "0 \<le> c" and ks: "k1 \<noteq> k2" "k1 \<noteq> k3" "k2 \<noteq> k3"
  defines "p \<equiv> get0 R s k3"
  shows "\<exists>s'. SettleScript R s k1 k2 k3 c = (s', Inr (max (p - c) 0)) \<and>
     r_get R s' k3 = None \<and> get0 R s' k1 = get0 R s k1 + p - c \<and> get0 R s' k2 = get0 R s k2 - p \<and>
     (\<forall>k. k \<noteq> k1 \<longrightarrow> k \<noteq> k2 \<longrightarrow> k \<noteq> k3 \<longrightarrow> r_get R s' k = r_get R s k)"
proof -
  have d: "small (p - c)" using sm pos by (simp add: small_diff p_def)
  have in1: "in64 (get0 R s k1 + (p - c))" by (rule small_in64(1) [OF sm(1) d])
  obtain t where t: "r_incrby R s k1 (p - c) = Some t"
    "r_get R t = (r_get R s)(k1 \<mapsto> get0 R s k1 + (p - c))"
    by (rule incrbyE [OF in1])
  define s1 where "s1 = (if p - c = 0 then s else t)"
  have s1: "(if p - c < 0 then r_incrby R s k1 (- (- (p - c)))
       else if p - c > 0 then r_incrby R s k1 (p - c) else Some s) = Some s1"
    and g1: "get0 R s1 k1 = get0 R s k1 + (p - c)"
    and f1: "\<And>k. k \<noteq> k1 \<Longrightarrow> r_get R s1 k = r_get R s k"
    using t by (auto simp: s1_def get0_def)
  have g2: "get0 R s1 k2 = get0 R s k2" using f1 ks by (simp add: get0_def)
  obtain s2 where s2: "r_incrby R s1 k2 (- p) = Some s2"
    "r_get R s2 = (r_get R s1)(k2 \<mapsto> get0 R s k2 + - p)"
    using incrbyE [of s1 k2 "- p"] small_in64(2) [OF sm(2) sm(3)] by (auto simp: g2 p_def)
  have "SettleScript R s k1 k2 k3 c = (r_del R s2 k3, Inr (max (p - c) 0))"
    using sm pos d s1 s2(1)
    by (auto simp: SettleScript_def lua_get_small lua_exact Let_def p_def max_def)
  with s2(2) g1 f1 ks show ?thesis by (auto simp: del get0_def)
qed

end

text \<open>The client's view of one successful network call, over the wallet.\<close>

context redis_kv
begin

lemma PreCharge_refines:
  assumes "touch_small (wallet_of R s) u r a"
  shows "wallet_of R (fst (PreCharge R NoFault s u r a)) = spec_PreCharge (wallet_of R s) u r a"
    and "snd (PreCharge R NoFault s u r a) =
           (if 0 < a \<and> w_bal (wallet_of R s) u < a then Inl ErrInsufficientBalance else Inr ())"
proof -
  consider (free) "a \<le> 0" | (poor) "0 < a" "get0 R s (balKey u) < a"
    | (ok) "0 < a" "\<not> get0 R s (balKey u) < a" by linarith
  then have "wallet_of R (fst (PreCharge R NoFault s u r a)) = spec_PreCharge (wallet_of R s) u r a \<and>
    snd (PreCharge R NoFault s u r a) =
      (if 0 < a \<and> w_bal (wallet_of R s) u < a then Inl ErrInsufficientBalance else Inr ())"
  proof cases
    case free
    then show ?thesis by (simp add: PreCharge_def spec_PreCharge_def)
  next
    case poor
    with assms show ?thesis
      by (simp add: PreCharge_def spec_PreCharge_def PreChargeScript_reject touch_small_def)
  next
    case ok
    with assms obtain s' where
      "PreChargeScript R s (balKey u) (frozenKey u) (preKey r) a prechargeTTL = (s', Inr 1)"
      "r_get R s' = (r_get R s)(balKey u \<mapsto> get0 R s (balKey u) - a,
         frozenKey u \<mapsto> get0 R s (frozenKey u) + a, preKey r \<mapsto> a)"
      using PreChargeScript_accept [of s "balKey u" "frozenKey u" a prechargeTTL "preKey r"]
      by (auto simp: touch_small_def prechargeTTL_def)
    with ok show ?thesis
      by (auto simp: PreCharge_def spec_PreCharge_def get0_def intro!: wallet_eqI)
  qed
  then show "wallet_of R (fst (PreCharge R NoFault s u r a)) = spec_PreCharge (wallet_of R s) u r a"
    and "snd (PreCharge R NoFault s u r a) =
           (if 0 < a \<and> w_bal (wallet_of R s) u < a then Inl ErrInsufficientBalance else Inr ())"
    by auto
qed

lemma SettleScript_refines:
  assumes "touch_small (wallet_of R s) u r c" "0 \<le> c"
  shows "wallet_of R (fst (SettleScript R s (balKey u) (frozenKey u) (preKey r) c)) =
           spec_Settle (wallet_of R s) u r c"
    and "\<exists>n. snd (SettleScript R s (balKey u) (frozenKey u) (preKey r) c) = Inr n"
proof -
  have sp: "small (get0 R s (preKey r))"
    using assms(1) by (auto simp: touch_small_def get0_def small_def split: option.splits)
  have "wallet_of R (fst (SettleScript R s (balKey u) (frozenKey u) (preKey r) c)) =
      spec_Settle (wallet_of R s) u r c \<and>
    (\<exists>n. snd (SettleScript R s (balKey u) (frozenKey u) (preKey r) c) = Inr n)"
  proof (cases "get0 R s (preKey r) \<le> 0")
    case True
    with sp show ?thesis
      by (auto simp: SettleScript_none spec_Settle_def get0_def split: option.splits)
  next
    case False
    then have m: "r_get R s (preKey r) = Some (get0 R s (preKey r))"
      by (auto simp: get0_def split: option.splits)
    obtain s' n where s': "SettleScript R s (balKey u) (frozenKey u) (preKey r) c = (s', Inr n)"
      "r_get R s' (preKey r) = None"
      "get0 R s' (balKey u) = get0 R s (balKey u) + get0 R s (preKey r) - c"
      "get0 R s' (frozenKey u) = get0 R s (frozenKey u) - get0 R s (preKey r)"
      "\<And>k. k \<noteq> balKey u \<Longrightarrow> k \<noteq> frozenKey u \<Longrightarrow> k \<noteq> preKey r \<Longrightarrow> r_get R s' k = r_get R s k"
      using SettleScript_settle [of s "balKey u" "frozenKey u" "preKey r" c] assms sp False
      by (auto simp: touch_small_def)
    then have g: "\<And>k. k \<noteq> balKey u \<Longrightarrow> k \<noteq> frozenKey u \<Longrightarrow> k \<noteq> preKey r \<Longrightarrow> get0 R s' k = get0 R s k"
      by (simp add: get0_def)
    have "wallet_of R s' = spec_Settle (wallet_of R s) u r c"
      using False s' g m assms(2) by (intro wallet_eqI) (auto simp: spec_Settle_def)
    with s'(1) show ?thesis by simp
  qed
  then show "wallet_of R (fst (SettleScript R s (balKey u) (frozenKey u) (preKey r) c)) =
      spec_Settle (wallet_of R s) u r c"
    and "\<exists>n. snd (SettleScript R s (balKey u) (frozenKey u) (preKey r) c) = Inr n" by auto
qed

lemma touch_small_max: "touch_small w u r c \<Longrightarrow> touch_small w u r (max c 0)"
  by (auto simp: touch_small_def small_def)

lemma spec_Settle_max [simp]: "spec_Settle w u r (max c 0) = spec_Settle w u r c"
  by (cases "w_marker w r") (simp_all add: spec_Settle_def)

lemma clamp_max: "(if c < 0 then 0 else c) = max c (0 :: int)"
  by auto

lemma Settle_refines:
  assumes "touch_small (wallet_of R s) u r c"
  shows "wallet_of R (fst (Settle R NoFault s u r c)) = spec_Settle (wallet_of R s) u r c"
    and "snd (Settle R NoFault s u r c) = Inr ()"
  using SettleScript_refines [OF touch_small_max [OF assms]]
  by (auto simp: Settle_def Let_def clamp_max split: prod.splits sum.splits)

lemma TopUp_refines:
  assumes "small (get0 R s (balKey u))" "small a"
  shows "wallet_of R (fst (TopUp R NoFault s u a)) = spec_TopUp (wallet_of R s) u a"
    and "snd (TopUp R NoFault s u a) = Inr ()"
proof -
  obtain s' where "r_incrby R s (balKey u) a = Some s'"
    "r_get R s' = (r_get R s)(balKey u \<mapsto> get0 R s (balKey u) + a)"
    using incrbyE [OF small_in64(1) [OF assms]] by blast
  then show "wallet_of R (fst (TopUp R NoFault s u a)) = spec_TopUp (wallet_of R s) u a"
    and "snd (TopUp R NoFault s u a) = Inr ()"
    by (auto simp: TopUp_def spec_TopUp_def get0_def intro!: wallet_eqI)
qed

end

section \<open>Runs of wallet operations\<close>

datatype wallet_op =
    OpPreCharge string string int
  | OpSettle string string int
  | OpTopUp string int

fun spec_op :: "wallet \<Rightarrow> wallet_op \<Rightarrow> wallet" where
  "spec_op w (OpPreCharge u r a) = spec_PreCharge w u r a"
| "spec_op w (OpSettle u r c) = spec_Settle w u r c"
| "spec_op w (OpTopUp u a) = spec_TopUp w u a"

fun exec_op :: "'r redis \<Rightarrow> 'r \<Rightarrow> wallet_op \<Rightarrow> 'r" where
  "exec_op R s (OpPreCharge u r a) = fst (PreCharge R NoFault s u r a)"
| "exec_op R s (OpSettle u r c) = fst (Settle R NoFault s u r c)"
| "exec_op R s (OpTopUp u a) = fst (TopUp R NoFault s u a)"

abbreviation spec_run :: "wallet \<Rightarrow> wallet_op list \<Rightarrow> wallet" where
  "spec_run \<equiv> foldl spec_op"

abbreviation exec_run :: "'r redis \<Rightarrow> 'r \<Rightarrow> wallet_op list \<Rightarrow> 'r" where
  "exec_run R \<equiv> foldl (exec_op R)"

fun op_small :: "wallet \<Rightarrow> wallet_op \<Rightarrow> bool" where
  "op_small w (OpPreCharge u r a) = touch_small w u r a"
| "op_small w (OpSettle u r c) = touch_small w u r c"
| "op_small w (OpTopUp u a) = (small (w_bal w u) \<and> small a)"

text \<open>A property of every operation in the state it runs in.\<close>

fun along :: "(wallet \<Rightarrow> wallet_op \<Rightarrow> bool) \<Rightarrow> wallet \<Rightarrow> wallet_op list \<Rightarrow> bool" where
  "along P w [] = True"
| "along P w (x # xs) = (P w x \<and> along P (spec_op w x) xs)"

lemma along_invariant:
  assumes "I w" "along P w xs" "\<And>w x. I w \<Longrightarrow> P w x \<Longrightarrow> I (spec_op w x)"
  shows "I (spec_run w xs)"
  using assms(1,2) by (induction xs arbitrary: w) (auto intro: assms(3))

context redis_kv
begin

lemma exec_op_refines:
  "op_small (wallet_of R s) x \<Longrightarrow> wallet_of R (exec_op R s x) = spec_op (wallet_of R s) x"
  by (cases x) (simp_all add: PreCharge_refines Settle_refines TopUp_refines)

lemma exec_run_refines:
  "along op_small (wallet_of R s) xs \<Longrightarrow> wallet_of R (exec_run R s xs) = spec_run (wallet_of R s) xs"
  by (induction xs arbitrary: s) (simp_all add: exec_op_refines)

end

text \<open>What a run takes from and adds to a user's money.\<close>

fun consumed_by :: "wallet \<Rightarrow> string \<Rightarrow> wallet_op \<Rightarrow> int" where
  "consumed_by w u (OpSettle v r c) =
     (case w_marker w r of Some p \<Rightarrow> if u = v \<and> 0 < p then max c 0 else 0 | None \<Rightarrow> 0)"
| "consumed_by w u _ = 0"

fun credited_by :: "string \<Rightarrow> wallet_op \<Rightarrow> int" where
  "credited_by u (OpTopUp v a) = (if u = v \<and> 0 < a then a else 0)"
| "credited_by u _ = 0"

fun consumed :: "wallet \<Rightarrow> string \<Rightarrow> wallet_op list \<Rightarrow> int" where
  "consumed w u [] = 0"
| "consumed w u (x # xs) = consumed_by w u x + consumed (spec_op w x) u xs"

definition credited :: "string \<Rightarrow> wallet_op list \<Rightarrow> int" where
  "credited u xs = sum_list (map (credited_by u) xs)"

lemma spec_op_conserves:
  "w_bal (spec_op w x) u + w_frozen (spec_op w x) u + consumed_by w u x =
   w_bal w u + w_frozen w u + credited_by u x"
  by (cases x)
    (auto simp: spec_PreCharge_def spec_Settle_def spec_TopUp_def split: option.splits)

lemma spec_run_conserves:
  "w_bal (spec_run w xs) u + w_frozen (spec_run w xs) u + consumed w u xs =
   w_bal w u + w_frozen w u + credited u xs"
proof (induction xs arbitrary: w)
  case (Cons x xs)
  from Cons [of "spec_op w x"] spec_op_conserves [of w x u] show ?case
    by (simp add: credited_def)
qed (simp add: credited_def)

text \<open>No charge exceeds the reservation it settles.\<close>

fun within_reservation :: "wallet \<Rightarrow> wallet_op \<Rightarrow> bool" where
  "within_reservation w (OpSettle u r c) =
     (case w_marker w r of Some p \<Rightarrow> c \<le> p | None \<Rightarrow> True)"
| "within_reservation w _ = True"

lemma spec_op_nonneg:
  "(\<forall>u. 0 \<le> w_bal w u) \<Longrightarrow> within_reservation w x \<Longrightarrow> (\<forall>u. 0 \<le> w_bal (spec_op w x) u)"
  by (cases x)
    (auto simp: spec_PreCharge_def spec_Settle_def spec_TopUp_def add_increasing
      split: option.splits)

text \<open>
  The frozen amount of a user is the sum of the user's live reservations, as long as a
  request id is reserved at most once at a time and settled for the user it was reserved for.
\<close>

definition live :: "(string \<Rightarrow> string) \<Rightarrow> wallet \<Rightarrow> string \<Rightarrow> string set" where
  "live owner w u = {r \<in> dom (w_marker w). owner r = u}"

definition frozen_inv :: "(string \<Rightarrow> string) \<Rightarrow> wallet \<Rightarrow> bool" where
  "frozen_inv owner w \<longleftrightarrow> finite (dom (w_marker w)) \<and>
     (\<forall>r p. w_marker w r = Some p \<longrightarrow> 0 < p) \<and>
     (\<forall>u. w_frozen w u = (\<Sum>r\<in>live owner w u. the (w_marker w r)))"

fun owned :: "(string \<Rightarrow> string) \<Rightarrow> wallet \<Rightarrow> wallet_op \<Rightarrow> bool" where
  "owned owner w (OpPreCharge u r a) = (owner r = u \<and> w_marker w r = None)"
| "owned owner w (OpSettle u r c) = (owner r = u)"
| "owned owner w (OpTopUp u a) = True"

lemma live_insert:
  "w_marker w r = None \<Longrightarrow>
   live owner (w\<lparr>w_bal := b, w_frozen := f, w_marker := (w_marker w)(r \<mapsto> a)\<rparr>) u =
     (if owner r = u then insert r (live owner w u) else live owner w u)"
  by (auto simp: live_def)

lemma live_remove:
  "live owner (w\<lparr>w_bal := b, w_frozen := f, w_marker := (w_marker w)(r := None)\<rparr>) u =
     live owner w u - {r}"
  by (auto simp: live_def split: if_splits)

lemma finite_live: "finite (dom (w_marker w)) \<Longrightarrow> finite (live owner w u)"
  by (simp add: live_def)

lemma frozen_inv_PreCharge:
  assumes "frozen_inv owner w" "w_marker w r = None" "owner r = u"
  shows "frozen_inv owner (spec_PreCharge w u r a)"
proof (cases "a \<le> 0 \<or> w_bal w u < a")
  case False
  have nin: "\<And>v. r \<notin> live owner w v" using assms(2) by (auto simp: live_def)
  have sum: "(\<Sum>q\<in>live owner w v. the (((w_marker w)(r \<mapsto> a)) q)) =
      (\<Sum>q\<in>live owner w v. the (w_marker w q))" for v
    using nin by (intro sum.cong) auto
  have "frozen_inv owner (w\<lparr>w_bal := (w_bal w)(u := w_bal w u - a),
      w_frozen := (w_frozen w)(u := w_frozen w u + a), w_marker := (w_marker w)(r \<mapsto> a)\<rparr>)"
    using assms False nin sum
    by (auto simp: frozen_inv_def live_insert finite_live split: if_splits)
  with False show ?thesis by (simp add: spec_PreCharge_def)
qed (use assms in \<open>simp add: spec_PreCharge_def\<close>)

lemma frozen_inv_Settle:
  assumes "frozen_inv owner w" "owner r = u"
  shows "frozen_inv owner (spec_Settle w u r c)"
proof (cases "w_marker w r")
  case (Some p)
  have p: "0 < p" using assms(1) Some by (auto simp: frozen_inv_def)
  have r: "r \<in> live owner w u" using Some assms(2) by (auto simp: live_def)
  have sum: "(\<Sum>q\<in>live owner w v - {r}. the (((w_marker w)(r := None)) q)) =
      (\<Sum>q\<in>live owner w v - {r}. the (w_marker w q))" for v
    by (intro sum.cong) auto
  have other: "v \<noteq> u \<Longrightarrow> live owner w v - {r} = live owner w v" for v
    using assms(2) by (auto simp: live_def)
  have fin: "finite (live owner w u)"
    using assms(1) by (simp add: frozen_inv_def finite_live)
  have "(\<Sum>q\<in>live owner w u - {r}. the (w_marker w q)) = w_frozen w u - p"
    using assms(1) Some r fin by (simp add: frozen_inv_def sum_diff1)
  then have "frozen_inv owner (w\<lparr>w_bal := (w_bal w)(u := w_bal w u + p - max c 0),
      w_frozen := (w_frozen w)(u := w_frozen w u - p), w_marker := (w_marker w)(r := None)\<rparr>)"
    using assms(1) sum other by (auto simp: frozen_inv_def live_remove split: if_splits)
  with Some p show ?thesis by (simp add: spec_Settle_def)
qed (use assms in \<open>simp add: spec_Settle_def\<close>)

lemma frozen_inv_op: "frozen_inv owner w \<Longrightarrow> owned owner w x \<Longrightarrow> frozen_inv owner (spec_op w x)"
proof (cases x)
  case (OpTopUp u a)
  assume "frozen_inv owner w"
  with OpTopUp show ?thesis by (simp add: spec_TopUp_def frozen_inv_def live_def)
qed (simp_all add: frozen_inv_PreCharge frozen_inv_Settle)

section \<open>Properties\<close>

text \<open>C2: The Lua scripts implement the wallet. On any Redis with the documented command
  behaviour, a run of pre-charges, settlements and top-ups whose values stay within the
  integers a double holds exactly leaves the balances, frozen amounts and markers the
  abstract wallet computes.\<close>

theorem scripts_refine_wallet:
  assumes "redis_kv R" "along op_small (wallet_of R s) ops"
  shows "wallet_of R (exec_run R s ops) = spec_run (wallet_of R s) ops"
  by (rule redis_kv.exec_run_refines [OF assms])

definition demo_ops :: "wallet_op list" where
  "demo_ops = [OpTopUp ''u'' 1000, OpPreCharge ''u'' ''r1'' 400, OpPreCharge ''u'' ''r2'' 700,
     OpSettle ''u'' ''r1'' 250, OpPreCharge ''u'' ''r3'' 100, OpSettle ''u'' ''r3'' 130]"

lemma demo_small: "along op_small (wallet_of mem_redis []) demo_ops"
  by (simp add: demo_ops_def touch_small_def small_def spec_PreCharge_def spec_Settle_def
      spec_TopUp_def)

lemma demo_markers: "w_marker (spec_run (wallet_of mem_redis []) demo_ops) r = None"
  by (simp add: demo_ops_def spec_PreCharge_def spec_Settle_def spec_TopUp_def)

theorem scripts_refine_wallet_witness:
  "w_bal (wallet_of mem_redis (exec_run mem_redis [] demo_ops)) ''u'' =
   w_bal (spec_run (wallet_of mem_redis []) demo_ops) ''u''"
  using scripts_refine_wallet [OF mem.redis_kv_axioms demo_small] by simp

text \<open>C9: Money is conserved on the fast path. For every user, balance plus frozen amount
  after a run, plus what settlements consumed, equals balance plus frozen amount before it,
  plus what top-ups credited: a rejected pre-charge, a replayed settlement, a refund and a
  claw-back neither create nor destroy money.\<close>

theorem fast_path_conserves_money:
  assumes "redis_kv R" "along op_small (wallet_of R s) ops"
  shows "get0 R (exec_run R s ops) (balKey u) + get0 R (exec_run R s ops) (frozenKey u)
           + consumed (wallet_of R s) u ops =
         get0 R s (balKey u) + get0 R s (frozenKey u) + credited u ops"
  using redis_kv.exec_run_refines [OF assms] spec_run_conserves [of "wallet_of R s" ops u]
  by (metis wallet_sel(1,2))

theorem fast_path_conserves_money_witness:
  "get0 mem_redis (exec_run mem_redis [] demo_ops) (balKey ''u'') +
   get0 mem_redis (exec_run mem_redis [] demo_ops) (frozenKey ''u'') +
   consumed (wallet_of mem_redis []) ''u'' demo_ops =
   get0 mem_redis [] (balKey ''u'') + get0 mem_redis [] (frozenKey ''u'') + credited ''u'' demo_ops"
  by (rule fast_path_conserves_money [OF mem.redis_kv_axioms demo_small])

text \<open>Theorem: No overselling. If all balances start non-negative and no settlement charges more
  than its reservation, every balance stays non-negative through the whole run.\<close>

theorem balances_stay_nonnegative:
  assumes "redis_kv R" "along op_small (wallet_of R s) ops"
    and "along within_reservation (wallet_of R s) ops" "\<forall>u. 0 \<le> get0 R s (balKey u)"
  shows "0 \<le> get0 R (exec_run R s ops) (balKey u)"
proof -
  have "\<forall>u. 0 \<le> w_bal (spec_run (wallet_of R s) ops) u"
    by (rule along_invariant [where P = within_reservation])
      (use assms(3,4) spec_op_nonneg in simp_all)
  then show ?thesis
    using redis_kv.exec_run_refines [OF assms(1,2)] by (metis wallet_sel(1))
qed

theorem balances_stay_nonnegative_witness:
  "0 \<le> get0 mem_redis (exec_run mem_redis [] (take 4 demo_ops)) (balKey ''u'')"
proof (rule balances_stay_nonnegative [OF mem.redis_kv_axioms])
  show "along op_small (wallet_of mem_redis []) (take 4 demo_ops)"
    using demo_small by (simp add: demo_ops_def)
  show "along within_reservation (wallet_of mem_redis []) (take 4 demo_ops)"
    by (simp add: demo_ops_def spec_PreCharge_def spec_TopUp_def)
  show "\<forall>u. 0 \<le> get0 mem_redis [] (balKey u)"
    by simp
qed



text \<open>Theorem: Reserve then settle. A covered pre-charge followed by the settlement of any
  non-negative charge lowers the balance by exactly the charge (refunding the rest of the
  reservation or clawing back the excess), restores the frozen amount, clears the marker,
  and makes every later settlement of the same request a no-op.\<close>

theorem reserve_then_settle:
  assumes "redis_kv R" "touch_small (wallet_of R s) u r a" "0 < a"
    and "a \<le> get0 R s (balKey u)" "0 \<le> get0 R s (frozenKey u)" "small (get0 R s (frozenKey u) + a)"
    and "0 \<le> c" "small c"
  defines "s1 \<equiv> fst (PreCharge R NoFault s u r a)"
  defines "s2 \<equiv> fst (Settle R NoFault s1 u r c)"
  shows "snd (PreCharge R NoFault s u r a) = Inr () \<and>
         get0 R s2 (balKey u) = get0 R s (balKey u) - c \<and>
         get0 R s2 (frozenKey u) = get0 R s (frozenKey u) \<and>
         r_get R s2 (preKey r) = None \<and>
         (\<forall>c'. Settle R NoFault s2 u r c' = (s2, Inr ()))"
proof -
  let ?w = "wallet_of R s"
  have w1: "wallet_of R s1 = spec_PreCharge ?w u r a"
    and ok: "snd (PreCharge R NoFault s u r a) = Inr ()"
    unfolding s1_def using redis_kv.PreCharge_refines [OF assms(1,2)] assms(3,4) by auto
  have "touch_small (wallet_of R s1) u r c"
    using assms(2-8) by (auto simp: w1 spec_PreCharge_def touch_small_def small_def)
  then have w2: "wallet_of R s2 = spec_Settle (spec_PreCharge ?w u r a) u r c"
    unfolding s2_def using redis_kv.Settle_refines(1) [OF assms(1)] by (simp add: w1)
  then have sel: "w_bal (wallet_of R s2) u = get0 R s (balKey u) - c"
    "w_frozen (wallet_of R s2) u = get0 R s (frozenKey u)" "w_marker (wallet_of R s2) r = None"
    using assms(3,4,7) by (auto simp: spec_PreCharge_def spec_Settle_def)
  then show ?thesis using ok by (simp add: Settle_unknown)
qed

theorem reserve_then_settle_witness:
  "get0 mem_redis (fst (Settle mem_redis NoFault (fst (PreCharge mem_redis NoFault
      [(''balance:u'', 500)] ''u'' ''r'' 200)) ''u'' ''r'' 5000)) (balKey ''u'') = - 4500"
  using reserve_then_settle [OF mem.redis_kv_axioms,
      of "[(''balance:u'', 500)]" "''u''" "''r''" 200 5000]
  by (simp add: touch_small_def small_def balKey_def frozenKey_def preKey_def)

text \<open>Theorem: A request whose estimate is not positive is served without a reservation and never
  charged to the balance. With \<open>max_tokens = -1000\<close> (which the gateway passes through) the
  pre-charge accepts any user, even at zero balance, without touching Redis, and since no
  marker exists every later settlement leaves Redis unchanged whatever the charge.\<close>

theorem negative_max_tokens_free:
  assumes "r_get R s (preKey r) = None"
  shows "PreCharge R f s u r
           (EstimatePreCharge 100 (Some (- 1000)) (price_of init_prices ''gpt-4o'')) = (s, Inr ()) \<and>
         Settle R NoFault s u r c = (s, Inr ())"
  using assms negative_max_tokens_estimate by (simp add: PreCharge_def Settle_unknown)

theorem negative_max_tokens_free_witness:
  "PreCharge mem_redis NoFault [] ''u'' ''r''
     (EstimatePreCharge 100 (Some (- 1000)) (price_of init_prices ''gpt-4o'')) = ([], Inr ()) \<and>
   Settle mem_redis NoFault [] ''u'' ''r'' 123456 = ([], Inr ())"
  by (rule negative_max_tokens_free) simp

text \<open>Theorem: A marker that expires leaks its reservation. When the 48-hour marker of an unsettled
  pre-charge is gone, no settlement of the request changes anything: the amount stays out
  of the balance and in the frozen counter.\<close>

theorem expired_marker_leaks:
  assumes "redis_kv R" "touch_small (wallet_of R s) u r a" "0 < a" "a \<le> get0 R s (balKey u)"
  defines "s1 \<equiv> r_del R (fst (PreCharge R NoFault s u r a)) (preKey r)"
  shows "Settle R NoFault s1 u r c = (s1, Inr ()) \<and>
         get0 R s1 (balKey u) = get0 R s (balKey u) - a \<and>
         get0 R s1 (frozenKey u) = get0 R s (frozenKey u) + a"
proof -
  let ?t = "fst (PreCharge R NoFault s u r a)"
  have w: "wallet_of R ?t = spec_PreCharge (wallet_of R s) u r a"
    by (rule redis_kv.PreCharge_refines [OF assms(1,2)])
  have "get0 R ?t (balKey u) = get0 R s (balKey u) - a"
    "get0 R ?t (frozenKey u) = get0 R s (frozenKey u) + a"
    using arg_cong [OF w, of "\<lambda>w. w_bal w u"] arg_cong [OF w, of "\<lambda>w. w_frozen w u"] assms(3,4)
    by (simp_all add: spec_PreCharge_def)
  then show ?thesis
    unfolding s1_def using redis_kv.del [OF assms(1), of ?t "preKey r"]
    by (simp add: Settle_unknown get0_def)
qed

theorem expired_marker_leaks_witness:
  "get0 mem_redis (r_del mem_redis (fst (PreCharge mem_redis NoFault
      [(''balance:u'', 500)] ''u'' ''r'' 200)) (preKey ''r'')) (frozenKey ''u'') = 200"
  using expired_marker_leaks [OF mem.redis_kv_axioms,
      of "[(''balance:u'', 500)]" "''u''" "''r''" 200 0]
  by (simp add: touch_small_def small_def balKey_def frozenKey_def preKey_def)

text \<open>Theorem: Reading the balance of a user who never topped up is an error, not zero.\<close>

theorem balance_of_new_user:
  assumes "r_get R s (balKey u) = None"
  shows "Balance R NoFault s u = Inl ErrRedisNil"
  using assms by (simp add: Balance_def)

theorem balance_of_new_user_witness: "Balance mem_redis NoFault [] ''u'' = Inl ErrRedisNil"
  by (rule balance_of_new_user) simp

section \<open>The sweep over frozen amounts\<close>

definition frozen_users :: "'r redis \<Rightarrow> 'r \<Rightarrow> string set" where
  "frozen_users R s = {u. r_get R s (frozenKey u) \<noteq> None}"

lemma FrozenBalance_loop_sum:
  "\<forall>k\<in>set ks. r_get R s k \<noteq> None \<Longrightarrow>
   FrozenBalance_loop R [] s tot ks = (Inr (foldl add64 tot (map (get0 R s) ks)), [])"
  by (induction ks arbitrary: tot) (auto simp: get0_def)

context redis_kv
begin

lemma FrozenBalance_sum: "FrozenBalance R [] s = (Inr (wrap64 (\<Sum>k\<leftarrow>r_scan R s ''frozen:''. get0 R s k)), [])"
  using FrozenBalance_loop_sum [of "r_scan R s ''frozen:''" R s 0] foldl_add64 [of 0] scan [of s "''frozen:''"]
  by (simp add: FrozenBalance_def wrap64_id in64_def)

lemma scan_frozen: "set (r_scan R s ''frozen:'') = frozenKey ` frozen_users R s"
  unfolding scan by (auto simp: frozen_users_def frozenKey_def has_prefix_def [of _ "_ # _"] elim!: has_prefixE)

lemma FrozenBalance_total:
  assumes "distinct (r_scan R s ''frozen:'')"
  shows "FrozenBalance R [] s = (Inr (wrap64 (\<Sum>u\<in>frozen_users R s. w_frozen (wallet_of R s) u)), [])"
proof -
  have "inj frozenKey" by (auto simp: inj_def frozenKey_def)
  then have "(\<Sum>u\<in>frozen_users R s. w_frozen (wallet_of R s) u) = (\<Sum>k\<in>set (r_scan R s ''frozen:''). get0 R s k)"
    unfolding scan_frozen by (subst sum.reindex) (auto intro: inj_on_subset)
  also have "\<dots> = (\<Sum>k\<leftarrow>r_scan R s ''frozen:''. get0 R s k)" using assms by (rule sum_list_distinct_conv_sum_set [symmetric])
  finally show ?thesis by (simp add: FrozenBalance_sum)
qed

end

text \<open>Theorem: The sweep of frozen amounts finds what is reserved. From an empty server, after any top-ups,
  reservations and settlements as in the theorem above, the sum over all users is zero once every reservation is
  settled; otherwise it is the sum of the open reservations over the users that ever reserved. This needs a scan
  that lists no key twice.\<close>

theorem frozen_sweep_finds_reservations:
  assumes "redis_kv R" "\<forall>k. r_get R s k = None" "along op_small (wallet_of R s) ops"
    and "along (owned owner) (wallet_of R s) ops" and "distinct (r_scan R (exec_run R s ops) ''frozen:'')"
  defines "t \<equiv> exec_run R s ops"
  shows "FrozenBalance R [] t = (Inr (wrap64 (\<Sum>u\<in>frozen_users R t. \<Sum>r\<in>live owner (wallet_of R t) u. the (r_get R t (preKey r)))), []) \<and>
    ((\<forall>r. r_get R t (preKey r) = None) \<longrightarrow> FrozenBalance R [] t = (Inr 0, []))"
proof -
  have "frozen_inv owner (wallet_of R s)" using assms(2) by (simp add: frozen_inv_def live_def dom_def get0_def)
  then have "frozen_inv owner (spec_run (wallet_of R s) ops)" by (rule along_invariant [OF _ assms(4)]) (rule frozen_inv_op)
  then have inv: "frozen_inv owner (wallet_of R t)" unfolding t_def redis_kv.exec_run_refines [OF assms(1,3)] .
  then have sum: "w_frozen (wallet_of R t) u = (\<Sum>r\<in>live owner (wallet_of R t) u. the (r_get R t (preKey r)))" for u
    by (simp add: frozen_inv_def)
  have sweep: "FrozenBalance R [] t = (Inr (wrap64 (\<Sum>u\<in>frozen_users R t. w_frozen (wallet_of R t) u)), [])"
    using redis_kv.FrozenBalance_total [OF assms(1)] assms(5) by (simp add: t_def)
  have "live owner (wallet_of R t) u = {}" if "\<forall>r. r_get R t (preKey r) = None" for u
    using that by (auto simp: live_def dom_def)
  then show ?thesis unfolding sweep sum by (auto simp: wrap64_id in64_def)
qed

theorem frozen_sweep_finds_reservations_witness:
  "FrozenBalance mem_redis [] (exec_run mem_redis [] demo_ops) = (Inr 0, [])"
proof -
  have owned: "along (owned (\<lambda>r. ''u'')) (wallet_of mem_redis []) demo_ops"
    by (simp add: demo_ops_def spec_PreCharge_def spec_Settle_def spec_TopUp_def)
  have keys: "distinct (r_scan mem_redis (exec_run mem_redis [] demo_ops) ''frozen:'')" by code_simp
  have "\<forall>r. r_get mem_redis (exec_run mem_redis [] demo_ops) (preKey r) = None"
    using demo_markers arg_cong [OF mem.exec_run_refines [OF demo_small], of w_marker] by (simp add: fun_eq_iff)
  then show ?thesis using frozen_sweep_finds_reservations [OF mem.redis_kv_axioms _ demo_small owned keys] by (metis map_of.simps(1) mem_get)
qed

text \<open>Theorem: A key that the scan lists twice is counted twice. Redis documents that \<open>SCAN\<close> may return a key more
  than once, and there is a server with all documented laws where the sweep reports twice what is frozen.\<close>

definition dup_redis :: "(string \<times> int) list redis" where
  "dup_redis = mem_redis\<lparr>r_scan := (\<lambda>s p. r_scan mem_redis s p @ r_scan mem_redis s p)\<rparr>"

theorem repeated_scan_keys_count_twice:
  "redis_kv dup_redis \<and> get0 dup_redis [(frozenKey ''u'', 200)] (frozenKey ''u'') = 200 \<and>
   FrozenBalance dup_redis [] [(frozenKey ''u'', 200)] = (Inr 400, [])"
proof -
  have sel: "r_get dup_redis = r_get mem_redis" "r_incrby dup_redis = r_incrby mem_redis" "r_setex dup_redis = r_setex mem_redis"
    "r_del dup_redis = r_del mem_redis" "lua_num dup_redis = lua_num mem_redis" "set (r_scan dup_redis s p) = set (r_scan mem_redis s p)" for s p
    by (auto simp: dup_redis_def)
  have "redis_kv dup_redis"
    by unfold_locales (use mem.incrby mem.incrby_overflow mem.setex mem.del mem.scan mem.lua_exact in \<open>simp_all only: sel get0_def\<close>)
  moreover have "get0 dup_redis [(frozenKey ''u'', 200)] (frozenKey ''u'') = 200 \<and>
      FrozenBalance dup_redis [] [(frozenKey ''u'', 200)] = (Inr 400, [])" by code_simp
  ultimately show ?thesis by blast
qed

end
