(* ===== verification/Metering.thy ===== *)
theory Metering
  imports Pricing
begin

text \<open>
  \<open>internal/metering\<close>: the event the gateway emits per request (\<open>events.go\<close>) and the local
  token meter (\<open>tokenizer.go\<close>). A Go string is its bytes; \<open>range\<close> over it decodes UTF-8 the
  way the language specifies, an invalid byte being one replacement rune. The content of a
  chat message (\<open>any\<close> in \<open>pkg/openai/types.go\<close>) is a decoded JSON value. Counts are lengths of
  strings in memory, so their arithmetic cannot overflow and is written over \<open>int\<close>.
\<close>

section \<open>Events\<close>

type_synonym EventStatus = string

abbreviation StatusCompleted :: EventStatus where "StatusCompleted \<equiv> ''completed''"
abbreviation StatusAborted :: EventStatus where "StatusAborted \<equiv> ''aborted''"
abbreviation StatusFailed :: EventStatus where "StatusFailed \<equiv> ''failed''"

record PricingSnapshot =
  sn_InputPer1M :: int
  sn_OutputPer1M :: int
  sn_EffectiveAt :: int

record Event =
  ev_RequestID :: string
  ev_UserID :: string
  ev_Model :: string
  ev_Provider :: string
  ev_Status :: EventStatus
  ev_PromptTokens :: int
  ev_CompletionTokens :: int
  ev_CacheTokens :: int
  ev_TTFTMs :: int
  ev_DurationMs :: int
  ev_UpstreamUsageRaw :: string
  ev_Pricing :: "PricingSnapshot option"
  ev_Timestamp :: "int option"

section \<open>Decoding runes\<close>

definition byte_in :: "nat \<Rightarrow> nat \<Rightarrow> string \<Rightarrow> nat \<Rightarrow> bool" where
  "byte_in lo hi s i \<longleftrightarrow> i < length s \<and> lo \<le> of_char (s ! i) \<and> (of_char (s ! i) :: nat) \<le> hi"

text \<open>
  The length a first byte announces and the range it allows for the second byte; the bytes
  after it are continuation bytes. An ill-formed prefix takes one byte.
\<close>

definition rune_len :: "nat \<Rightarrow> nat" where
  "rune_len b = (if 194 \<le> b \<and> b \<le> 223 then 2 else if 224 \<le> b \<and> b \<le> 239 then 3
     else if 240 \<le> b \<and> b \<le> 244 then 4 else 1)"

definition second_lo :: "nat \<Rightarrow> nat" where
  "second_lo b = (if b = 224 then 160 else if b = 240 then 144 else 128)"

definition second_hi :: "nat \<Rightarrow> nat" where
  "second_hi b = (if b = 237 then 159 else if b = 244 then 143 else 191)"

definition tail_ok :: "nat \<Rightarrow> string \<Rightarrow> nat \<Rightarrow> bool" where
  "tail_ok b s i =
     (if i = 1 then byte_in (second_lo b) (second_hi b) s i else byte_in 128 191 s i)"

definition rune_width :: "string \<Rightarrow> nat" where
  "rune_width s =
     (case s of [] \<Rightarrow> 1
      | c # _ \<Rightarrow> if list_all (tail_ok (of_char c) s) [1..<rune_len (of_char c)] then rune_len (of_char c) else 1)"

lemma rune_len_pos [simp]: "0 < rune_len b"
  by (simp add: rune_len_def)

lemma rune_width_pos [simp]: "0 < rune_width s"
  by (simp add: rune_width_def split: list.splits)

text \<open>The two counters of the loop: runes below \<open>0x80\<close> and the others.\<close>

function count_runes :: "string \<Rightarrow> int \<times> int" where
  "count_runes s =
     (if s = [] then (0, 0)
      else let (ascii, wide) = count_runes (drop (rune_width s) s)
           in if byte_in 0 127 s 0 then (ascii + 1, wide) else (ascii, wide + 1))"
  by pat_completeness auto
termination
  by (relation "measure length") auto

declare count_runes.simps [simp del]

definition CountText :: "string \<Rightarrow> int" where
  "CountText s =
     (let (ascii, wide) = count_runes s
      in if ascii = 0 \<and> wide = 0 then 0 else ascii div 4 + wide * 2 div 3 + 1)"

section \<open>The streaming meter\<close>

record Usage =
  u_PromptTokens :: int
  u_CompletionTokens :: int
  u_TotalTokens :: int

record Accumulator =
  acc_prompt :: int
  acc_completion :: int
  acc_aborted :: bool

definition NewAccumulator :: "int \<Rightarrow> Accumulator" where
  "NewAccumulator promptTokens =
     \<lparr>acc_prompt = promptTokens, acc_completion = 0, acc_aborted = False\<rparr>"

definition AddDelta :: "(string \<Rightarrow> int) \<Rightarrow> Accumulator \<Rightarrow> string \<Rightarrow> Accumulator" where
  "AddDelta est a content =
     (if content = [] then a else a\<lparr>acc_completion := add64 (acc_completion a) (est content)\<rparr>)"

definition MarkAborted :: "Accumulator \<Rightarrow> Accumulator" where
  "MarkAborted a = a\<lparr>acc_aborted := True\<rparr>"

definition Snapshot :: "Accumulator \<Rightarrow> Usage" where
  "Snapshot a = \<lparr>u_PromptTokens = acc_prompt a, u_CompletionTokens = acc_completion a,
     u_TotalTokens = add64 (acc_prompt a) (acc_completion a)\<rparr>"

section \<open>Prompt estimate\<close>

datatype json =
    JNull | JBool bool | JNum int | JStr string | JArr "json list" | JObj "(string \<times> json) list"

record ChatMessage =
  msg_Role :: string
  msg_Content :: json

definition part_tokens :: "(string \<Rightarrow> int) \<Rightarrow> json \<Rightarrow> int" where
  "part_tokens est part =
     (case part of
        JObj pm \<Rightarrow> (case map_of pm ''text'' of Some (JStr text) \<Rightarrow> est text | _ \<Rightarrow> 0)
      | _ \<Rightarrow> 0)"

definition content_tokens :: "(string \<Rightarrow> int) \<Rightarrow> json \<Rightarrow> int" where
  "content_tokens est c =
     (case c of
        JStr t \<Rightarrow> est t
      | JArr parts \<Rightarrow> sum_list (map (part_tokens est) parts)
      | _ \<Rightarrow> 0)"

definition EstimatePromptTokens :: "(string \<Rightarrow> int) \<Rightarrow> ChatMessage list \<Rightarrow> int" where
  "EstimatePromptTokens est messages =
     foldl (\<lambda>tot m. tot + 4 + content_tokens est (msg_Content m)) 0 messages"

section \<open>Counting lemmas\<close>

lemma count_runes_nil [simp]: "count_runes [] = (0, 0)"
  by (simp add: count_runes.simps)

lemma count_runes_nonneg: "0 \<le> fst (count_runes s) \<and> 0 \<le> snd (count_runes s)"
proof (induction s rule: count_runes.induct)
  case (1 s)
  then show ?case
    by (cases "s = []") (auto simp: count_runes.simps [of s] split: prod.splits)
qed

lemma count_runes_bounds:
  "fst (count_runes s) + snd (count_runes s) \<le> int (length s) \<and>
   (s \<noteq> [] \<longrightarrow> 1 \<le> fst (count_runes s) + snd (count_runes s))"
proof (induction s rule: count_runes.induct)
  case (1 s)
  show ?case
  proof (cases "s = []")
    case False
    let ?t = "drop (rune_width s) s"
    have "fst (count_runes ?t) + snd (count_runes ?t) \<le> int (length ?t)"
      using 1 False by simp
    moreover have "int (length ?t) + 1 \<le> int (length s)"
    proof -
      have "length ?t < length s"
        using False rune_width_pos [of s] by (simp add: diff_less)
      then show ?thesis by linarith
    qed
    moreover have "fst (count_runes s) + snd (count_runes s) =
        fst (count_runes ?t) + snd (count_runes ?t) + 1"
      using False by (simp add: count_runes.simps [of s] split: prod.splits)
    ultimately show ?thesis
      using count_runes_nonneg [of ?t] by linarith
  qed simp
qed

text \<open>A non-empty fragment meters between one token and one token per byte.\<close>

lemma CountText_bounds: "s \<noteq> [] \<Longrightarrow> 1 \<le> CountText s \<and> CountText s \<le> int (length s)"
proof -
  assume ne: "s \<noteq> []"
  obtain a w where aw: "count_runes s = (a, w)" by fastforce
  have "0 \<le> a" "0 \<le> w" "1 \<le> a + w" "a + w \<le> int (length s)"
    using count_runes_nonneg [of s] count_runes_bounds [of s] aw ne by auto
  moreover have "0 \<le> a div 4" "0 \<le> w * 2 div 3" "4 * (a div 4) \<le> a" "3 * (w * 2 div 3) \<le> w * 2"
    using \<open>0 \<le> a\<close> \<open>0 \<le> w\<close> by simp_all
  ultimately have "1 \<le> a div 4 + w * 2 div 3 + 1 \<and> a div 4 + w * 2 div 3 + 1 \<le> int (length s)"
    by (cases "1 \<le> w") auto
  with aw \<open>0 \<le> a\<close> \<open>0 \<le> w\<close> \<open>1 \<le> a + w\<close> show ?thesis
    by (auto simp: CountText_def)
qed

lemma CountText_nil [simp]: "CountText [] = 0"
  by (simp add: CountText_def)

text \<open>
  A string that is well-formed UTF-8: every rune decodes, so cutting between two such
  strings does not change the runes.
\<close>

function valid_utf8 :: "string \<Rightarrow> bool" where
  "valid_utf8 s =
     (if s = [] then True
      else (byte_in 0 127 s 0 \<or> 1 < rune_width s) \<and> valid_utf8 (drop (rune_width s) s))"
  by pat_completeness auto
termination
  by (relation "measure length") auto

declare valid_utf8.simps [simp del]

lemma tail_ok_append: "tail_ok b s i \<Longrightarrow> tail_ok b (s @ t) i"
  by (auto simp: tail_ok_def byte_in_def nth_append split: if_splits)

lemma tail_ok_length: "tail_ok b s i \<Longrightarrow> i < length s"
  by (auto simp: tail_ok_def byte_in_def split: if_splits)

lemma rune_width_ascii: "byte_in 0 127 s 0 \<Longrightarrow> rune_width s = 1"
  by (cases s) (simp_all add: rune_width_def byte_in_def rune_len_def)

lemma rune_width_length: "s \<noteq> [] \<Longrightarrow> rune_width s \<le> length s"
proof (cases s)
  case (Cons c t)
  let ?n = "rune_len (of_char c)"
  have "?n \<le> length s" if "list_all (tail_ok (of_char c) s) [1..<?n]" "1 < ?n"
  proof -
    have "?n - 1 \<in> set [1..<?n]" using that(2) by auto
    then have "tail_ok (of_char c) s (?n - 1)" using that(1) by (simp only: list_all_iff)
    then have "?n - 1 < length s" by (rule tail_ok_length)
    then show ?thesis by simp
  qed
  moreover have "1 \<le> length s" "1 \<le> ?n" using Cons by (simp_all add: Suc_le_eq)
  ultimately show ?thesis
    using Cons by (cases "1 < ?n") (auto simp: rune_width_def)
qed simp

lemma rune_width_append:
  assumes "s \<noteq> []" and "byte_in 0 127 s 0 \<or> 1 < rune_width s"
  shows "rune_width (s @ t) = rune_width s"
proof (cases "byte_in 0 127 s 0")
  case True
  then have "byte_in 0 127 (s @ t) 0" by (simp add: byte_in_def nth_append)
  with True show ?thesis by (simp add: rune_width_ascii)
next
  case False
  obtain c u where s: "s = c # u" using assms(1) by (cases s) auto
  let ?n = "rune_len (of_char c)"
  have ok: "list_all (tail_ok (of_char c) s) [1..<?n]"
    using assms(2) False s by (auto simp: rune_width_def split: if_splits)
  then have "list_all (tail_ok (of_char c) (s @ t)) [1..<?n]"
    by (simp add: list_all_iff tail_ok_append)
  with ok s show ?thesis by (simp add: rune_width_def)
qed

lemma count_runes_append:
  "valid_utf8 s \<Longrightarrow>
     count_runes (s @ t) = (fst (count_runes s) + fst (count_runes t), snd (count_runes s) + snd (count_runes t))"
proof (induction s rule: valid_utf8.induct)
  case (1 s)
  show ?case
  proof (cases "s = []")
    case False
    let ?w = "rune_width s"
    have v: "byte_in 0 127 s 0 \<or> 1 < ?w" "valid_utf8 (drop ?w s)"
      using "1.prems" False by (simp_all add: valid_utf8.simps [of s])
    have w: "rune_width (s @ t) = ?w" by (rule rune_width_append [OF False v(1)])
    have "?w \<le> length s" by (rule rune_width_length [OF False])
    then have d: "drop ?w (s @ t) = drop ?w s @ t" by simp
    have unfold: "count_runes (s @ t) =
        (let (ascii, wide) = count_runes (drop ?w s @ t)
         in if byte_in 0 127 (s @ t) 0 then (ascii + 1, wide) else (ascii, wide + 1))"
      using False by (subst count_runes.simps) (simp only: w d append_is_Nil_conv simp_thms if_False)
    have b: "byte_in 0 127 (s @ t) 0 = byte_in 0 127 s 0"
      using False by (simp add: byte_in_def nth_append)
    have ih: "count_runes (drop ?w s @ t) = (fst (count_runes (drop ?w s)) + fst (count_runes t),
        snd (count_runes (drop ?w s)) + snd (count_runes t))"
      using "1.IH" False v(2) by simp
    show ?thesis
      using False by (simp add: unfold count_runes.simps [of s] b ih split: prod.splits)
  qed simp
qed

section \<open>Metering error of a stream\<close>

text \<open>The meter's rounding: \<open>weight\<close> is the count without the final one.\<close>

definition weight :: "int \<times> int \<Rightarrow> int" where
  "weight p = fst p div 4 + snd p * 2 div 3"

lemma CountText_weight: "s \<noteq> [] \<Longrightarrow> CountText s = weight (count_runes s) + 1"
  using count_runes_bounds [of s] by (auto simp: CountText_def weight_def split: prod.splits)

lemma weight_append:
  assumes "valid_utf8 s"
  shows "weight (count_runes s) + weight (count_runes t) \<le> weight (count_runes (s @ t))"
    and "weight (count_runes (s @ t)) \<le> weight (count_runes s) + weight (count_runes t) + 2"
proof -
  have q: "x div 4 + x' div 4 \<le> (x + x') div 4 \<and> (x + x') div 4 \<le> x div 4 + x' div 4 + 1" for x x' :: int
    by (intro conjI; linarith)
  have t: "x div 3 + x' div 3 \<le> (x + x') div 3 \<and> (x + x') div 3 \<le> x div 3 + x' div 3 + 1" for x x' :: int
    by (intro conjI; linarith)
  have *: "x div 4 + y * 2 div 3 + (x' div 4 + y' * 2 div 3) \<le> (x + x') div 4 + (y + y') * 2 div 3 \<and>
    (x + x') div 4 + (y + y') * 2 div 3 \<le> x div 4 + y * 2 div 3 + (x' div 4 + y' * 2 div 3) + 2"
    for x y x' y' :: int
    unfolding distrib_right using q [of x x'] t [of "y * 2" "y' * 2"] by linarith
  show "weight (count_runes s) + weight (count_runes t) \<le> weight (count_runes (s @ t))"
    and "weight (count_runes (s @ t)) \<le> weight (count_runes s) + weight (count_runes t) + 2"
    unfolding count_runes_append [OF assms] weight_def fst_conv snd_conv using * by blast+
qed

lemma foldl_AddDelta_completion:
  "acc_completion (foldl (AddDelta CountText) a ds) =
     foldl add64 (acc_completion a) (map CountText (filter (\<lambda>d. d \<noteq> []) ds))"
  by (induction ds arbitrary: a) (simp_all add: AddDelta_def)

lemma stream_weight:
  assumes "list_all (\<lambda>d. d \<noteq> [] \<and> valid_utf8 d) ds" and "ds \<noteq> []"
  shows "\<bar>sum_list (map CountText ds) - CountText (concat ds)\<bar> \<le> int (length ds) - 1"
  using assms
proof (induction ds)
  case (Cons d ds)
  show ?case
  proof (cases "ds = []")
    case False
    have d: "d \<noteq> []" "valid_utf8 d" and ih: "\<bar>sum_list (map CountText ds) - CountText (concat ds)\<bar> \<le> int (length ds) - 1"
      using Cons False by auto
    have "concat ds \<noteq> []"
      using Cons.prems False by (cases ds) auto
    then show ?thesis
      using ih d weight_append [OF d(2), of "concat ds"] by (simp add: CountText_weight)
  qed simp
qed simp

text \<open>C40: The meter's error on a stream is bounded by the number of fragments. Metering a
completion fragment by fragment (fragments being well-formed UTF-8, empty ones ignored)
differs from metering the whole text at once by less than one token per metered fragment,
in either direction, as long as the count fits 64 bits.\<close>

theorem streaming_meter_error_bound:
  assumes "list_all valid_utf8 ds" and "concat ds \<noteq> []" and "in64 (sum_list (map CountText ds))"
  shows "\<bar>u_CompletionTokens (Snapshot (foldl (AddDelta CountText) (NewAccumulator p) ds))
           - CountText (concat ds)\<bar> < int (length (filter (\<lambda>d. d \<noteq> []) ds))"
proof -
  let ?ds = "filter (\<lambda>d. d \<noteq> []) ds"
  have c: "concat ?ds = concat ds" and m: "sum_list (map CountText ?ds) = sum_list (map CountText ds)"
    by (induction ds) auto
  have "?ds \<noteq> []" using assms(2) c by force
  moreover have "list_all (\<lambda>d. d \<noteq> [] \<and> valid_utf8 d) ?ds"
    using assms(1) by (auto simp: list_all_iff)
  ultimately have "\<bar>sum_list (map CountText ds) - CountText (concat ds)\<bar> \<le> int (length ?ds) - 1"
    using stream_weight [of ?ds] c m by simp
  moreover have "foldl add64 0 (map CountText ?ds) = sum_list (map CountText ds)"
    using foldl_add64 [of 0 "map CountText ?ds"] m assms(3) by (simp add: wrap64_id in64_def)
  ultimately show ?thesis
    by (simp add: Snapshot_def foldl_AddDelta_completion NewAccumulator_def)
qed

theorem streaming_meter_error_bound_witness:
  "\<bar>u_CompletionTokens (Snapshot (foldl (AddDelta CountText) (NewAccumulator 3) [''Hel'', ''lo'', []]))
     - CountText ''Hello''\<bar> < 2"
proof -
  have "list_all valid_utf8 [''Hel'', ''lo'', []]"
    by (simp add: valid_utf8.simps byte_in_def rune_width_def rune_len_def)
  moreover have "in64 (sum_list (map CountText [''Hel'', ''lo'', []]))"
    by (simp add: CountText_def count_runes.simps byte_in_def rune_width_def rune_len_def in64_def)
  ultimately show ?thesis
    using streaming_meter_error_bound [of "[''Hel'', ''lo'', []]" 3] by simp
qed

end
