(* ===== verification/Settler.thy ===== *)
theory Settler
  imports Order_Store Precharge Metering
begin

text \<open>
  The slow path: \<open>internal/billing/settle.go\<close> turns metering events into terminal orders and
  writes them in batches, then settles the reservations; \<open>sink.go\<close> is the in-process queue
  in front of it. The settler calls an order store and Redis through their interfaces: the
  store's batch insert is the argument \<open>ins\<close> (any implementation of \<open>order_store\<close>), \<open>pre\<close> the
  Redis client or \<open>None\<close> for a nil \<open>Precharger\<close>. Outcomes of store and Redis calls are two
  schedules. Each operation that holds a shard's mutex is one step.
\<close>

section \<open>From events to orders\<close>

definition priceFromEvent :: "price_state \<Rightarrow> Event \<Rightarrow> ModelPrice" where
  "priceFromEvent ps ev =
     (case ev_Pricing ev of
        Some sn \<Rightarrow> \<lparr>InputPer1M = sn_InputPer1M sn, OutputPer1M = sn_OutputPer1M sn\<rparr>
      | None \<Rightarrow> price_of ps (ev_Model ev))"

definition orderFromEvent :: "price_state \<Rightarrow> Event \<Rightarrow> Order" where
  "orderFromEvent ps ev =
     (let p = priceFromEvent ps ev;
          failed = (ev_Status ev = StatusFailed);
          completion = (if failed then 0 else ev_CompletionTokens ev);
          amount = (if failed then 0
                    else CalculateAmount (ev_PromptTokens ev) (ev_CompletionTokens ev) p)
      in \<lparr>o_RequestID = ev_RequestID ev, o_UserID = ev_UserID ev, o_Model = ev_Model ev,
          o_Provider = ev_Provider ev,
          o_Status = (if failed then StatusNoCharge else StatusSettled),
          o_PromptTokens = ev_PromptTokens ev, o_CompletionTokens = completion,
          o_TotalTokens = add64 (ev_PromptTokens ev) completion, o_AmountMicros = amount,
          o_DurationMs = ev_DurationMs ev, o_TTFTMs = ev_TTFTMs ev, o_CreatedAt = 0\<rparr>)"

section \<open>The sharded buffers\<close>

text \<open>\<open>sh_trigger\<close> is the one-slot channel \<open>trigger\<close>, \<open>sh_done\<close> the closed channel \<open>done\<close>.\<close>

record settleShard =
  sh_buf :: "Order list"
  sh_pending :: "Event list"
  sh_flushAt :: "int option"
  sh_trigger :: bool
  sh_done :: bool

record Settler =
  st_batch :: int
  st_shards :: "settleShard list"

definition settle_maxWait :: int where
  "settle_maxWait = 50000"

definition new_shard :: settleShard where
  "new_shard = \<lparr>sh_buf = [], sh_pending = [], sh_flushAt = None, sh_trigger = False, sh_done = False\<rparr>"

definition NewSettler :: "nat \<Rightarrow> int \<Rightarrow> Settler" where
  "NewSettler numCPU batch =
     (let b = (if batch \<le> 0 then 500 else batch);
          n = (if numCPU < 4 then 4 else numCPU);
          n = (if n > 32 then 32 else n)
      in \<lparr>st_batch = b, st_shards = replicate n new_shard\<rparr>)"

definition shardIndex :: "string \<Rightarrow> nat \<Rightarrow> nat" where
  "shardIndex key n = unat (Sum32 key mod word_of_nat n)"

definition signalFlush :: "settleShard \<Rightarrow> settleShard" where
  "signalFlush sh = sh\<lparr>sh_trigger := True\<rparr>"

definition Handle :: "price_state \<Rightarrow> int \<Rightarrow> Settler \<Rightarrow> Event \<Rightarrow> Settler \<times> (go_error + unit)" where
  "Handle ps now S ev =
     (if ev_RequestID ev = [] then (S, Inl ErrMissingRequestID)
      else
        let k = shardIndex (ev_RequestID ev) (length (st_shards S));
            sh = st_shards S ! k;
            sh1 = sh\<lparr>sh_buf := sh_buf sh @ [orderFromEvent ps ev], sh_pending := sh_pending sh @ [ev]\<rparr>;
            full = (int (length (sh_buf sh1)) \<ge> st_batch S);
            sh2 = (if \<not> full \<and> sh_flushAt sh1 = None
                   then sh1\<lparr>sh_flushAt := Some (now + settle_maxWait)\<rparr> else sh1);
            sh3 = (if full then signalFlush sh2 else sh2)
        in (S\<lparr>st_shards := (st_shards S)[k := sh3]\<rparr>, Inr ()))"

section \<open>Flushing\<close>

definition settle_req :: "Order \<Rightarrow> Event \<Rightarrow> SettleReq" where
  "settle_req ord ev =
     \<lparr>sr_UserID = ev_UserID ev, sr_RequestID = ev_RequestID ev,
      sr_ChargedMicros = (if o_Status ord = StatusNoCharge then 0 else o_AmountMicros ord)\<rparr>"

text \<open>Everything the flushers share: the settler, the two services and their schedules.\<close>

record ('s, 'r) world =
  sw_settler :: Settler
  sw_store :: 's
  sw_redis :: 'r
  sw_store_sched :: sched
  sw_redis_sched :: sched

type_synonym 's inserter = "sched \<Rightarrow> 's \<Rightarrow> Order list \<Rightarrow> 's \<times> (go_error + unit) \<times> sched"

definition set_shard :: "Settler \<Rightarrow> nat \<Rightarrow> settleShard \<Rightarrow> Settler" where
  "set_shard S k sh = S\<lparr>st_shards := (st_shards S)[k := sh]\<rparr>"

definition flush :: "'s inserter \<Rightarrow> 'r redis option \<Rightarrow> ('s, 'r) world \<Rightarrow> nat \<Rightarrow> ('s, 'r) world" where
  "flush ins pre W k =
     (let S = sw_settler W; sh = st_shards S ! k in
      if sh_buf sh = [] then W
      else
        let orders = sh_buf sh; events = sh_pending sh;
            W1 = W\<lparr>sw_settler := set_shard S k (sh\<lparr>sh_buf := [], sh_pending := [], sh_flushAt := None\<rparr>)\<rparr>
        in case ins (sw_store_sched W1) (sw_store W1) orders of
             (s, Inl e, fs) \<Rightarrow> W1\<lparr>sw_store := s, sw_store_sched := fs\<rparr>
           | (s, Inr _, fs) \<Rightarrow>
               let W2 = W1\<lparr>sw_store := s, sw_store_sched := fs\<rparr>
               in (case pre of
                     None \<Rightarrow> W2
                   | Some R \<Rightarrow>
                       let (r, gs) = BatchSettle R (sw_redis_sched W2) (sw_redis W2)
                                       (map2 settle_req orders events)
                       in W2\<lparr>sw_redis := r, sw_redis_sched := gs\<rparr>))"

text \<open>One round of a flusher's \<open>select\<close>; the result says whether the loop goes on.\<close>

datatype wakeup = WakeDone | WakeTrigger | WakeTick int

definition flushLoop ::
  "'s inserter \<Rightarrow> 'r redis option \<Rightarrow> ('s, 'r) world \<Rightarrow> nat \<Rightarrow> wakeup \<Rightarrow> ('s, 'r) world \<times> bool" where
  "flushLoop ins pre W k w =
     (let sh = st_shards (sw_settler W) ! k in
      case w of
        WakeDone \<Rightarrow> (W, \<not> sh_done sh)
      | WakeTrigger \<Rightarrow>
          (if sh_trigger sh
           then (flush ins pre
                  (W\<lparr>sw_settler := set_shard (sw_settler W) k (sh\<lparr>sh_trigger := False\<rparr>)\<rparr>) k, True)
           else (W, True))
      | WakeTick now \<Rightarrow>
          (case sh_flushAt sh of
             Some t \<Rightarrow> if now > t then (flush ins pre W k, True) else (W, True)
           | None \<Rightarrow> (W, True)))"

text \<open>
  \<open>FlushSync\<close> starts one goroutine per shard and waits for all; \<open>ctxErr\<close> is \<open>ctx.Err()\<close> at
  the end. The outcomes of the inserts are not looked at.
\<close>

definition FlushSync ::
  "'s inserter \<Rightarrow> 'r redis option \<Rightarrow> nat list \<Rightarrow> go_error option \<Rightarrow> ('s, 'r) world
     \<Rightarrow> ('s, 'r) world \<times> (go_error + unit)" where
  "FlushSync ins pre prio ctxErr W =
     (foldl (flush ins pre) W (map_range prio [0..<length (st_shards (sw_settler W))]),
      case ctxErr of None \<Rightarrow> Inr () | Some e \<Rightarrow> Inl e)"

definition Settler_Close :: "'s inserter \<Rightarrow> 'r redis option \<Rightarrow> ('s, 'r) world \<Rightarrow> ('s, 'r) world" where
  "Settler_Close ins pre W =
     (let S = sw_settler W;
          W1 = W\<lparr>sw_settler := S\<lparr>st_shards := map (\<lambda>sh. sh\<lparr>sh_done := True\<rparr>) (st_shards S)\<rparr>\<rparr>
      in foldl (flush ins pre) W1 [0..<length (st_shards S)])"

section \<open>The in-process sink\<close>

record Sink =
  sk_ch :: "Event list"
  sk_cap :: nat
  sk_droppedTotal :: nat

definition NewSink :: "int \<Rightarrow> Sink" where
  "NewSink buffer = \<lparr>sk_ch = [], sk_cap = (if buffer \<le> 0 then 500000 else nat buffer), sk_droppedTotal = 0\<rparr>"

definition Sink_Emit :: "Sink \<Rightarrow> Event \<Rightarrow> Sink \<times> (go_error + unit)" where
  "Sink_Emit k ev =
     (if length (sk_ch k) < sk_cap k then (k\<lparr>sk_ch := sk_ch k @ [ev]\<rparr>, Inr ())
      else (k\<lparr>sk_droppedTotal := sk_droppedTotal k + 1\<rparr>, Inr ()))"

definition Sink_handle :: "price_state \<Rightarrow> int \<Rightarrow> Settler \<Rightarrow> Event \<Rightarrow> Settler" where
  "Sink_handle ps now S ev = fst (Handle ps now S ev)"

text \<open>One round of the consumer goroutine, and the drain of \<open>Close\<close>.\<close>

fun Sink_loop :: "price_state \<Rightarrow> int \<Rightarrow> Sink \<times> Settler \<Rightarrow> Sink \<times> Settler" where
  "Sink_loop ps now (k, S) =
     (case sk_ch k of [] \<Rightarrow> (k, S) | ev # rest \<Rightarrow> (k\<lparr>sk_ch := rest\<rparr>, Sink_handle ps now S ev))"

fun Sink_Close :: "price_state \<Rightarrow> int \<Rightarrow> Sink \<times> Settler \<Rightarrow> Sink \<times> Settler" where
  "Sink_Close ps now (k, S) =
     (k\<lparr>sk_ch := []\<rparr>, foldl (Sink_handle ps now) S (sk_ch k))"

section \<open>What the settler keeps\<close>

definition buffered_orders :: "Settler \<Rightarrow> Order list" where
  "buffered_orders S = concat (map sh_buf (st_shards S))"

definition same_request :: "Order \<Rightarrow> Event \<Rightarrow> bool" where
  "same_request x ev \<longleftrightarrow> o_RequestID x = ev_RequestID ev \<and> o_UserID x = ev_UserID ev"

definition settler_ok :: "Settler \<Rightarrow> bool" where
  "settler_ok S \<longleftrightarrow> 0 < length (st_shards S) \<and> length (st_shards S) < 4294967296 \<and>
     (\<forall>sh\<in>set (st_shards S). list_all2 same_request (sh_buf sh) (sh_pending sh))"

lemma shardIndex_less: "0 < n \<Longrightarrow> n < 4294967296 \<Longrightarrow> shardIndex key n < n"
  by (simp add: shardIndex_def unat_mod_distrib unat_of_nat)

lemma orderFromEvent_ids [simp]:
  "o_RequestID (orderFromEvent ps ev) = ev_RequestID ev" "o_UserID (orderFromEvent ps ev) = ev_UserID ev"
  by (simp_all add: orderFromEvent_def Let_def)

lemma settler_ok_new: "settler_ok (NewSettler numCPU batch)"
  by (simp add: settler_ok_def NewSettler_def new_shard_def)

lemma buffered_new [simp]: "buffered_orders (NewSettler numCPU batch) = []"
  by (simp add: buffered_orders_def NewSettler_def new_shard_def)

lemma buffered_set:
  "set (buffered_orders S) = (\<Union>k<length (st_shards S). set (sh_buf (st_shards S ! k)))"
proof -
  have "set (st_shards S) = (!) (st_shards S) ` {..<length (st_shards S)}"
    by (fastforce simp: in_set_conv_nth)
  then show ?thesis by (simp add: buffered_orders_def)
qed

lemma settler_ok_set_shard:
  assumes "settler_ok S" and "list_all2 same_request (sh_buf sh) (sh_pending sh)"
  shows "settler_ok (set_shard S k sh)"
proof -
  have "list_all2 same_request (sh_buf x) (sh_pending x)" if "x \<in> set ((st_shards S)[k := sh])" for x
    using that assms set_update_subset_insert [of "st_shards S" k sh] by (auto simp: settler_ok_def)
  then show ?thesis
    using assms(1) by (simp add: settler_ok_def set_shard_def)
qed

text \<open>An accepted event adds exactly its order to the buffers.\<close>

lemma Handle_effect:
  assumes "settler_ok S" and "ev_RequestID ev \<noteq> []"
  shows "settler_ok (fst (Handle ps now S ev))"
    and "set (buffered_orders (fst (Handle ps now S ev))) = insert (orderFromEvent ps ev) (set (buffered_orders S))"
    and "snd (Handle ps now S ev) = Inr ()"
proof -
  let ?n = "length (st_shards S)"
  define k where "k = shardIndex (ev_RequestID ev) ?n"
  have k: "k < ?n" using assms(1) by (simp add: k_def shardIndex_less settler_ok_def)
  obtain sh' where S': "fst (Handle ps now S ev) = set_shard S k sh'"
    and b: "sh_buf sh' = sh_buf (st_shards S ! k) @ [orderFromEvent ps ev]"
    and p: "sh_pending sh' = sh_pending (st_shards S ! k) @ [ev]"
    using assms(2) by (auto simp: Handle_def k_def Let_def set_shard_def signalFlush_def)
  have "list_all2 same_request (sh_buf sh') (sh_pending sh')"
    using assms(1) k b p by (auto simp: settler_ok_def same_request_def intro: list_all2_appendI)
  with assms(1) S' show "settler_ok (fst (Handle ps now S ev))"
    by (simp add: settler_ok_set_shard)
  have "sh_buf (st_shards (set_shard S k sh') ! j) =
      (if j = k then sh_buf (st_shards S ! k) @ [orderFromEvent ps ev] else sh_buf (st_shards S ! j))"
    if "j < ?n" for j
    using that b by (simp add: set_shard_def nth_list_update)
  then show "set (buffered_orders (fst (Handle ps now S ev))) =
      insert (orderFromEvent ps ev) (set (buffered_orders S))"
    using k by (auto simp: S' buffered_set set_shard_def split: if_splits)
  show "snd (Handle ps now S ev) = Inr ()"
    using assms(2) by (simp add: Handle_def Let_def)
qed

lemma Handle_missing: "ev_RequestID ev = [] \<Longrightarrow> Handle ps now S ev = (S, Inl ErrMissingRequestID)"
  by (simp add: Handle_def)

lemma first_of_SomeD:
  "first_of slot k rid xs = Some x \<Longrightarrow> \<exists>y\<in>set xs. x = erase y \<and> slot (o_UserID y) = k \<and> o_RequestID y = rid"
  unfolding first_of_def by (drule find_order_Some) (fastforce simp: erase_simps)

text \<open>
  The buffered side of a flush: the shard is emptied, the others are untouched, whatever
  the services answer.
\<close>

definition cleared :: "Settler \<Rightarrow> nat \<Rightarrow> Settler" where
  "cleared S k =
     (if sh_buf (st_shards S ! k) = [] then S
      else set_shard S k ((st_shards S ! k)\<lparr>sh_buf := [], sh_pending := [], sh_flushAt := None\<rparr>))"

lemma flush_settler: "sw_settler (flush ins pre W k) = cleared (sw_settler W) k"
  by (auto simp: flush_def cleared_def Let_def split: prod.splits sum.splits option.splits)

lemma flush_store:
  "sw_store (flush ins pre W k) =
     (let b = sh_buf (st_shards (sw_settler W) ! k)
      in if b = [] then sw_store W else fst (ins (sw_store_sched W) (sw_store W) b))"
  by (auto simp: flush_def Let_def split: prod.splits sum.splits option.splits)

lemma flush_store_sched:
  "sw_store_sched (flush ins pre W k) =
     (let b = sh_buf (st_shards (sw_settler W) ! k)
      in if b = [] then sw_store_sched W else snd (snd (ins (sw_store_sched W) (sw_store W) b)))"
  by (auto simp: flush_def Let_def split: prod.splits sum.splits option.splits)

lemma cleared_shards [simp]: "length (st_shards (cleared S k)) = length (st_shards S)"
  by (simp add: cleared_def set_shard_def)

lemma cleared_ok: "settler_ok S \<Longrightarrow> settler_ok (cleared S k)"
  by (simp add: cleared_def settler_ok_set_shard)

lemma cleared_buf:
  "j < length (st_shards S) \<Longrightarrow>
     sh_buf (st_shards (cleared S k) ! j) = (if j = k then [] else sh_buf (st_shards S ! j))"
  by (auto simp: cleared_def set_shard_def nth_list_update)

lemma cleared_buffered:
  "set (buffered_orders (cleared S k)) \<subseteq> set (buffered_orders S)"
  "k < length (st_shards S) \<Longrightarrow>
     set (buffered_orders S) \<subseteq> set (buffered_orders (cleared S k)) \<union> set (sh_buf (st_shards S ! k))"
  by (auto simp: buffered_set cleared_buf split: if_splits)

section \<open>Runs of the settler\<close>

text \<open>What can happen to a settler: an event arrives, a flusher wakes up, a caller syncs.\<close>

datatype action = DoHandle price_state int Event | DoWake nat wakeup | DoSync "nat list"

definition exec_action :: "'s inserter \<Rightarrow> 'r redis option \<Rightarrow> ('s, 'r) world \<Rightarrow> action \<Rightarrow> ('s, 'r) world" where
  "exec_action ins pre W a =
     (case a of
        DoHandle ps now ev \<Rightarrow> W\<lparr>sw_settler := fst (Handle ps now (sw_settler W) ev)\<rparr>
      | DoWake k w \<Rightarrow>
          if k < length (st_shards (sw_settler W)) then fst (flushLoop ins pre W k w) else W
      | DoSync prio \<Rightarrow> fst (FlushSync ins pre prio None W))"

fun handled :: "action list \<Rightarrow> Order list" where
  "handled [] = []"
| "handled (DoHandle ps now ev # as) =
     (if ev_RequestID ev = [] then handled as else orderFromEvent ps ev # handled as)"
| "handled (a # as) = handled as"

text \<open>
  The invariant of a run from store \<open>s0\<close> that was given the orders \<open>H\<close>: buffered rows and
  new stored rows come from \<open>H\<close>, old rows stay; and, while inserts succeed, every order of
  \<open>H\<close> is buffered or stored.
\<close>

definition run_ok ::
  "(string \<Rightarrow> nat) \<Rightarrow> ('s \<Rightarrow> nat \<Rightarrow> string \<Rightarrow> Order option) \<Rightarrow> ('s \<Rightarrow> bool) \<Rightarrow> 's \<Rightarrow> Order set \<Rightarrow> ('s, 'r) world \<Rightarrow> bool" where
  "run_ok slot look invar s0 H W \<longleftrightarrow> settler_ok (sw_settler W) \<and> invar (sw_store W) \<and>
     set (buffered_orders (sw_settler W)) \<subseteq> H \<and>
     (\<forall>k rid. look (sw_store W) k rid = look s0 k rid \<or>
        look s0 k rid = None \<and>
        (\<exists>y\<in>H. look (sw_store W) k rid = Some (erase y) \<and> slot (o_UserID y) = k \<and> o_RequestID y = rid))"

definition all_kept ::
  "(string \<Rightarrow> nat) \<Rightarrow> ('s \<Rightarrow> nat \<Rightarrow> string \<Rightarrow> Order option) \<Rightarrow> Order set \<Rightarrow> ('s, 'r) world \<Rightarrow> bool" where
  "all_kept slot look H W \<longleftrightarrow> sw_store_sched W = [] \<and>
     (\<forall>y\<in>H. y \<in> set (buffered_orders (sw_settler W)) \<or>
        look (sw_store W) (slot (o_UserID y)) (o_RequestID y) \<noteq> None)"

lemma flush_shard_count [simp]:
  "length (st_shards (sw_settler (flush ins pre W k))) = length (st_shards (sw_settler W))"
  by (simp add: flush_settler)

context order_store
begin

lemma flush_run_ok:
  assumes "run_ok slot look inv s0 H W" and "k < length (st_shards (sw_settler W))"
  shows "run_ok slot look inv s0 H (flush insert pre W k)"
proof -
  let ?b = "sh_buf (st_shards (sw_settler W) ! k)"
  obtain s' r fs' where ins: "insert (sw_store_sched W) (sw_store W) ?b = (s', r, fs')"
    by (metis prod_cases3)
  have i: "inv (sw_store W)" and H: "set ?b \<subseteq> H"
    using assms by (auto simp: run_ok_def buffered_set)
  have store: "sw_store (flush insert pre W k) = (if ?b = [] then sw_store W else s')"
    by (simp add: flush_store ins Let_def)
  have "look s' j rid = look s0 j rid \<or> look s0 j rid = None \<and>
      (\<exists>y\<in>H. look s' j rid = Some (erase y) \<and> slot (o_UserID y) = j \<and> o_RequestID y = rid)" for j rid
  proof -
    have old: "look (sw_store W) j rid = look s0 j rid \<or> look s0 j rid = None \<and>
      (\<exists>y\<in>H. look (sw_store W) j rid = Some (erase y) \<and> slot (o_UserID y) = j \<and> o_RequestID y = rid)"
      using assms(1) by (simp add: run_ok_def)
    have "look s' j rid = look (sw_store W) j rid \<or>
        look (sw_store W) j rid = None \<and> look s' j rid = first_of slot j rid ?b"
      using insert_any [OF i ins, of j rid] by (cases "look (sw_store W) j rid") auto
    then show ?thesis
    proof
      assume new: "look (sw_store W) j rid = None \<and> look s' j rid = first_of slot j rid ?b"
      with old have "look s0 j rid = None" by auto
      with new show ?thesis
        using first_of_SomeD [of slot j rid ?b] H by (cases "first_of slot j rid ?b") force+
    qed (use old in simp)
  qed
  then show ?thesis
    using assms(1) insert_inv [OF i ins] cleared_buffered(1) [of "sw_settler W" k]
    by (auto simp: run_ok_def store flush_settler cleared_ok)
qed

lemma flush_kept:
  assumes "all_kept slot look H W" and "inv (sw_store W)" and "k < length (st_shards (sw_settler W))"
  shows "all_kept slot look H (flush insert pre W k)"
proof -
  let ?b = "sh_buf (st_shards (sw_settler W) ! k)"
  obtain s' where ins: "insert [] (sw_store W) ?b = (s', Inr (), [])"
    using insert_available [OF assms(2)] by blast
  have sched: "sw_store_sched W = []" using assms(1) by (simp add: all_kept_def)
  have eff: "sw_store (flush insert pre W k) = (if ?b = [] then sw_store W else s')"
    "sw_store_sched (flush insert pre W k) = []"
    by (simp_all add: flush_store flush_store_sched sched ins Let_def)
  have "y \<in> set (buffered_orders (cleared (sw_settler W) k)) \<or>
      look (sw_store (flush insert pre W k)) (slot (o_UserID y)) (o_RequestID y) \<noteq> None" if y: "y \<in> H" for y
  proof (cases "y \<in> set ?b")
    case True
    then show ?thesis
      using insert_stores [OF assms(2) ins True] eff by auto
  next
    case False
    then consider "y \<in> set (buffered_orders (cleared (sw_settler W) k))"
      | x where "look (sw_store W) (slot (o_UserID y)) (o_RequestID y) = Some x"
      using assms(1) y cleared_buffered(2) [OF assms(3)] by (auto simp: all_kept_def)
    then show ?thesis
      using insert_grows [OF assms(2) ins] eff by cases auto
  qed
  then show ?thesis by (simp add: all_kept_def eff flush_settler)
qed

lemma foldl_flush:
  assumes "run_ok slot look inv s0 H W" and "set ks \<subseteq> {..<length (st_shards (sw_settler W))}"
  shows "run_ok slot look inv s0 H (foldl (flush insert pre) W ks)
    \<and> (all_kept slot look H W \<longrightarrow> all_kept slot look H (foldl (flush insert pre) W ks))"
  using assms
proof (induction ks arbitrary: W)
  case (Cons k ks)
  have k: "k < length (st_shards (sw_settler W))" using Cons.prems(2) by simp
  have ok: "run_ok slot look inv s0 H (flush insert pre W k)"
    by (rule flush_run_ok [OF Cons.prems(1) k])
  have kept: "all_kept slot look H W \<Longrightarrow> all_kept slot look H (flush insert pre W k)"
    using Cons.prems(1) k by (simp add: flush_kept run_ok_def)
  show ?case
    using Cons.IH [OF ok] Cons.prems(2) kept by simp
qed simp

lemma exec_action_run:
  assumes "run_ok slot look inv s0 H W"
  shows "run_ok slot look inv s0 (H \<union> set (handled [a])) (exec_action insert pre W a)
    \<and> (all_kept slot look H W \<longrightarrow>
         all_kept slot look (H \<union> set (handled [a])) (exec_action insert pre W a))"
proof (cases a)
  case (DoHandle ps now ev)
  show ?thesis
  proof (cases "ev_RequestID ev = []")
    case True
    with assms DoHandle show ?thesis
      by (simp add: exec_action_def Handle_missing)
  next
    case False
    have "settler_ok (sw_settler W)" using assms by (simp add: run_ok_def)
    note h = Handle_effect [OF this False, of ps now]
    show ?thesis
      using assms DoHandle False h by (auto simp: exec_action_def run_ok_def all_kept_def)
  qed
next
  case (DoWake k w)
  have *: "run_ok slot look inv s0 H V \<Longrightarrow> k < length (st_shards (sw_settler V)) \<Longrightarrow>
      run_ok slot look inv s0 H (flush insert pre V k) \<and>
      (all_kept slot look H V \<longrightarrow> all_kept slot look H (flush insert pre V k))" for V
    using flush_run_ok [of s0 H V k] flush_kept [of H V k] by (simp add: run_ok_def)
  let ?V = "W\<lparr>sw_settler := set_shard (sw_settler W) k ((st_shards (sw_settler W) ! k)\<lparr>sh_trigger := False\<rparr>)\<rparr>"
  show ?thesis
  proof (cases "k < length (st_shards (sw_settler W))")
    case True
    have b: "set (buffered_orders (sw_settler ?V)) = set (buffered_orders (sw_settler W))"
      using True by (auto simp: buffered_set set_shard_def nth_list_update split: if_splits)
    have "list_all2 same_request (sh_buf (st_shards (sw_settler W) ! k)) (sh_pending (st_shards (sw_settler W) ! k))"
      using assms True by (simp add: run_ok_def settler_ok_def)
    then have "settler_ok (sw_settler ?V)"
      using assms by (simp add: run_ok_def settler_ok_set_shard)
    then have "run_ok slot look inv s0 H ?V" "all_kept slot look H W \<Longrightarrow> all_kept slot look H ?V"
      using assms b by (simp_all add: run_ok_def all_kept_def)
    then show ?thesis
      using * [of ?V] * [of W] assms True DoWake
      by (auto simp: exec_action_def flushLoop_def Let_def set_shard_def split: wakeup.splits option.splits)
  qed (use assms DoWake in \<open>simp add: exec_action_def\<close>)
next
  case (DoSync prio)
  have "set (map_range prio [0..<length (st_shards (sw_settler W))]) \<subseteq> {..<length (st_shards (sw_settler W))}"
    by (auto simp: map_range_set)
  with DoSync assms show ?thesis
    using foldl_flush [OF assms] by (simp add: exec_action_def FlushSync_def)
qed

lemma handled_Cons: "set (handled (a # as)) = set (handled [a]) \<union> set (handled as)"
  by (cases a) auto

lemma settler_run:
  assumes "run_ok slot look inv s0 H W"
  shows "run_ok slot look inv s0 (H \<union> set (handled as)) (foldl (exec_action insert pre) W as)
    \<and> (all_kept slot look H W \<longrightarrow>
         all_kept slot look (H \<union> set (handled as)) (foldl (exec_action insert pre) W as))"
  using assms
proof (induction as arbitrary: H W)
  case (Cons a as)
  note step = exec_action_run [OF Cons.prems, of a pre]
  have "H \<union> set (handled (a # as)) = (H \<union> set (handled [a])) \<union> set (handled as)"
    by (subst handled_Cons) blast
  then show ?case
    using step Cons.IH [of "H \<union> set (handled [a])" "exec_action insert pre W a"]
    by (simp only: foldl_Cons) blast
qed simp

lemma foldl_flush_count [simp]:
  "length (st_shards (sw_settler (foldl (flush insert pre) W ks))) = length (st_shards (sw_settler W))"
  by (induction ks arbitrary: W) simp_all

lemma foldl_flush_buf:
  "j < length (st_shards (sw_settler W)) \<Longrightarrow>
     sh_buf (st_shards (sw_settler (foldl (flush insert pre) W ks)) ! j) =
     (if j \<in> set ks then [] else sh_buf (st_shards (sw_settler W) ! j))"
  by (induction ks arbitrary: W) (auto simp: flush_settler cleared_buf)

lemma foldl_flush_empties:
  assumes "set ks = {..<length (st_shards (sw_settler W))}"
  shows "buffered_orders (sw_settler (foldl (flush insert pre) W ks)) = []"
proof -
  have "set (buffered_orders (sw_settler (foldl (flush insert pre) W ks))) = {}"
    using assms by (auto simp: buffered_set foldl_flush_buf)
  then show ?thesis by simp
qed

text \<open>After a run and a final sync without failing inserts, every order given is stored.\<close>

lemma run_then_sync:
  assumes "inv s0" and "sw_store W = s0" and "settler_ok (sw_settler W)"
    and "buffered_orders (sw_settler W) = []" and "sw_store_sched W = []"
    and W': "W' = fst (FlushSync insert pre prio None (foldl (exec_action insert pre) W as))"
  shows "\<forall>y\<in>set (handled as). look (sw_store W') (slot (o_UserID y)) (o_RequestID y) \<noteq> None"
    and "\<forall>k rid. look (sw_store W') k rid = look s0 k rid \<or> look s0 k rid = None \<and>
        (\<exists>y\<in>set (handled as). look (sw_store W') k rid = Some (erase y) \<and>
            slot (o_UserID y) = k \<and> o_RequestID y = rid)"
    and "buffered_orders (sw_settler W') = []"
    and "settler_ok (sw_settler W') \<and> inv (sw_store W') \<and> sw_store_sched W' = []"
proof -
  have start: "run_ok slot look inv s0 {} W" "all_kept slot look {} W"
    using assms by (simp_all add: run_ok_def all_kept_def)
  let ?V = "foldl (exec_action insert pre) W as"
  have W'2: "W' = foldl (exec_action insert pre) W (as @ [DoSync prio])"
    using W' by (simp add: exec_action_def)
  have h: "set (handled (as @ [DoSync prio])) = set (handled as)"
    by (induction as rule: handled.induct) auto
  have ok: "run_ok slot look inv s0 (set (handled as)) W'" and kept: "all_kept slot look (set (handled as)) W'"
    using settler_run [OF start(1), of "as @ [DoSync prio]" pre] start(2) by (simp_all only: W'2 h Un_empty_left simp_thms)
  show empty: "buffered_orders (sw_settler W') = []"
    unfolding W' FlushSync_def fst_conv by (rule foldl_flush_empties) (auto simp: map_range_set)
  show "\<forall>y\<in>set (handled as). look (sw_store W') (slot (o_UserID y)) (o_RequestID y) \<noteq> None"
    using kept empty by (auto simp: all_kept_def)
  show "\<forall>k rid. look (sw_store W') k rid = look s0 k rid \<or> look s0 k rid = None \<and>
        (\<exists>y\<in>set (handled as). look (sw_store W') k rid = Some (erase y) \<and>
            slot (o_UserID y) = k \<and> o_RequestID y = rid)"
    using ok by (simp add: run_ok_def)
  show "settler_ok (sw_settler W') \<and> inv (sw_store W') \<and> sw_store_sched W' = []"
    using ok kept by (simp add: run_ok_def all_kept_def)
qed

end

section \<open>What a flush does to the wallets\<close>

definition spec_req :: "wallet \<Rightarrow> SettleReq \<Rightarrow> wallet" where
  "spec_req w x = spec_Settle w (sr_UserID x) (sr_RequestID x) (sr_ChargedMicros x)"

fun batch_small :: "wallet \<Rightarrow> SettleReq list \<Rightarrow> bool" where
  "batch_small w [] \<longleftrightarrow> True"
| "batch_small w (x # xs) \<longleftrightarrow>
     touch_small w (sr_UserID x) (sr_RequestID x) (sr_ChargedMicros x) \<and> batch_small (spec_req w x) xs"

definition reserved :: "wallet \<Rightarrow> string \<Rightarrow> bool" where
  "reserved w rid \<longleftrightarrow> (case w_marker w rid of Some p \<Rightarrow> 0 < p | None \<Rightarrow> False)"

context redis_kv
begin

lemma BatchSettle_refines:
  "batch_small (wallet_of R s) xs \<Longrightarrow>
     wallet_of R (fst (BatchSettle R [] s xs)) = foldl spec_req (wallet_of R s) xs"
proof (induction xs arbitrary: s)
  case (Cons x xs)
  let ?s = "fst (Settle R NoFault s (sr_UserID x) (sr_RequestID x) (sr_ChargedMicros x))"
  have w: "wallet_of R ?s = spec_req (wallet_of R s) x"
    unfolding spec_req_def using Cons.prems by (intro Settle_refines(1)) simp
  have "BatchSettle R [] s (x # xs) = BatchSettle R [] ?s xs"
    by (simp add: Settle_def Let_def split: prod.splits sum.splits)
  then show ?case
    using Cons.IH [of ?s] Cons.prems w by simp
qed simp

end

lemma spec_req_other: "r \<noteq> sr_RequestID x \<Longrightarrow> w_marker (spec_req w x) r = w_marker w r"
  by (auto simp: spec_req_def spec_Settle_def split: option.splits)

text \<open>Funds of a user: what it can spend and what is frozen.\<close>

definition funds :: "wallet \<Rightarrow> string \<Rightarrow> int" where
  "funds w u = w_bal w u + w_frozen w u"

lemma funds_spec_req:
  "funds (spec_req w x) u = funds w u -
     (if sr_UserID x = u \<and> reserved w (sr_RequestID x) then max (sr_ChargedMicros x) 0 else 0)"
  by (auto simp: funds_def spec_req_def spec_Settle_def reserved_def split: option.splits)

lemma funds_batch:
  assumes "distinct (map sr_RequestID xs)"
  shows "funds (foldl spec_req w xs) u = funds w u -
     sum_of (\<lambda>x. max (sr_ChargedMicros x) 0)
       (filter (\<lambda>x. sr_UserID x = u \<and> reserved w (sr_RequestID x)) xs)"
  using assms
proof (induction xs arbitrary: w)
  case (Cons x xs)
  have "reserved (spec_req w x) (sr_RequestID y) = reserved w (sr_RequestID y)" if "y \<in> set xs" for y
    using that Cons.prems by (auto simp: reserved_def spec_req_other image_iff)
  then have "filter (\<lambda>y. sr_UserID y = u \<and> reserved (spec_req w x) (sr_RequestID y)) xs =
      filter (\<lambda>y. sr_UserID y = u \<and> reserved w (sr_RequestID y)) xs"
    by (intro filter_cong) auto
  with Cons show ?case by (simp add: funds_spec_req sum_of_def)
qed (simp add: sum_of_def)

lemma settle_req_sel [simp]:
  "sr_UserID (settle_req x ev) = ev_UserID ev" "sr_RequestID (settle_req x ev) = ev_RequestID ev"
  by (simp_all add: settle_req_def)

text \<open>The charges of a batch, read off its orders.\<close>

definition order_charge :: "Order \<Rightarrow> int" where
  "order_charge x = (if o_Status x = StatusNoCharge then 0 else max (o_AmountMicros x) 0)"

lemma settle_reqs_sum:
  assumes "list_all2 same_request xs evs"
  shows "sum_of (\<lambda>q. max (sr_ChargedMicros q) 0)
      (filter (\<lambda>q. sr_UserID q = u \<and> P (sr_RequestID q)) (map2 settle_req xs evs)) =
    sum_of order_charge (filter (\<lambda>x. o_UserID x = u \<and> P (o_RequestID x)) xs)"
    and "map sr_RequestID (map2 settle_req xs evs) = map o_RequestID xs"
  using assms
  by (induction rule: list_all2_induct)
     (auto simp: sum_of_def same_request_def order_charge_def settle_req_def)

section \<open>Properties\<close>

lemma flush_redis:
  assumes "sh_buf (st_shards (sw_settler W) ! k) \<noteq> []"
    and "ins (sw_store_sched W) (sw_store W) (sh_buf (st_shards (sw_settler W) ! k)) = (s, Inr (), fs)"
  shows "sw_redis (flush ins (Some R) W k) = fst (BatchSettle R (sw_redis_sched W) (sw_redis W)
     (map2 settle_req (sh_buf (st_shards (sw_settler W) ! k)) (sh_pending (st_shards (sw_settler W) ! k))))"
  using assms by (simp add: flush_def Let_def split: prod.splits)


definition sample_event :: "string \<Rightarrow> string \<Rightarrow> EventStatus \<Rightarrow> Event" where
  "sample_event rid u st = \<lparr>ev_RequestID = rid, ev_UserID = u, ev_Model = ''gpt-4o'',
     ev_Provider = ''openai'', ev_Status = st, ev_PromptTokens = 1000, ev_CompletionTokens = 2000,
     ev_CacheTokens = 0, ev_TTFTMs = 3, ev_DurationMs = 9, ev_UpstreamUsageRaw = [],
     ev_Pricing = Some \<lparr>sn_InputPer1M = 1000000, sn_OutputPer1M = 3000000, sn_EffectiveAt = 0\<rparr>,
     ev_Timestamp = None\<rparr>"

lemma sample_event_sel [simp]:
  "ev_RequestID (sample_event rid u st) = rid" "ev_UserID (sample_event rid u st) = u"
  "ev_Status (sample_event rid u st) = st"
  by (simp_all add: sample_event_def)

lemma find_order_empty [simp]: "find_order rid (rows_of empty_pg) = None"
  by (simp add: empty_pg_def rows_of_def find_order_def)


text \<open>Theorem: What a flush bills is what it debits. Flushing a shard whose batch has distinct
request ids, with both services answering, stores the batch and changes each user's funds
(balance plus frozen) in Redis by exactly the amounts of that user's orders in the batch
that hold a reservation; no-charge orders cost nothing.\<close>

theorem flush_debits_what_it_bills:
  assumes "redis_kv R" and "pg_ok (sw_store W)" and "settler_ok (sw_settler W)"
    and k: "k < length (st_shards (sw_settler W))"
    and b: "b = sh_buf (st_shards (sw_settler W) ! k)" and "b \<noteq> []" and "distinct (map o_RequestID b)"
    and "sw_store_sched W = []" and "sw_redis_sched W = []"
    and "batch_small (wallet_of R (sw_redis W)) (map2 settle_req b (sh_pending (st_shards (sw_settler W) ! k)))"
    and W': "W' = flush (InsertOrders clock) (Some R) W k"
  shows "rows_of (sw_store W') = add_new (rows_of (sw_store W)) (map erase b) \<and>
    funds (wallet_of R (sw_redis W')) u = funds (wallet_of R (sw_redis W)) u -
      sum_of order_charge (filter (\<lambda>x. o_UserID x = u \<and> reserved (wallet_of R (sw_redis W)) (o_RequestID x)) b)"
proof -
  have la: "list_all2 same_request b (sh_pending (st_shards (sw_settler W) ! k))"
    using assms(3) k b by (simp add: settler_ok_def)
  obtain s where ins: "InsertOrders clock (sw_store_sched W) (sw_store W) b = (s, Inr (), [])"
    using pgs.insert_available [OF assms(2)] assms(8) by metis
  have "rows_of s = add_new (rows_of (sw_store W)) (map erase b)"
    using InsertOrders_effect [OF ins] by auto
  then have rows: "rows_of (sw_store W') = add_new (rows_of (sw_store W)) (map erase b)"
    using ins assms(6) by (simp add: W' flush_store b Let_def)
  have "sw_redis W' = fst (BatchSettle R [] (sw_redis W)
      (map2 settle_req b (sh_pending (st_shards (sw_settler W) ! k))))"
    using flush_redis [of W k "InsertOrders clock" s "[]" R] ins assms(6,9) by (simp add: W' b)
  then have "wallet_of R (sw_redis W') = foldl spec_req (wallet_of R (sw_redis W))
      (map2 settle_req b (sh_pending (st_shards (sw_settler W) ! k)))"
    using redis_kv.BatchSettle_refines [OF assms(1,10)] by simp
  then show ?thesis
    using rows funds_batch [of "map2 settle_req b (sh_pending (st_shards (sw_settler W) ! k))"]
      settle_reqs_sum [OF la] assms(7) by simp
qed

definition one_order_world :: "(pg, (string \<times> int) list) world" where
  "one_order_world =
     \<lparr>sw_settler = \<lparr>st_batch = 1, st_shards =
        [new_shard\<lparr>sh_buf := [sample_order ''r1'' ''u'' 30],
                   sh_pending := [sample_event ''r1'' ''u'' StatusCompleted]\<rparr>]\<rparr>,
      sw_store = empty_pg,
      sw_redis = [(''balance:u'', 500), (''frozen:u'', 40), (preKey ''r1'', 40)],
      sw_store_sched = [], sw_redis_sched = []\<rparr>"

theorem flush_debits_what_it_bills_witness:
  "funds (wallet_of mem_redis (sw_redis (flush (InsertOrders (\<lambda>_. 7)) (Some mem_redis) one_order_world 0))) ''u'' = 510"
proof -
  let ?b = "[sample_order ''r1'' ''u'' 30]"
  have "batch_small (wallet_of mem_redis (sw_redis one_order_world))
      (map2 settle_req ?b (sh_pending (st_shards (sw_settler one_order_world) ! 0)))"
    by (simp add: one_order_world_def settle_req_def sample_order_def sample_event_def touch_small_def
        small_def balKey_def frozenKey_def preKey_def)
  from flush_debits_what_it_bills [OF mem.redis_kv_axioms _ _ _ _ _ _ _ _ this refl, of "\<lambda>_. 7" "''u''"]
  show ?thesis
    by (simp add: one_order_world_def pg_ok_empty settler_ok_def new_shard_def same_request_def
        sample_order_def sample_event_def funds_def sum_of_def order_charge_def reserved_def
        balKey_def frozenKey_def preKey_def)
qed

text \<open>Theorem: A request is billed at the price of its start. An event that carries a price
snapshot becomes the same order whatever the price table holds when it is settled: the
amount at the snapshot's prices, or nothing and no completion tokens when it failed.\<close>

theorem snapshot_price_fixes_the_bill:
  assumes "ev_Pricing ev = Some sn"
  shows "orderFromEvent ps ev = orderFromEvent ps' ev \<and>
    o_AmountMicros (orderFromEvent ps ev) =
      (if ev_Status ev = StatusFailed then 0
       else CalculateAmount (ev_PromptTokens ev) (ev_CompletionTokens ev)
              \<lparr>InputPer1M = sn_InputPer1M sn, OutputPer1M = sn_OutputPer1M sn\<rparr>) \<and>
    (ev_Status ev = StatusFailed \<longleftrightarrow> o_Status (orderFromEvent ps ev) = StatusNoCharge) \<and>
    (ev_Status ev = StatusFailed \<longrightarrow> o_CompletionTokens (orderFromEvent ps ev) = 0)"
  using assms by (simp add: orderFromEvent_def priceFromEvent_def Let_def)

theorem snapshot_price_fixes_the_bill_witness:
  "orderFromEvent init_prices (sample_event ''r1'' ''u'' StatusCompleted) =
   orderFromEvent (UpdatePrice init_prices ''gpt-4o'' \<lparr>InputPer1M = 9, OutputPer1M = 9\<rparr>)
     (sample_event ''r1'' ''u'' StatusCompleted)"
  using snapshot_price_fixes_the_bill [of "sample_event ''r1'' ''u'' StatusCompleted"]
  by (simp add: sample_event_def)

lemma InsertOrders_rejected:
  "b \<noteq> [] \<Longrightarrow> InsertOrders clock (FailBefore # fs) db b = (db, Inl ErrService, fs)"
  by (simp add: InsertOrders_def InsertOrders_loop.simps)

lemma foldl_flush_rejected:
  assumes "sw_store_sched W = replicate m FailBefore" and "length ks \<le> m"
  shows "sw_store (foldl (flush (InsertOrders clock) pre) W ks) = sw_store W \<and>
    sw_redis (foldl (flush (InsertOrders clock) pre) W ks) = sw_redis W"
  using assms
proof (induction ks arbitrary: W m)
  case (Cons k ks)
  let ?W = "flush (InsertOrders clock) pre W k"
  obtain m' where m: "m = Suc m'" using Cons.prems(2) by (cases m) auto
  have "sw_store ?W = sw_store W \<and> sw_redis ?W = sw_redis W \<and>
      (sw_store_sched ?W = replicate m FailBefore \<or> sw_store_sched ?W = replicate m' FailBefore)"
    using Cons.prems(1) m by (simp add: flush_def Let_def InsertOrders_rejected)
  then show ?case
    using Cons.IH [of ?W m] Cons.IH [of ?W m'] Cons.prems(2) m by auto
qed simp

lemma sync_rejected:
  assumes "sw_store_sched W = replicate m FailBefore" and "length (st_shards (sw_settler W)) \<le> m"
  shows "snd (FlushSync (InsertOrders clock) pre prio None W) = Inr () \<and>
    buffered_orders (sw_settler (fst (FlushSync (InsertOrders clock) pre prio None W))) = [] \<and>
    sw_store (fst (FlushSync (InsertOrders clock) pre prio None W)) = sw_store W \<and>
    sw_redis (fst (FlushSync (InsertOrders clock) pre prio None W)) = sw_redis W"
proof -
  let ?ks = "map_range prio [0..<length (st_shards (sw_settler W))]"
  have "length ?ks = length (st_shards (sw_settler W))"
    using distinct_card [OF map_range_distinct [OF distinct_upt], of prio 0 "length (st_shards (sw_settler W))"]
    by (simp add: map_range_set)
  moreover have "buffered_orders (sw_settler (foldl (flush (InsertOrders clock) pre) W ?ks)) = []"
    by (rule pgs.foldl_flush_empties) (auto simp: map_range_set)
  ultimately show ?thesis
    using foldl_flush_rejected [OF assms(1), of ?ks clock pre] assms(2) by (simp add: FlushSync_def)
qed

text \<open>Theorem: A failed batch insert is lost without a trace. When the database rejects the
inserts of a sync, the rows leave the buffers, nothing is stored or settled, and the caller
of \<open>FlushSync\<close> is still told that every batch is persisted.\<close>

theorem failed_insert_loses_batch:
  assumes "sw_store_sched W = replicate m FailBefore" and "length (st_shards (sw_settler W)) \<le> m"
  shows "snd (FlushSync (InsertOrders clock) pre prio None W) = Inr () \<and>
    buffered_orders (sw_settler (fst (FlushSync (InsertOrders clock) pre prio None W))) = [] \<and>
    sw_store (fst (FlushSync (InsertOrders clock) pre prio None W)) = sw_store W \<and>
    sw_redis (fst (FlushSync (InsertOrders clock) pre prio None W)) = sw_redis W"
  by (rule sync_rejected [OF assms])

theorem failed_insert_loses_batch_witness:
  "sw_store (fst (FlushSync (InsertOrders (\<lambda>_. 7)) (Some mem_redis) [] None
      (one_order_world\<lparr>sw_store_sched := [FailBefore]\<rparr>))) = empty_pg"
  using failed_insert_loses_batch [of "one_order_world\<lparr>sw_store_sched := [FailBefore]\<rparr>" 1
      "\<lambda>_. 7" "Some mem_redis" "[]"]
  by (simp add: one_order_world_def)

text \<open>Theorem: The in-process sink never blocks and never reorders: of the events emitted while
nobody consumes, exactly the first ones that fit the channel are handed to the settler, in
order, when the sink is closed; the others are counted as dropped, and \<open>Emit\<close> never
reports an error.\<close>

theorem sink_delivers_prefix_in_order:
  assumes "sk_ch k = []" and "k' = foldl (\<lambda>k ev. fst (Sink_Emit k ev)) k evs"
  shows "snd (Sink_Close ps now (k', S)) = foldl (\<lambda>S ev. fst (Handle ps now S ev)) S (take (sk_cap k) evs) \<and>
    sk_droppedTotal k' = sk_droppedTotal k + (length evs - sk_cap k) \<and>
    (\<forall>k ev. snd (Sink_Emit k ev) = Inr ())"
proof -
  have "length (sk_ch k) \<le> sk_cap k \<Longrightarrow>
     foldl (\<lambda>k ev. fst (Sink_Emit k ev)) k evs =
       k\<lparr>sk_ch := take (sk_cap k) (sk_ch k @ evs),
         sk_droppedTotal := sk_droppedTotal k + (length (sk_ch k @ evs) - sk_cap k)\<rparr>" for k
    by (induction evs arbitrary: k) (auto simp: Sink_Emit_def take_Cons' )
  from this [of k] assms have "sk_ch k' = take (sk_cap k) evs"
    "sk_droppedTotal k' = sk_droppedTotal k + (length evs - sk_cap k)" by simp_all
  moreover have "Sink_handle ps now = (\<lambda>S ev. fst (Handle ps now S ev))"
    by (simp add: fun_eq_iff Sink_handle_def)
  ultimately show ?thesis by (simp add: Sink_Emit_def)
qed

theorem sink_delivers_prefix_in_order_witness:
  "sk_droppedTotal (foldl (\<lambda>k ev. fst (Sink_Emit k ev)) (NewSink 1)
     [sample_event ''r1'' ''u'' StatusCompleted, sample_event ''r2'' ''u'' StatusFailed]) = 1"
  using sink_delivers_prefix_in_order [OF _ refl, where k = "NewSink 1" and
      evs = "[sample_event ''r1'' ''u'' StatusCompleted, sample_event ''r2'' ''u'' StatusFailed]"]
  by (simp add: NewSink_def)

end
