(* ===== verification/Kafka_Consumer.thy ===== *)
theory Kafka_Consumer
  imports Settler
begin

text \<open>
  The event pipeline of multi-instance gateways: \<open>internal/billing/kafka.go\<close> publishes
  metering events, \<open>kafkaconsumer.go\<close> consumes them into a settler and commits offsets.
  The topic is one partition: a list of messages, each the event its JSON value decodes to
  or \<open>None\<close> when it does not decode. The broker keeps the committed offset of the group, if
  any. The consumer's loop is a step relation: producers append, the loop goes round with
  any fetch result, commits may fail, flushers wake up, and the process can crash and
  restart from the committed offset at any moment between rounds.
\<close>

section \<open>Publishing\<close>

type_synonym message = "Event option"

text \<open>
  The writer is asynchronous: \<open>Emit\<close> returns before delivery, and a message that cannot be
  delivered (\<open>delivered = False\<close>) is only logged.
\<close>

definition KafkaSink_Emit :: "int \<Rightarrow> bool \<Rightarrow> message list \<Rightarrow> Event \<Rightarrow> message list \<times> (go_error + unit)" where
  "KafkaSink_Emit now delivered topic ev =
     (let ev' = ev\<lparr>ev_Timestamp := Some now\<rparr>
      in ((if delivered then topic @ [Some ev'] else topic), Inr ()))"

section \<open>The consumer\<close>

text \<open>\<open>kc_pos\<close> is the reader's next offset; a batch entry is an offset with its message.\<close>

record ('s, 'r) kstate =
  kc_topic :: "message list"
  kc_committed :: "nat option"
  kc_pos :: nat
  kc_batch :: "(nat \<times> message) list"
  kc_firstAt :: int
  kc_world :: "('s, 'r) world"

definition kc_batchN :: nat where
  "kc_batchN = 500"

definition kc_maxWait :: int where
  "kc_maxWait = 200000"

definition handle_message :: "price_state \<Rightarrow> int \<Rightarrow> ('s, 'r) world \<Rightarrow> nat \<times> message \<Rightarrow> ('s, 'r) world" where
  "handle_message ps now W m =
     (case snd m of
        None \<Rightarrow> W
      | Some ev \<Rightarrow> W\<lparr>sw_settler := fst (Handle ps now (sw_settler W) ev)\<rparr>)"

definition commit_offset :: "(nat \<times> message) list \<Rightarrow> nat" where
  "commit_offset batch = Max (fst ` set batch) + 1"

text \<open>The closure \<open>flush\<close> of \<open>Run\<close>; \<open>fc\<close> is the outcome of the commit.\<close>

definition consumer_flush ::
  "'s inserter \<Rightarrow> 'r redis option \<Rightarrow> price_state \<Rightarrow> int \<Rightarrow> nat list \<Rightarrow> fault \<Rightarrow> ('s, 'r) kstate \<Rightarrow> ('s, 'r) kstate" where
  "consumer_flush ins pre ps now prio fc K =
     (if kc_batch K = [] then K
      else
        let W1 = foldl (handle_message ps now) (kc_world K) (kc_batch K) in
        case FlushSync ins pre prio None W1 of
          (W2, Inl e) \<Rightarrow> K\<lparr>kc_world := W2\<rparr>
        | (W2, Inr _) \<Rightarrow>
            (let (c, _) = call_service fc (kc_committed K) (Some (commit_offset (kc_batch K)), Inr ())
             in K\<lparr>kc_world := W2, kc_committed := c, kc_batch := [], kc_firstAt := 0\<rparr>))"

text \<open>
  One round of the loop. \<open>CtxDone\<close>: the context is cancelled (before or during the fetch);
  \<open>Fetched t\<close>: the next message arrived, \<open>t\<close> being the clock when its batch age is read.
  The boolean is \<open>False\<close> when \<open>Run\<close> returns.
\<close>

definition append_message :: "int \<Rightarrow> ('s, 'r) kstate \<Rightarrow> ('s, 'r) kstate" where
  "append_message now K =
     K\<lparr>kc_firstAt := (if kc_batch K = [] then now else kc_firstAt K), kc_pos := kc_pos K + 1,
       kc_batch := kc_batch K @ [(kc_pos K, kc_topic K ! kc_pos K)]\<rparr>"

datatype fetch = CtxDone | DeadlineExceeded | FetchFailed | Fetched int

definition Run_round ::
  "'s inserter \<Rightarrow> 'r redis option \<Rightarrow> price_state \<Rightarrow> int \<Rightarrow> nat list \<Rightarrow> fault \<Rightarrow> fetch \<Rightarrow> ('s, 'r) kstate
     \<Rightarrow> ('s, 'r) kstate \<times> bool" where
  "Run_round ins pre ps now prio fc f K =
     (case f of
        CtxDone \<Rightarrow> (consumer_flush ins pre ps now prio fc K, False)
      | DeadlineExceeded \<Rightarrow> (consumer_flush ins pre ps now prio fc K, True)
      | FetchFailed \<Rightarrow> (K, True)
      | Fetched t \<Rightarrow>
          if kc_pos K < length (kc_topic K) then
            let K1 = append_message now K
            in if length (kc_batch K1) \<ge> kc_batchN \<or> t - kc_firstAt K1 \<ge> kc_maxWait
               then (consumer_flush ins pre ps t prio fc K1, True)
               else (K1, True)
          else (K, True))"

text \<open>
  A crash loses everything in memory; the restarted group resumes at its committed offset,
  or at the end of the topic when it has none (\<open>StartOffset: kafka.LastOffset\<close>).
\<close>

definition restart :: "nat \<Rightarrow> int \<Rightarrow> ('s, 'r) kstate \<Rightarrow> ('s, 'r) kstate" where
  "restart cpus batch K =
     K\<lparr>kc_world := (kc_world K)\<lparr>sw_settler := NewSettler cpus batch\<rparr>, kc_batch := [], kc_firstAt := 0,
       kc_pos := (case kc_committed K of Some c \<Rightarrow> c | None \<Rightarrow> length (kc_topic K))\<rparr>"

inductive kstep :: "'s inserter \<Rightarrow> 'r redis option \<Rightarrow> ('s, 'r) kstate \<Rightarrow> ('s, 'r) kstate \<Rightarrow> bool"
  for ins pre where
  produce: "kstep ins pre K (K\<lparr>kc_topic := kc_topic K @ [m]\<rparr>)"
| round: "kstep ins pre K (fst (Run_round ins pre ps now prio fc f K))"
| wake: "k < length (st_shards (sw_settler (kc_world K))) \<Longrightarrow>
     kstep ins pre K (K\<lparr>kc_world := fst (flushLoop ins pre (kc_world K) k w)\<rparr>)"
| crash: "kstep ins pre K (restart cpus batch K)"

inductive_cases kstepE: "kstep ins pre K K'"

definition start_state :: "message list \<Rightarrow> nat option \<Rightarrow> nat \<Rightarrow> ('s, 'r) world \<Rightarrow> ('s, 'r) kstate" where
  "start_state topic committed pos W =
     \<lparr>kc_topic = topic, kc_committed = committed, kc_pos = pos, kc_batch = [], kc_firstAt = 0, kc_world = W\<rparr>"

section \<open>Durability\<close>

text \<open>What has to be in the database for a message to be done with.\<close>

definition durable ::
  "(string \<Rightarrow> nat) \<Rightarrow> ('s \<Rightarrow> nat \<Rightarrow> string \<Rightarrow> Order option) \<Rightarrow> 's \<Rightarrow> message \<Rightarrow> bool" where
  "durable slot look s m \<longleftrightarrow>
     (case m of
        None \<Rightarrow> True
      | Some ev \<Rightarrow> ev_RequestID ev = [] \<or> look s (slot (ev_UserID ev)) (ev_RequestID ev) \<noteq> None)"

definition consumer_inv ::
  "(string \<Rightarrow> nat) \<Rightarrow> ('s \<Rightarrow> nat \<Rightarrow> string \<Rightarrow> Order option) \<Rightarrow> ('s \<Rightarrow> bool) \<Rightarrow> nat \<Rightarrow> ('s, 'r) kstate \<Rightarrow> bool" where
  "consumer_inv slot look invar c0 K \<longleftrightarrow>
     invar (sw_store (kc_world K)) \<and> sw_store_sched (kc_world K) = [] \<and>
     settler_ok (sw_settler (kc_world K)) \<and> buffered_orders (sw_settler (kc_world K)) = [] \<and>
     kc_pos K \<le> length (kc_topic K) \<and>
     (\<forall>(i, m)\<in>set (kc_batch K). c0 \<le> i \<and> i < kc_pos K \<and> m = kc_topic K ! i) \<and>
     (kc_batch K \<noteq> [] \<longrightarrow> commit_offset (kc_batch K) = kc_pos K) \<and>
     (\<forall>i. c0 \<le> i \<and> i < kc_pos K \<longrightarrow> i \<in> fst ` set (kc_batch K) \<or>
        durable slot look (sw_store (kc_world K)) (kc_topic K ! i)) \<and>
     (\<exists>c. kc_committed K = Some c \<and> c0 \<le> c \<and> c \<le> kc_pos K \<and>
        (\<forall>i. c0 \<le> i \<and> i < c \<longrightarrow> durable slot look (sw_store (kc_world K)) (kc_topic K ! i)))"

definition message_order :: "price_state \<Rightarrow> message \<Rightarrow> Order list" where
  "message_order ps m =
     (case m of Some ev \<Rightarrow> if ev_RequestID ev = [] then [] else [orderFromEvent ps ev] | None \<Rightarrow> [])"

lemma handle_messages_run:
  "foldl (handle_message ps now) W ms =
     foldl (exec_action ins pre) W (concat (map (\<lambda>m. case snd m of Some ev \<Rightarrow> [DoHandle ps now ev] | None \<Rightarrow> []) ms))"
proof (induction ms arbitrary: W)
  case (Cons m ms)
  then show ?case
    by (cases m; cases "snd m") (simp_all add: handle_message_def exec_action_def)
qed simp

lemma handled_messages:
  "set (handled (concat (map (\<lambda>m. case snd m of Some ev \<Rightarrow> [DoHandle ps now ev] | None \<Rightarrow> []) ms))) =
     (\<Union>m\<in>set ms. set (message_order ps (snd m)))"
proof (induction ms)
  case (Cons m ms)
  then show ?case by (cases "snd m") (simp_all add: message_order_def)
qed simp

context order_store
begin

lemma durable_mono:
  assumes "\<And>k rid x. look s k rid = Some x \<Longrightarrow> look s' k rid = Some x" and "durable slot look s m"
  shows "durable slot look s' m"
  using assms by (fastforce simp: durable_def split: option.splits)

lemma consumer_flush_effect:
  assumes K: "consumer_inv slot look inv c0 K"
    and K': "K' = consumer_flush insert pre ps now prio fc K"
  shows "consumer_inv slot look inv c0 K' \<and> kc_batch K' = [] \<and> kc_pos K' = kc_pos K \<and>
    kc_topic K' = kc_topic K \<and> (\<exists>c. kc_committed K' = Some c \<and> c \<le> kc_pos K) \<and>
    (fc = NoFault \<and> kc_batch K \<noteq> [] \<longrightarrow> kc_committed K' = Some (kc_pos K)) \<and>
    (kc_batch K = [] \<longrightarrow> K' = K)"
proof (cases "kc_batch K = []")
  case True
  then have "K' = K" using K' by (simp add: consumer_flush_def)
  with True K show ?thesis by (auto simp: consumer_inv_def)
next
  case False
  let ?as = "concat (map (\<lambda>m. case snd m of Some ev \<Rightarrow> [DoHandle ps now ev] | None \<Rightarrow> []) (kc_batch K))"
  let ?s = "sw_store (kc_world K)"
  define W2 where "W2 = fst (FlushSync insert pre prio None (foldl (exec_action insert pre) (kc_world K) ?as))"
  have eq: "K' = K\<lparr>kc_world := W2, kc_batch := [], kc_firstAt := 0,
      kc_committed := fst (call_service fc (kc_committed K) (Some (commit_offset (kc_batch K)), Inr () :: go_error + unit))\<rparr>"
    using False K' unfolding consumer_flush_def handle_messages_run [where ins = insert and pre = pre]
    by (cases fc) (simp_all add: W2_def FlushSync_def Let_def)
  have pre: "inv ?s" "settler_ok (sw_settler (kc_world K))" "buffered_orders (sw_settler (kc_world K)) = []"
    "sw_store_sched (kc_world K) = []" "commit_offset (kc_batch K) = kc_pos K"
    using K False by (simp_all add: consumer_inv_def)
  note run = run_then_sync [OF pre(1) refl pre(2-4) W2_def]
  have grows: "look (sw_store W2) k rid = Some x" if "look ?s k rid = Some x" for k rid x
    using run(2) [rule_format, of k rid] that by auto
  have new: "durable slot look (sw_store W2) m" if "(i, m) \<in> set (kc_batch K)" for i m
  proof (cases m)
    case (Some ev)
    show ?thesis
    proof (cases "ev_RequestID ev = []")
      case False
      then have "orderFromEvent ps ev \<in> set (handled ?as)"
        using that Some unfolding handled_messages by (force simp: message_order_def)
      with run(1) show ?thesis using Some by (fastforce simp: durable_def)
    qed (simp add: Some durable_def)
  qed (simp add: durable_def)
  have dn: "durable slot look (sw_store W2) (kc_topic K ! i)" if i: "c0 \<le> i" "i < kc_pos K" for i
  proof -
    have "i \<in> fst ` set (kc_batch K) \<or> durable slot look ?s (kc_topic K ! i)"
      using K i by (simp add: consumer_inv_def)
    moreover have "(i, kc_topic K ! i) \<in> set (kc_batch K)" if "i \<in> fst ` set (kc_batch K)"
      using K that by (fastforce simp: consumer_inv_def)
    ultimately show ?thesis
      using new durable_mono grows by blast
  qed
  obtain c where c: "kc_committed K = Some c" "c0 \<le> c" "c \<le> kc_pos K"
    using K by (auto simp: consumer_inv_def)
  obtain c' where c': "kc_committed K' = Some c'" "c0 \<le> c'" "c' \<le> kc_pos K" "fc = NoFault \<Longrightarrow> c' = kc_pos K"
    using c pre(5) eq by (cases fc) auto
  have "consumer_inv slot look inv c0 K'"
    using K run(3,4) dn c' unfolding consumer_inv_def by (simp add: eq)
  with c' eq False show ?thesis by auto
qed

lemma append_message_inv:
  assumes K: "consumer_inv slot look inv c0 K" and pos: "kc_pos K < length (kc_topic K)"
  shows "consumer_inv slot look inv c0 (append_message now K)"
proof -
  have b: "\<forall>x\<in>fst ` set (kc_batch K). x < kc_pos K"
    using K by (auto simp: consumer_inv_def)
  then have "Max (fst ` set (kc_batch (append_message now K))) = kc_pos K"
    by (intro Max_eqI) (auto simp: append_message_def)
  then have off: "commit_offset (kc_batch (append_message now K)) = kc_pos K + 1"
    by (simp add: commit_offset_def)
  obtain c where c: "kc_committed K = Some c" "c0 \<le> c" "c \<le> kc_pos K"
    "\<forall>i. c0 \<le> i \<and> i < c \<longrightarrow> durable slot look (sw_store (kc_world K)) (kc_topic K ! i)"
    using K by (auto simp: consumer_inv_def)
  have batch: "\<forall>(i, m)\<in>set (kc_batch (append_message now K)). c0 \<le> i \<and> i < kc_pos K + 1 \<and> m = kc_topic K ! i"
    using K c(2,3) by (fastforce simp: consumer_inv_def append_message_def)
  have cover: "i \<in> fst ` set (kc_batch (append_message now K)) \<or>
      durable slot look (sw_store (kc_world K)) (kc_topic K ! i)" if "c0 \<le> i" "i < kc_pos K + 1" for i
    using K that by (cases "i = kc_pos K") (auto simp: consumer_inv_def append_message_def)
  show ?thesis
    using K pos off batch cover c unfolding consumer_inv_def by (simp add: append_message_def)
qed

lemma kstep_inv:
  assumes "kstep insert pre K K'" and K: "consumer_inv slot look inv c0 K"
  shows "consumer_inv slot look inv c0 K'"
  using assms(1)
proof (cases rule: kstep.cases)
  case (produce m)
  show ?thesis
    using K unfolding consumer_inv_def produce by (auto simp: nth_append)
next
  case (round ps now prio fc f)
  note fl = consumer_flush_effect [OF _ refl, THEN conjunct1]
  show ?thesis
  proof (cases f)
    case (Fetched t)
    then show ?thesis
      using K append_message_inv [OF K, of now]
      by (auto simp: round Run_round_def Let_def fl)
  qed (use K in \<open>simp_all add: round Run_round_def fl\<close>)
next
  case (wake k w)
  let ?W = "kc_world K" and ?V = "fst (flushLoop insert pre (kc_world K) k w)"
  have "run_ok slot look inv (sw_store ?W) {} ?W" "all_kept slot look {} ?W"
    using K by (simp_all add: consumer_inv_def run_ok_def all_kept_def)
  then have V: "run_ok slot look inv (sw_store ?W) {} ?V" "all_kept slot look {} ?V"
    using exec_action_run [of "sw_store ?W" "{}" ?W "DoWake k w" pre] wake(2)
    by (simp_all add: exec_action_def)
  then have "durable slot look (sw_store ?V) = durable slot look (sw_store ?W)"
    by (auto simp: run_ok_def durable_def fun_eq_iff split: option.splits)
  with K V show ?thesis
    by (simp add: wake(1) consumer_inv_def run_ok_def all_kept_def)
next
  case (crash cpus batch)
  show ?thesis
    using K unfolding consumer_inv_def crash by (auto simp: restart_def settler_ok_new)
qed

text \<open>
  Draining: from a state satisfying the invariant, fetching the rest of the topic and then
  meeting a quiet period leaves everything durable and committed.
\<close>

lemma drain_fetch:
  assumes K: "consumer_inv slot look inv c0 K" and pos: "kc_pos K < length (kc_topic K)"
    and K': "K' = fst (Run_round insert pre ps now prio NoFault (Fetched t) K)"
  shows "consumer_inv slot look inv c0 K' \<and> kc_pos K' = kc_pos K + 1 \<and> kc_topic K' = kc_topic K \<and>
    (kc_batch K' = [] \<longrightarrow> kc_committed K' = Some (kc_pos K'))"
proof -
  let ?K1 = "append_message now K"
  have "kc_pos ?K1 = kc_pos K + 1" "kc_topic ?K1 = kc_topic K" "kc_batch ?K1 \<noteq> []"
    by (simp_all add: append_message_def)
  then show ?thesis
    using pos append_message_inv [OF K pos, of now]
      consumer_flush_effect [OF append_message_inv [OF K pos, of now] refl, of pre ps t prio NoFault]
    unfolding K' by (auto simp: Run_round_def Let_def)
qed

lemma drain:
  assumes "consumer_inv slot look inv c0 K" and "kc_batch K = [] \<longrightarrow> kc_committed K = Some (kc_pos K)"
    and "K' = fst (Run_round insert pre ps now prio NoFault DeadlineExceeded
       (((\<lambda>K. fst (Run_round insert pre ps now prio NoFault (Fetched t) K)) ^^ (length (kc_topic K) - kc_pos K)) K))"
  shows "consumer_inv slot look inv c0 K' \<and> kc_batch K' = [] \<and> kc_topic K' = kc_topic K \<and>
    kc_committed K' = Some (length (kc_topic K))"
  using assms
proof (induction "length (kc_topic K) - kc_pos K" arbitrary: K)
  case 0
  then have "kc_pos K = length (kc_topic K)" by (simp add: consumer_inv_def)
  then show ?case
    using 0 consumer_flush_effect [OF 0(2) refl, of pre ps now prio NoFault]
    by (auto simp: Run_round_def)
next
  case (Suc n)
  define K1 where "K1 = fst (Run_round insert pre ps now prio NoFault (Fetched t) K)"
  have pos: "kc_pos K < length (kc_topic K)" using Suc(2) by simp
  note f = drain_fetch [OF Suc(3) pos K1_def]
  have n: "n = length (kc_topic K1) - kc_pos K1" using Suc(2) f by simp
  have "K' = fst (Run_round insert pre ps now prio NoFault DeadlineExceeded
       (((\<lambda>K. fst (Run_round insert pre ps now prio NoFault (Fetched t) K)) ^^ (length (kc_topic K1) - kc_pos K1)) K1))"
    using Suc(5) unfolding Suc(2) [symmetric] n [symmetric] by (simp only: funpow_Suc_right comp_def K1_def)
  with Suc(1) [OF n] f show ?case by simp
qed

end

lemma consumer_inv_start:
  "pg_ok db \<Longrightarrow> c0 \<le> length topic \<Longrightarrow>
     consumer_inv (\<lambda>_. 0) pg_look pg_ok c0
       (start_state topic (Some c0) c0
          \<lparr>sw_settler = NewSettler cpus batch, sw_store = db, sw_redis = rd,
           sw_store_sched = [], sw_redis_sched = gs\<rparr>)"
  by (auto simp: consumer_inv_def start_state_def settler_ok_new)

section \<open>Properties\<close>


definition demo_world :: "(pg, (string \<times> int) list) world" where
  "demo_world = \<lparr>sw_settler = NewSettler 8 500, sw_store = empty_pg, sw_redis = [],
     sw_store_sched = [], sw_redis_sched = []\<rparr>"

definition demo_state :: "(pg, (string \<times> int) list) kstate" where
  "demo_state = fst (Run_round (InsertOrders (\<lambda>_. 7)) (Some mem_redis) init_prices 5 [] NoFault CtxDone
     (fst (Run_round (InsertOrders (\<lambda>_. 7)) (Some mem_redis) init_prices 5 [] NoFault (Fetched 6)
       ((start_state [] (Some 0) 0 demo_world)\<lparr>kc_topic :=
          kc_topic (start_state [] (Some 0) 0 demo_world) @ [Some (sample_event ''r1'' ''u'' StatusCompleted)]\<rparr>))))"




text \<open>Theorem: Offsets are committed for events that were never stored. When the database
rejects the settler's inserts (for as many statements as the settler has shards), a round
that fetches an event and a quiet round after it commit its offset and empty every buffer,
and the database is unchanged: the event is not redelivered and has no order, contrary to
the durable-before-commit comment of the loop.\<close>

theorem rejected_insert_commits_anyway:
  assumes "sw_store_sched W = replicate m FailBefore" and "length (st_shards (sw_settler W)) \<le> m"
    and "t - now < kc_maxWait"
    and "K' = fst (Run_round (InsertOrders clock) pre ps now prio NoFault DeadlineExceeded
       (fst (Run_round (InsertOrders clock) pre ps now prio NoFault (Fetched t)
          (start_state [Some ev] (Some 0) 0 W))))"
  shows "kc_committed K' = Some 1 \<and> kc_batch K' = [] \<and>
    buffered_orders (sw_settler (kc_world K')) = [] \<and> sw_store (kc_world K') = sw_store W"
proof -
  let ?V = "W\<lparr>sw_settler := fst (Handle ps now (sw_settler W) ev)\<rparr>"
  have len: "length (st_shards (sw_settler ?V)) = length (st_shards (sw_settler W))"
    by (simp add: Handle_def Let_def)
  have K': "kc_committed K' = Some 1" "kc_batch K' = []"
    "kc_world K' = fst (FlushSync (InsertOrders clock) pre prio None ?V)"
    using assms(3,4)
    by (simp_all add: Run_round_def start_state_def append_message_def kc_batchN_def consumer_flush_def
        handle_message_def commit_offset_def FlushSync_def Let_def)
  have "sw_store_sched ?V = replicate m FailBefore" "length (st_shards (sw_settler ?V)) \<le> m"
    using assms(1,2) len by simp_all
  from sync_rejected [OF this, of clock pre prio] show ?thesis
    using K' by simp
qed

theorem rejected_insert_commits_anyway_witness:
  "kc_committed (fst (Run_round (InsertOrders (\<lambda>_. 7)) (Some mem_redis) init_prices 5 [] NoFault DeadlineExceeded
       (fst (Run_round (InsertOrders (\<lambda>_. 7)) (Some mem_redis) init_prices 5 [] NoFault (Fetched 6)
          (start_state [Some (sample_event ''r1'' ''u'' StatusCompleted)] (Some 0) 0
             (demo_world\<lparr>sw_store_sched := replicate 8 FailBefore\<rparr>)))))) = Some 1"
  using rejected_insert_commits_anyway [OF _ _ _ refl, of "demo_world\<lparr>sw_store_sched := replicate 8 FailBefore\<rparr>" 8 6 5]
  by (simp add: demo_world_def NewSettler_def kc_maxWait_def)

text \<open>Theorem: Before its first commit a group does not resume, it skips. A consumer whose group
has no committed offset and that crashes after fetching messages restarts at the end of
the topic: nothing it had fetched is fetched again, and nothing was stored.\<close>

theorem crash_before_first_commit_skips:
  assumes "kc_committed K = None"
  shows "kc_pos (restart cpus batch K) = length (kc_topic K) \<and> kc_batch (restart cpus batch K) = [] \<and>
    buffered_orders (sw_settler (kc_world (restart cpus batch K))) = [] \<and>
    sw_store (kc_world (restart cpus batch K)) = sw_store (kc_world K) \<and>
    (\<forall>pre ps now prio fc f. fst (Run_round (InsertOrders clock) pre ps now prio fc f (restart cpus batch K))
       = restart cpus batch K)"
  using assms by (auto simp: restart_def Run_round_def consumer_flush_def split: fetch.splits)

theorem crash_before_first_commit_skips_witness:
  "kc_pos (restart 8 500 (append_message 5
     (start_state [Some (sample_event ''r1'' ''u'' StatusCompleted)] None 0 demo_world))) = 1"
  using crash_before_first_commit_skips [of "append_message 5
     (start_state [Some (sample_event ''r1'' ''u'' StatusCompleted)] None 0 demo_world)" 8 500]
  by (simp add: start_state_def append_message_def)

end
