(* ===== verification/Payment.thy ===== *)
theory Payment
  imports Decimal Metering
begin

text \<open>
  \<open>internal/payment\<close>: recharge orders and their payment (\<open>payment.go\<close>), the Stripe channel
  (\<open>stripe.go\<close>) and the webhook handler of \<open>internal/portal\<close>. The state is the tables
  \<open>recharges\<close> and \<open>payments\<close>; a transaction takes effect at its commit. \<open>topUp\<close>, the function
  the service is built with, and the channel adapters it registers are arguments. HTTP and
  the HMAC are parameters.
\<close>

section \<open>Tables\<close>

record recharge =
  rg_id :: int
  rg_user :: int
  rg_amount :: int
  rg_status :: string
  rg_key :: string

record payment =
  py_recharge :: int
  py_channel :: string
  py_txn :: string
  py_amount :: int
  py_raw :: string

record paydb =
  pay_recharges :: "recharge list"
  pay_payments :: "payment list"
  pay_seq :: int

definition empty_pay :: paydb where
  "empty_pay = \<lparr>pay_recharges = [], pay_payments = [], pay_seq = 0\<rparr>"

definition find_recharge :: "paydb \<Rightarrow> int \<Rightarrow> recharge option" where
  "find_recharge db i = find (\<lambda>r. rg_id r = i) (pay_recharges db)"

section \<open>Recharge\<close>

text \<open>
  \<open>gen\<close> is the key generated for a client that sent none; \<open>known\<close> tells the ids of the table
  \<open>users\<close>, which the column \<open>user_id\<close> references.
\<close>

definition Recharge ::
  "(int \<Rightarrow> bool) \<Rightarrow> string \<Rightarrow> fault \<Rightarrow> paydb \<Rightarrow> int \<Rightarrow> int \<Rightarrow> string \<Rightarrow> paydb \<times> (go_error + int)" where
  "Recharge known gen f db userID amountMicros idempotencyKey =
     (if amountMicros \<le> 0 then (db, Inl ErrAmount)
      else
        let key = (if idempotencyKey = [] then ''srv-'' @ gen else idempotencyKey);
            next = pay_seq db + 1; db1 = db\<lparr>pay_seq := next\<rparr>
        in call_service f db
             (case find (\<lambda>r. rg_key r = key) (pay_recharges db) of
                Some r \<Rightarrow> (db1, Inr (rg_id r))
              | None \<Rightarrow>
                  if \<not> known userID then (db1, Inl ErrService)
                  else (db1\<lparr>pay_recharges := pay_recharges db @
                      [\<lparr>rg_id = next, rg_user = userID, rg_amount = amountMicros,
                        rg_status = ''PENDING'', rg_key = key\<rparr>]\<rparr>, Inr next)))"

section \<open>Settlement\<close>

type_synonym 'c topup = "int \<Rightarrow> int \<Rightarrow> 'c \<Rightarrow> 'c \<times> (go_error + unit)"

definition insert_payment :: "paydb \<Rightarrow> payment \<Rightarrow> go_error + paydb option" where
  "insert_payment db p =
     (if list_ex (\<lambda>q. py_channel q = py_channel p \<and> py_txn q = py_txn p) (pay_payments db) then Inr None
      else if find_recharge db (py_recharge p) = None then Inl ErrService
      else Inr (Some (db\<lparr>pay_payments := pay_payments db @ [p]\<rparr>)))"

definition mark_paid :: "paydb \<Rightarrow> int \<Rightarrow> paydb" where
  "mark_paid db i = db\<lparr>pay_recharges :=
     map (\<lambda>r. if rg_id r = i \<and> rg_status r = ''PENDING'' then r\<lparr>rg_status := ''PAID''\<rparr> else r)
       (pay_recharges db)\<rparr>"

text \<open>
  The statements of the transaction see their own writes; a statement that fails (\<open>fs\<close>) or
  an early return rolls everything back. The credit follows the commit.
\<close>

definition SettleCallback ::
  "'c topup \<Rightarrow> sched \<Rightarrow> paydb \<times> 'c \<Rightarrow> int \<Rightarrow> string \<Rightarrow> string \<Rightarrow> int \<Rightarrow> string \<Rightarrow> (paydb \<times> 'c) \<times> (go_error + unit)" where
  "SettleCallback topUp fs s rechargeID channel txnID amountMicros raw =
     (let (db, c) = s; (f0, fs0) = pop_fault fs; (f1, fs1) = pop_fault fs0; (f2, fs2) = pop_fault fs1;
          (f3, fs3) = pop_fault fs2; (f4, fs4) = pop_fault fs3
      in if f0 \<noteq> NoFault \<or> f1 \<noteq> NoFault then (s, Inl ErrService)
         else case insert_payment db
                     \<lparr>py_recharge = rechargeID, py_channel = channel, py_txn = txnID,
                      py_amount = amountMicros, py_raw = raw\<rparr> of
           Inl e \<Rightarrow> (s, Inl e)
         | Inr None \<Rightarrow> (s, Inr ())
         | Inr (Some db1) \<Rightarrow>
             if f2 \<noteq> NoFault then (s, Inl ErrService)
             else if \<not> list_ex (\<lambda>r. rg_id r = rechargeID \<and> rg_status r = ''PENDING'') (pay_recharges db1)
                  then (s, Inl ErrNotPending)
             else if f3 \<noteq> NoFault then (s, Inl ErrService)
             else
               let db2 = mark_paid db1 rechargeID in
               case find_recharge db2 rechargeID of
                 None \<Rightarrow> (s, Inl ErrNoRows)
               | Some r \<Rightarrow>
                   (case call_service f4 db (db2, Inr ()) of
                      (db3, Inl e) \<Rightarrow> ((db3, c), Inl e)
                    | (db3, Inr _) \<Rightarrow>
                        (case topUp (rg_user r) amountMicros c of (c', t) \<Rightarrow> ((db3, c'), t))))"

section \<open>Paying\<close>

type_synonym channels = "string \<rightharpoonup> (int \<Rightarrow> int \<Rightarrow> go_error + string)"

definition query_recharge :: "fault \<Rightarrow> paydb \<Rightarrow> int \<Rightarrow> go_error + recharge" where
  "query_recharge f db i =
     snd (call_service f () ((), case find_recharge db i of Some r \<Rightarrow> Inr r | None \<Rightarrow> Inl ErrNoRows))"

definition Pay ::
  "channels \<Rightarrow> 'c topup \<Rightarrow> sched \<Rightarrow> paydb \<times> 'c \<Rightarrow> int \<Rightarrow> string \<Rightarrow> (paydb \<times> 'c) \<times> (go_error + string)" where
  "Pay chans topUp fs s rechargeID channelName =
     (let (f, fs') = pop_fault fs in
      case chans channelName of
        None \<Rightarrow> (s, Inl ErrUnknownChannel)
      | Some ch \<Rightarrow>
          (case query_recharge f (fst s) rechargeID of
             Inl e \<Rightarrow> (s, Inl e)
           | Inr r \<Rightarrow>
               if rg_status r = ''PAID'' then (s, Inl ErrAlreadyPaid)
               else case ch rechargeID (rg_amount r) of
                      Inl e \<Rightarrow> (s, Inl e)
                    | Inr txnID \<Rightarrow>
                        if channelName = ''mock'' then
                          (case SettleCallback topUp fs' s rechargeID channelName txnID (rg_amount r)
                                  ''{\"mock\":true}'' of
                             (s', Inl e) \<Rightarrow> (s', Inl e)
                           | (s', Inr _) \<Rightarrow> (s', Inr txnID))
                        else (s, Inr txnID)))"

definition SettleByTxn ::
  "'c topup \<Rightarrow> sched \<Rightarrow> paydb \<times> 'c \<Rightarrow> string \<Rightarrow> string \<Rightarrow> (paydb \<times> 'c) \<times> (go_error + unit)" where
  "SettleByTxn topUp fs s channel txnID =
     (let (f, fs') = pop_fault fs in
      case snd (call_service f () ((),
             case find (\<lambda>p. py_channel p = channel \<and> py_txn p = txnID) (pay_payments (fst s)) of
               Some p \<Rightarrow> Inr (py_recharge p) | None \<Rightarrow> Inl ErrNoRows)) of
        Inl e \<Rightarrow> (s, Inl e)
      | Inr rechargeID \<Rightarrow>
          SettleCallback topUp fs' s rechargeID channel txnID 0 ''{\"via\":\"settle_by_txn\"}'')"

definition RechargeStatus :: "fault \<Rightarrow> paydb \<Rightarrow> int \<Rightarrow> go_error + string" where
  "RechargeStatus f db i = (case query_recharge f db i of Inl e \<Rightarrow> Inl e | Inr r \<Rightarrow> Inr (rg_status r))"

definition MockChannel_Pay :: "int \<Rightarrow> int \<Rightarrow> int \<Rightarrow> go_error + string" where
  "MockChannel_Pay nanos rechargeID amount =
     Inr (''mock-txn-'' @ itoa_unsigned rechargeID @ ''-'' @ itoa_unsigned nanos)"

section \<open>The Stripe channel\<close>

definition stripe_cents :: "int \<Rightarrow> int" where
  "stripe_cents amountMicros = div64 (add64 amountMicros 5000) 10000"

definition stripe_form :: "int \<Rightarrow> int \<Rightarrow> (string \<times> string) list" where
  "stripe_form rechargeID amountMicros =
     [(''amount'', fmtInt (stripe_cents amountMicros)), (''currency'', ''cny''),
      (''payment_method_types[]'', ''card''), (''metadata[recharge_id]'', fmtInt rechargeID),
      (''metadata[source]'', ''metergate''), (''automatic_payment_methods[enabled]'', ''false'')]"

text \<open>\<open>post\<close> sends the form: a transport error, or a status and the \<open>id\<close> of a decodable body.\<close>

definition StripeChannel_Pay ::
  "((string \<times> string) list \<Rightarrow> go_error + int \<times> string option) \<Rightarrow> int \<Rightarrow> int \<Rightarrow> go_error + string" where
  "StripeChannel_Pay post rechargeID amountMicros =
     (case post (stripe_form rechargeID amountMicros) of
        Inl e \<Rightarrow> Inl e
      | Inr (status, pi) \<Rightarrow>
          if status \<ge> 300 then Inl (ErrUpstreamStatus status)
          else (case pi of None \<Rightarrow> Inl ErrScan | Some i \<Rightarrow> Inr i))"

fun split_on :: "char \<Rightarrow> string \<Rightarrow> string list" where
  "split_on sep [] = [[]]"
| "split_on sep (c # cs) =
     (if c = sep then [] # split_on sep cs
      else case split_on sep cs of (w # ws) \<Rightarrow> (c # w) # ws | [] \<Rightarrow> [[c]])"

definition sig_part :: "string \<Rightarrow> (string \<times> string) option" where
  "sig_part kv =
     (let k = takeWhile (\<lambda>c. c \<noteq> CHR ''='') kv
      in if k \<noteq> kv \<and> k \<noteq> [] then Some (k, drop (length k + 1) kv) else None)"

definition sig_lookup :: "string \<Rightarrow> string \<Rightarrow> string" where
  "sig_lookup sigHeader name =
     (case map_of (rev (List.map_filter sig_part (split_on (CHR '','') sigHeader))) name of
        Some v \<Rightarrow> v | None \<Rightarrow> [])"

text \<open>\<open>mac key msg\<close> is the hexadecimal HMAC-SHA256; \<open>None\<close> is \<open>ErrInvalidSignature\<close>.\<close>

definition VerifyWebhook :: "(string \<Rightarrow> string \<Rightarrow> string) \<Rightarrow> string \<Rightarrow> string \<Rightarrow> string \<Rightarrow> string option" where
  "VerifyWebhook mac webhookSecret payload sigHeader =
     (if webhookSecret = [] then Some payload
      else if mac webhookSecret (sig_lookup sigHeader ''t'' @ ''.'' @ payload) = sig_lookup sigHeader ''v1''
           then Some payload else None)"

text \<open>The webhook handler: the HTTP status it answers. \<open>parse\<close> is \<open>ParseWebhookEvent\<close>.\<close>

definition webhookHandler ::
  "(string \<Rightarrow> string \<Rightarrow> string) \<Rightarrow> string option \<Rightarrow> (string \<Rightarrow> (string \<times> string) option) \<Rightarrow> 'c topup \<Rightarrow> sched
     \<Rightarrow> paydb \<times> 'c \<Rightarrow> string \<Rightarrow> string \<Rightarrow> string \<Rightarrow> (paydb \<times> 'c) \<times> int" where
  "webhookHandler mac stripe parse topUp fs s channel payload sigHeader =
     (let channel = (if channel = [] then ''stripe'' else channel) in
      case (if channel = ''stripe'' then stripe else None) of
        None \<Rightarrow> (s, 404)
      | Some secret \<Rightarrow>
          (case VerifyWebhook mac secret payload sigHeader of
             None \<Rightarrow> (s, 400)
           | Some body \<Rightarrow>
               (case parse body of
                  None \<Rightarrow> (s, 400)
                | Some (evType, txnID) \<Rightarrow>
                    if evType \<noteq> ''payment_intent.succeeded'' then (s, 200)
                    else (case SettleByTxn topUp fs s channel txnID of
                            (s', Inl e) \<Rightarrow> (s', 400)
                          | (s', Inr _) \<Rightarrow> (s', 200)))))"

section \<open>Credits and paid recharges\<close>

text \<open>A \<open>topUp\<close> that records what it is asked to credit, with any answers \<open>ans\<close>.\<close>

definition record_topUp :: "(int \<Rightarrow> int \<Rightarrow> (int \<times> int) list \<Rightarrow> go_error + unit) \<Rightarrow> (int \<times> int) list topup" where
  "record_topUp ans u a log = (log @ [(u, a)], ans u a log)"

definition credited_to :: "int \<Rightarrow> (int \<times> int) list \<Rightarrow> int" where
  "credited_to u log = sum_list (map snd (filter (\<lambda>x. fst x = u) log))"

definition paid_sum :: "int \<Rightarrow> paydb \<Rightarrow> int" where
  "paid_sum u db = sum_list (map rg_amount (filter (\<lambda>r. rg_user r = u \<and> rg_status r = ''PAID'') (pay_recharges db)))"

definition pay_ok :: "paydb \<Rightarrow> bool" where
  "pay_ok db \<longleftrightarrow> distinct (map rg_id (pay_recharges db)) \<and> distinct (map rg_key (pay_recharges db)) \<and>
     (\<forall>r\<in>set (pay_recharges db). 0 < rg_amount r \<and> rg_id r \<le> pay_seq db) \<and>
     (\<forall>p\<in>set (pay_payments db). py_channel p = ''mock'')"

text \<open>What a caller of the service can do.\<close>

datatype pay_op =
    OpRecharge "int \<Rightarrow> bool" string fault int int string
  | OpPay channels sched int string
  | OpSettleByTxn sched string string

definition pay_exec ::
  "(int \<Rightarrow> int \<Rightarrow> (int \<times> int) list \<Rightarrow> go_error + unit) \<Rightarrow> paydb \<times> (int \<times> int) list \<Rightarrow> pay_op \<Rightarrow> paydb \<times> (int \<times> int) list" where
  "pay_exec ans s op =
     (case op of
        OpRecharge known gen f u a key \<Rightarrow> (fst (Recharge known gen f (fst s) u a key), snd s)
      | OpPay chans fs i ch \<Rightarrow> fst (Pay chans (record_topUp ans) fs s i ch)
      | OpSettleByTxn fs ch t \<Rightarrow> fst (SettleByTxn (record_topUp ans) fs s ch t))"

lemma call_service_invariant: "P s \<Longrightarrow> P (fst r) \<Longrightarrow> P (fst (call_service f s r))"
  by (cases f) simp_all

lemma paid_sum_mark_paid:
  assumes "distinct (map rg_id rs)" and "r \<in> set rs" and "rg_status r = ''PENDING''"
  shows "sum_list (map rg_amount (filter (\<lambda>x. rg_user x = u \<and> rg_status x = ''PAID'')
      (map (\<lambda>x. if rg_id x = rg_id r \<and> rg_status x = ''PENDING'' then x\<lparr>rg_status := ''PAID''\<rparr> else x) rs))) =
    sum_list (map rg_amount (filter (\<lambda>x. rg_user x = u \<and> rg_status x = ''PAID'') rs)) +
      (if rg_user r = u then rg_amount r else 0)"
  using assms
proof (induction rs)
  case (Cons y rs)
  show ?case
  proof (cases "y = r")
    case True
    then have "map (\<lambda>x. if rg_id x = rg_id r \<and> rg_status x = ''PENDING'' then x\<lparr>rg_status := ''PAID''\<rparr> else x) rs = rs"
      using Cons.prems by (intro map_idI) (auto simp: image_iff)
    then show ?thesis using True Cons.prems(3) by simp
  next
    case False
    then have "r \<in> set rs" "rg_id y \<noteq> rg_id r" using Cons.prems by (auto simp: image_iff)
    then show ?thesis using Cons by simp
  qed
qed simp

lemma find_recharge_ids:
  "find_recharge db i = Some r \<Longrightarrow> r \<in> set (pay_recharges db) \<and> rg_id r = i"
  by (auto simp: find_recharge_def dest: find_SomeD)

lemma find_recharge_unique:
  assumes "pay_ok db" and "r \<in> set (pay_recharges db)"
  shows "find_recharge db (rg_id r) = Some r"
proof -
  have "find (\<lambda>x. rg_id x = rg_id r) rs = Some r" if "distinct (map rg_id rs)" "r \<in> set rs" for rs
    using that by (induction rs) (auto simp: image_iff)
  with assms show ?thesis by (simp add: pay_ok_def find_recharge_def)
qed

lemma find_map_paid:
  "find (\<lambda>x. rg_id x = i) (map (\<lambda>r. if rg_id r = i \<and> rg_status r = ''PENDING'' then r\<lparr>rg_status := ''PAID''\<rparr> else r) rs)
   = map_option (\<lambda>r. if rg_status r = ''PENDING'' then r\<lparr>rg_status := ''PAID''\<rparr> else r) (find (\<lambda>x. rg_id x = i) rs)"
  for rs :: "recharge list"
  by (induction rs) auto

text \<open>
  A settlement either leaves everything as it was, or moves one pending recharge to paid
  and credits its owner at most once.
\<close>

lemma SettleCallback_effect:
  assumes "pay_ok db"
    and run: "SettleCallback (record_topUp ans) fs (db, log) i ch t a raw = (s', res)"
  shows "s' = (db, log) \<or>
    (\<exists>r\<in>set (pay_recharges db). rg_id r = i \<and> rg_status r = ''PENDING'' \<and>
       fst s' = mark_paid (db\<lparr>pay_payments := pay_payments db @
          [\<lparr>py_recharge = i, py_channel = ch, py_txn = t, py_amount = a, py_raw = raw\<rparr>]\<rparr>) i \<and>
       (snd s' = log \<or> snd s' = log @ [(rg_user r, a)]))"
proof (cases "s' = (db, log)")
  case False
  let ?p = "\<lparr>py_recharge = i, py_channel = ch, py_txn = t, py_amount = a, py_raw = raw\<rparr>"
  let ?db1 = "db\<lparr>pay_payments := pay_payments db @ [?p]\<rparr>"
  obtain f0 fs0 f1 fs1 f2 fs2 f3 fs3 f4 fs4 where fs: "pop_fault fs = (f0, fs0)" "pop_fault fs0 = (f1, fs1)"
    "pop_fault fs1 = (f2, fs2)" "pop_fault fs2 = (f3, fs3)" "pop_fault fs3 = (f4, fs4)" by (meson surj_pair)
  have ins: "insert_payment db ?p = Inr (Some ?db1)"
    and pend: "list_ex (\<lambda>r. rg_id r = i \<and> rg_status r = ''PENDING'') (pay_recharges db)"
    using run False fs
    by (auto simp: SettleCallback_def insert_payment_def Let_def split: if_splits)
  then obtain r where r: "r \<in> set (pay_recharges db)" "rg_id r = i" "rg_status r = ''PENDING''"
    by (auto simp: list_ex_iff)
  have fr: "find_recharge (mark_paid ?db1 i) i = Some (r\<lparr>rg_status := ''PAID''\<rparr>)"
    using find_recharge_unique [OF assms(1) r(1)] r by (simp add: find_recharge_def mark_paid_def find_map_paid)
  have "f0 = NoFault" "f1 = NoFault" "f2 = NoFault" "f3 = NoFault"
    using run False fs ins pend by (auto simp: SettleCallback_def Let_def split: if_splits)
  then show ?thesis
    using run False fs ins pend fr r by (cases f4) (auto simp: SettleCallback_def record_topUp_def Let_def)
qed simp

lemma credit_step:
  assumes ok: "pay_ok db" and r: "r \<in> set (pay_recharges db)" "rg_id r = i" "rg_status r = ''PENDING''"
    and db': "db' = mark_paid (db\<lparr>pay_payments := ps\<rparr>) i" and ps: "\<forall>p\<in>set ps. py_channel p = ''mock''"
    and log: "log' = log \<or> log' = log @ [(rg_user r, rg_amount r)]"
  shows "pay_ok db' \<and> credited_to u log' - credited_to u log \<le> paid_sum u db' - paid_sum u db"
proof -
  have *: "map g (map (\<lambda>x. if rg_id x = i \<and> rg_status x = ''PENDING'' then x\<lparr>rg_status := ''PAID''\<rparr> else x) rs) = map g rs"
    if "\<And>x. g (x\<lparr>rg_status := ''PAID''\<rparr>) = g x" for g :: "recharge \<Rightarrow> 'b" and rs
    using that by (induction rs) simp_all
  have "pay_ok db'"
    using ok ps unfolding db' pay_ok_def mark_paid_def by (simp del: map_map add: * ) auto
  moreover have "paid_sum u db' = paid_sum u db + (if rg_user r = u then rg_amount r else 0)"
    using paid_sum_mark_paid [of "pay_recharges db" r u] ok r
    by (simp add: db' paid_sum_def mark_paid_def pay_ok_def)
  moreover have "credited_to u log' - credited_to u log \<le> (if rg_user r = u then rg_amount r else 0)"
    using log ok r(1) by (auto simp: credited_to_def pay_ok_def)
  ultimately show ?thesis by simp
qed

lemma Pay_credit:
  assumes ok: "pay_ok db" and run: "Pay chans (record_topUp ans) fs (db, log) i ch = (s', res)"
  shows "pay_ok (fst s') \<and> credited_to u (snd s') - credited_to u log \<le> paid_sum u (fst s') - paid_sum u db"
proof (cases "s' = (db, log)")
  case False
  obtain f fs' where f: "pop_fault fs = (f, fs')" by fastforce
  obtain c r t res' where d: "chans ch = Some c" "query_recharge f db i = Inr r" "ch = ''mock''"
    and s: "SettleCallback (record_topUp ans) fs' (db, log) i ch t (rg_amount r) ''{\"mock\":true}'' = (s', res')"
    using run False f
    by (auto simp: Pay_def split: option.splits sum.splits if_splits prod.splits)
  have r: "find_recharge db i = Some r"
    using d(2) by (cases f) (auto simp: query_recharge_def split: option.splits)
  obtain q where q: "q \<in> set (pay_recharges db)" "rg_id q = i" "rg_status q = ''PENDING''"
    "fst s' = mark_paid (db\<lparr>pay_payments := pay_payments db @
          [\<lparr>py_recharge = i, py_channel = ch, py_txn = t, py_amount = rg_amount r, py_raw = ''{\"mock\":true}''\<rparr>]\<rparr>) i"
    "snd s' = log \<or> snd s' = log @ [(rg_user q, rg_amount r)]"
    using SettleCallback_effect [OF ok s] False by blast
  have "q = r" using find_recharge_unique [OF ok q(1)] q(2) r by simp
  then show ?thesis
    using credit_step [OF ok q(1-4)] q(5) ok d(3) by (auto simp: pay_ok_def)
qed (use ok in simp)

lemma SettleByTxn_idle:
  assumes "pay_ok (fst s)"
  shows "fst (SettleByTxn topUp fs s ch t) = s"
    and "ch \<noteq> ''mock'' \<Longrightarrow> snd (SettleByTxn topUp fs s ch t) \<in> {Inl ErrNoRows, Inl ErrService}"
proof -
  obtain f fs' where f: "pop_fault fs = (f, fs')" by fastforce
  have dup: "fst (SettleCallback topUp gs s i ch t 0 raw) = s"
    if "p \<in> set (pay_payments (fst s))" "py_channel p = ch" "py_txn p = t" for p gs i raw
  proof -
    have "list_ex (\<lambda>q. py_channel q = ch \<and> py_txn q = t) (pay_payments (fst s))"
      using that by (auto simp: list_ex_iff)
    then show ?thesis
      by (cases s) (simp add: SettleCallback_def insert_payment_def Let_def split: prod.splits)
  qed
  show "fst (SettleByTxn topUp fs s ch t) = s"
  proof (cases "find (\<lambda>p. py_channel p = ch \<and> py_txn p = t) (pay_payments (fst s))")
    case (Some p)
    then have "p \<in> set (pay_payments (fst s))" "py_channel p = ch" "py_txn p = t" by (auto dest: find_SomeD)
    from dup [OF this] Some f show ?thesis by (cases f) (simp_all add: SettleByTxn_def)
  qed (use f in \<open>cases f; simp add: SettleByTxn_def\<close>)
  assume ch: "ch \<noteq> ''mock''"
  have "find (\<lambda>p. py_channel p = ch \<and> py_txn p = t) (pay_payments (fst s)) = None"
    using assms ch by (auto simp: pay_ok_def find_None_iff)
  then show "snd (SettleByTxn topUp fs s ch t) \<in> {Inl ErrNoRows, Inl ErrService}"
    using f by (cases f) (simp_all add: SettleByTxn_def)
qed

lemma pay_ok_next: "pay_ok db \<Longrightarrow> pay_ok (db\<lparr>pay_seq := pay_seq db + 1\<rparr>)"
  unfolding pay_ok_def by force

lemma pay_ok_append:
  assumes "pay_ok db" and "0 < rg_amount r" and "rg_id r = pay_seq db + 1"
    and "rg_key r \<notin> rg_key ` set (pay_recharges db)"
  shows "pay_ok (db\<lparr>pay_seq := pay_seq db + 1, pay_recharges := pay_recharges db @ [r]\<rparr>)"
proof -
  have "rg_id r \<notin> rg_id ` set (pay_recharges db)"
    using assms(1,3) by (force simp: pay_ok_def)
  then show ?thesis
    using assms pay_ok_next [OF assms(1)] by (simp add: pay_ok_def)
qed

lemma Recharge_credit:
  assumes "pay_ok db"
  shows "pay_ok (fst (Recharge known gen f db v a key)) \<and> paid_sum u db \<le> paid_sum u (fst (Recharge known gen f db v a key))"
proof (cases "a \<le> 0")
  case False
  let ?key = "if key = [] then ''srv-'' @ gen else key"
  show ?thesis
  proof (cases "find (\<lambda>r. rg_key r = ?key) (pay_recharges db)")
    case None
    let ?r = "\<lparr>rg_id = pay_seq db + 1, rg_user = v, rg_amount = a, rg_status = ''PENDING'', rg_key = ?key\<rparr>"
    let ?db = "db\<lparr>pay_seq := pay_seq db + 1, pay_recharges := pay_recharges db @ [?r]\<rparr>"
    have "pay_ok ?db"
      by (rule pay_ok_append [OF assms]) (use False None in \<open>auto simp: find_None_iff\<close>)
    moreover have "fst (Recharge known gen f db v a key) \<in> {db, db\<lparr>pay_seq := pay_seq db + 1\<rparr>, ?db}"
      using False None by (cases f) (simp_all add: Recharge_def Let_def)
    ultimately show ?thesis using assms pay_ok_next [OF assms] by (auto simp: paid_sum_def)
  next
    case (Some q)
    have "fst (Recharge known gen f db v a key) \<in> {db, db\<lparr>pay_seq := pay_seq db + 1\<rparr>}"
      using False Some by (cases f) (simp_all add: Recharge_def Let_def)
    then show ?thesis using assms pay_ok_next [OF assms] by (auto simp: paid_sum_def)
  qed
qed (use assms in \<open>simp add: Recharge_def\<close>)

lemma pay_exec_credit:
  assumes "pay_ok (fst s)"
  shows "pay_ok (fst (pay_exec ans s x)) \<and>
    credited_to u (snd (pay_exec ans s x)) - credited_to u (snd s) \<le> paid_sum u (fst (pay_exec ans s x)) - paid_sum u (fst s)"
proof (cases x)
  case (OpRecharge known gen f v a key)
  then show ?thesis using Recharge_credit [OF assms, of known gen f v a key u] by (simp add: pay_exec_def)
next
  case (OpPay chans fs i ch)
  obtain s' res where "Pay chans (record_topUp ans) fs s i ch = (s', res)" by fastforce
  with Pay_credit [of "fst s" chans ans fs "snd s" i ch s' res u] assms OpPay show ?thesis
    by (simp add: pay_exec_def)
next
  case (OpSettleByTxn fs ch t)
  then show ?thesis using SettleByTxn_idle(1) [OF assms] assms by (simp add: pay_exec_def)
qed

section \<open>Properties\<close>

text \<open>C15: A recharge is credited at most once. In any history of recharge orders, payments
and webhook settlements (any channels, amounts, keys and outcomes, transactions whose
commit answer is lost included), the amounts credited to a user never exceed the user's
paid recharges, and the keys and ids of the tables stay unique.\<close>

theorem recharges_credited_at_most_once:
  assumes "pay_ok db" and "(db', log) = foldl (pay_exec ans) (db, []) ops"
  shows "credited_to u log \<le> paid_sum u db' - paid_sum u db \<and> pay_ok db'"
proof -
  have "pay_ok (fst s) \<Longrightarrow> pay_ok (fst (foldl (pay_exec ans) s ops)) \<and>
      credited_to u (snd (foldl (pay_exec ans) s ops)) - credited_to u (snd s)
        \<le> paid_sum u (fst (foldl (pay_exec ans) s ops)) - paid_sum u (fst s)" for s
  proof (induction ops arbitrary: s)
    case (Cons x ops)
    from pay_exec_credit [OF Cons.prems, of ans x u] Cons.IH [of "pay_exec ans s x"] show ?case by simp
  qed simp
  from this [of "(db, [])"] assms show ?thesis
    by (simp add: credited_to_def prod_eq_iff)
qed

lemma pay_ok_empty: "pay_ok empty_pay"
  by (simp add: pay_ok_def empty_pay_def)

theorem recharges_credited_at_most_once_witness:
  "\<exists>db' log. foldl (pay_exec (\<lambda>_ _ _. Inr ())) (empty_pay, [])
      [OpRecharge (\<lambda>_. True) [] NoFault 7 500 ''k1'', OpPay [''mock'' \<mapsto> MockChannel_Pay 99] [] 1 ''mock'',
       OpPay [''mock'' \<mapsto> MockChannel_Pay 100] [] 1 ''mock''] = (db', log) \<and>
    credited_to 7 log \<le> paid_sum 7 db'"
proof -
  obtain db' log where r: "foldl (pay_exec (\<lambda>_ _ _. Inr ())) (empty_pay, [])
      [OpRecharge (\<lambda>_. True) [] NoFault 7 500 ''k1'', OpPay [''mock'' \<mapsto> MockChannel_Pay 99] [] 1 ''mock'',
       OpPay [''mock'' \<mapsto> MockChannel_Pay 100] [] 1 ''mock''] = (db', log)" by fastforce
  have "paid_sum 7 empty_pay = 0" by (simp add: paid_sum_def empty_pay_def)
  with recharges_credited_at_most_once [OF pay_ok_empty r [symmetric], of 7] r show ?thesis by auto
qed

text \<open>Theorem: The mock channel credits exactly the amount asked for. A recharge of a positive
amount under a fresh key, paid through the mock channel with the database answering, is
paid, credits its user that amount once, and paying it again is refused.\<close>

theorem mock_payment_credits_amount:
  assumes "pay_ok db" and "0 < a" and "key \<noteq> []" and "key \<notin> rg_key ` set (pay_recharges db)"
    and "\<forall>p\<in>set (pay_payments db). py_txn p \<noteq> txn" and "known u"
    and "chans = [''mock'' \<mapsto> (\<lambda>_ _. Inr txn)]"
    and "(db1, r1) = Recharge known gen NoFault db u a key"
    and "(s2, r2) = Pay chans (record_topUp (\<lambda>_ _ _. Inr ())) [] (db1, log) (pay_seq db + 1) ''mock''"
  shows "r1 = Inr (pay_seq db + 1) \<and> r2 = Inr txn \<and> snd s2 = log @ [(u, a)] \<and>
    RechargeStatus NoFault (fst s2) (pay_seq db + 1) = Inr ''PAID'' \<and>
    Pay chans (record_topUp (\<lambda>_ _ _. Inr ())) [] s2 (pay_seq db + 1) ''mock'' = (s2, Inl ErrAlreadyPaid)"
proof -
  let ?i = "pay_seq db + 1"
  let ?r = "\<lparr>rg_id = ?i, rg_user = u, rg_amount = a, rg_status = ''PENDING'', rg_key = key\<rparr>"
  have none: "find (\<lambda>r. rg_key r = key) (pay_recharges db) = None"
    using assms(4) by (auto simp: find_None_iff)
  have db1: "db1 = db\<lparr>pay_seq := ?i, pay_recharges := pay_recharges db @ [?r]\<rparr>" and r1: "r1 = Inr ?i"
    using assms(2,3,6,8) none by (simp_all add: Recharge_def Let_def)
  have ok1: "pay_ok db1"
    unfolding db1 by (rule pay_ok_append [OF assms(1)]) (use assms(2,4) in simp_all)
  have find1: "find_recharge db1 ?i = Some ?r"
    using find_recharge_unique [OF ok1, of ?r] by (simp add: db1)
  have pend: "list_ex (\<lambda>r. rg_id r = ?i \<and> rg_status r = ''PENDING'') (pay_recharges db1)"
    by (auto simp: db1 list_ex_iff)
  have dup: "\<not> list_ex (\<lambda>q. py_channel q = ''mock'' \<and> py_txn q = txn) (pay_payments db1)"
    using assms(5) by (auto simp: db1 list_ex_iff)
  let ?p = "\<lparr>py_recharge = ?i, py_channel = ''mock'', py_txn = txn, py_amount = a, py_raw = ''{\"mock\":true}''\<rparr>"
  let ?db2 = "mark_paid (db1\<lparr>pay_payments := pay_payments db1 @ [?p]\<rparr>) ?i"
  have find2: "find_recharge ?db2 ?i = Some (?r\<lparr>rg_status := ''PAID''\<rparr>)"
    using find1 by (simp add: find_recharge_def mark_paid_def find_map_paid)
  have "s2 = (?db2, log @ [(u, a)]) \<and> r2 = Inr txn"
    using assms(7,9) find1 find2 pend dup
    by (simp add: Pay_def query_recharge_def SettleCallback_def insert_payment_def record_topUp_def Let_def)
  then show ?thesis
    using r1 find2 assms(7) by (simp add: RechargeStatus_def query_recharge_def Pay_def)
qed

theorem mock_payment_credits_amount_witness:
  "\<exists>db1 r1 s2 r2. Recharge (\<lambda>_. True) [] NoFault empty_pay 7 500 ''k1'' = (db1, r1) \<and>
     Pay [''mock'' \<mapsto> (\<lambda>_ _. Inr ''t'')] (record_topUp (\<lambda>_ _ _. Inr ())) [] (db1, []) 1 ''mock'' = (s2, r2) \<and>
     snd s2 = [(7, 500)]"
proof -
  obtain db1 r1 where 1: "Recharge (\<lambda>_. True) [] NoFault empty_pay 7 500 ''k1'' = (db1, r1)" by fastforce
  obtain s2 r2 where 2: "Pay [''mock'' \<mapsto> (\<lambda>_ _. Inr ''t'')] (record_topUp (\<lambda>_ _ _. Inr ())) [] (db1, []) 1 ''mock'' = (s2, r2)"
    by fastforce
  have "snd s2 = [(7, 500)]"
    using mock_payment_credits_amount [OF pay_ok_empty, of 500 "''k1''" "''t''" "\<lambda>_. True" 7 _ db1 r1 "[]" s2 r2 "[]"] 1 2
    by (simp add: empty_pay_def)
  with 1 2 show ?thesis by blast
qed

text \<open>Theorem: A Stripe payment is never credited. No history of the service puts a Stripe row
into the payments table, so the webhook settlement of any non-mock channel finds nothing:
it fails, and leaves tables and credits as they were. (\<open>Pay\<close> returns the intent's id
without storing it, although the settlement looks it up there.)\<close>

theorem stripe_payments_never_settle:
  assumes "s = foldl (pay_exec ans) (empty_pay, []) ops" and "channel \<noteq> ''mock''"
  shows "fst (SettleByTxn topUp fs s channel txn) = s \<and>
    snd (SettleByTxn topUp fs s channel txn) \<in> {Inl ErrNoRows, Inl ErrService}"
proof -
  have "pay_ok (fst s) \<Longrightarrow> pay_ok (fst (foldl (pay_exec ans) s ops))" for s
  proof (induction ops arbitrary: s)
    case (Cons x ops)
    from pay_exec_credit [OF Cons.prems, of ans x] Cons.IH show ?case by simp
  qed simp
  then have "pay_ok (fst s)" using assms(1) pay_ok_empty by simp
  then show ?thesis
    using SettleByTxn_idle(1) [of s topUp fs channel txn] SettleByTxn_idle(2) [of s channel topUp fs txn] assms(2) by simp
qed

theorem stripe_payments_never_settle_witness:
  "fst (SettleByTxn (record_topUp (\<lambda>_ _ _. Inr ())) []
     (foldl (pay_exec (\<lambda>_ _ _. Inr ())) (empty_pay, [])
       [OpRecharge (\<lambda>_. True) [] NoFault 7 500 ''k1'', OpPay [''stripe'' \<mapsto> (\<lambda>_ _. Inr ''pi_1'')] [] 1 ''stripe'']) ''stripe'' ''pi_1'')
   = foldl (pay_exec (\<lambda>_ _ _. Inr ())) (empty_pay, [])
       [OpRecharge (\<lambda>_. True) [] NoFault 7 500 ''k1'', OpPay [''stripe'' \<mapsto> (\<lambda>_ _. Inr ''pi_1'')] [] 1 ''stripe'']"
  by (rule stripe_payments_never_settle [OF refl, THEN conjunct1]) simp

end
