(* ===== verification/Rate_Limit.thy ===== *)
theory Rate_Limit
  imports Complex_Main Decimal Redis_Api
begin

text \<open>
  Quota enforcement: the sliding-window script and the in-flight counter of
  \<open>internal/ratelimit/ratelimit.go\<close>, the six-layer \<open>budgetLimiter\<close> of
  \<open>cmd/metergate/keylimiter.go\<close> and the usage sampler of \<open>internal/quota/monitor.go\<close>.
  The window script is shown to be an exact sliding-window log, which gives the quota
  bound and the meaning of the retry delay; the in-flight counter is a step relation over
  the commands of concurrent requests.
\<close>

section \<open>The Redis commands of the limiter\<close>

text \<open>
  Commands take the server's clock \<open>t\<close> (milliseconds): a key whose time to live has run
  out is absent. \<open>z_range\<close> is the content of a sorted set in rank order as (member,
  score) pairs, so \<open>ZCARD\<close> is its length and \<open>ZRANGE key 0 0\<close> its first element.
  \<open>z_incr\<close> is \<open>INCR\<close> and \<open>DECR\<close>; \<open>z_ttl\<close> answers -2 for no key and -1 for no time to
  live. \<open>z_num\<close> and \<open>z_str\<close> are Lua's number of an integer and a number's text.
\<close>

record 'z limit_redis =
  z_range :: "int \<Rightarrow> 'z \<Rightarrow> string \<Rightarrow> (string \<times> int) list"
  z_remrange :: "int \<Rightarrow> 'z \<Rightarrow> string \<Rightarrow> int \<Rightarrow> int \<Rightarrow> 'z"
  z_add :: "int \<Rightarrow> 'z \<Rightarrow> string \<Rightarrow> int \<Rightarrow> string \<Rightarrow> 'z"
  z_incr :: "int \<Rightarrow> 'z \<Rightarrow> string \<Rightarrow> int \<Rightarrow> ('z \<times> int) option"
  z_ttl :: "int \<Rightarrow> 'z \<Rightarrow> string \<Rightarrow> int"
  z_expire :: "int \<Rightarrow> 'z \<Rightarrow> string \<Rightarrow> int \<Rightarrow> 'z"
  z_num :: "int \<Rightarrow> int"
  z_str :: "int \<Rightarrow> string"

section \<open>The sliding window\<close>

definition window_ms :: int where
  "window_ms = 60 * 1000"

fun zadd_loop :: "'z limit_redis \<Rightarrow> int \<Rightarrow> 'z \<Rightarrow> string \<Rightarrow> int \<Rightarrow> nat \<Rightarrow> 'z \<times> (go_error + unit)" where
  "zadd_loop Z t s key now 0 = (s, Inr ())"
| "zadd_loop Z t s key now (Suc n) =
     (case z_incr Z t s (key @ '':seq'') 1 of
        None \<Rightarrow> (s, Inl ErrScript)
      | Some (s', v) \<Rightarrow>
          zadd_loop Z t (z_add Z t s' key now (z_str Z now @ '':'' @ z_str Z (z_num Z v))) key now n)"

definition windowScript ::
  "'z limit_redis \<Rightarrow> int \<Rightarrow> 'z \<Rightarrow> string \<Rightarrow> int \<Rightarrow> int \<Rightarrow> int \<Rightarrow> int \<Rightarrow> 'z \<times> (go_error + int)" where
  "windowScript Z t s key arg1 arg2 arg3 arg4 =
     (let now = z_num Z arg1; win = z_num Z arg2; limit = z_num Z arg3; weight = z_num Z arg4;
          s1 = z_remrange Z t s key 0 (now - win);
          count = int (length (z_range Z t s1 key))
      in if count + weight > limit then
           let oldest_ts = (case z_range Z t s1 key of [] \<Rightarrow> now | (m, sc) # _ \<Rightarrow> sc);
               retry = (oldest_ts + win - now) div 1000 + 1
           in (s1, Inr (- retry))
         else case zadd_loop Z t s1 key now (nat weight) of
                (s2, Inl e) \<Rightarrow> (s2, Inl e)
              | (s2, Inr _) \<Rightarrow> (z_expire Z t s2 key (win div 1000 + 1), Inr (count + weight)))"

text \<open>
  A check is made at the gateway's clock \<open>now\<close> and executed at the server's clock \<open>t\<close>;
  \<open>f\<close> is what becomes of the call.
\<close>

definition retryAfterFor :: int where
  "retryAfterFor = 30"

definition run_window ::
  "'z limit_redis \<Rightarrow> fault \<Rightarrow> int \<Rightarrow> int \<Rightarrow> 'z \<Rightarrow> string \<Rightarrow> int \<Rightarrow> int \<Rightarrow> 'z \<times> int \<times> bool" where
  "run_window Z f t now s key limit weight =
     (case call_service f s (windowScript Z t s key now window_ms limit weight) of
        (s', Inl e) \<Rightarrow> (s', retryAfterFor, False)
      | (s', Inr res) \<Rightarrow> if res < 0 then (s', - res, False) else (s', 0, True))"

definition CheckRPM ::
  "'z limit_redis \<Rightarrow> fault \<Rightarrow> int \<Rightarrow> int \<Rightarrow> 'z \<Rightarrow> string \<Rightarrow> int \<Rightarrow> 'z \<times> int \<times> bool" where
  "CheckRPM Z f t now s scope limit =
     (if limit \<le> 0 then (s, 0, True)
      else run_window Z f t now s (''rl:'' @ scope @ '':rpm'') limit 1)"

definition CheckTPM ::
  "'z limit_redis \<Rightarrow> fault \<Rightarrow> int \<Rightarrow> int \<Rightarrow> 'z \<Rightarrow> string \<Rightarrow> int \<Rightarrow> int \<Rightarrow> 'z \<times> int \<times> bool" where
  "CheckTPM Z f t now s scope limit tokens =
     (if limit \<le> 0 \<or> tokens \<le> 0 then (s, 0, True)
      else run_window Z f t now s (''rl:'' @ scope @ '':tpm'') limit tokens)"

section \<open>The in-flight counter\<close>

definition inflightKey :: "string \<Rightarrow> string" where
  "inflightKey scope = ''rl:'' @ scope @ '':inflight''"

text \<open>One command of the client; a failed command answers \<open>None\<close>.\<close>

definition incr_cmd :: "'z limit_redis \<Rightarrow> fault \<Rightarrow> int \<Rightarrow> 'z \<Rightarrow> string \<Rightarrow> int \<Rightarrow> 'z \<times> (go_error + int)" where
  "incr_cmd Z f t s key d =
     call_service f s (case z_incr Z t s key d of None \<Rightarrow> (s, Inl ErrScript) | Some (s', v) \<Rightarrow> (s', Inr v))"

definition renew_ttl :: "'z limit_redis \<Rightarrow> fault \<Rightarrow> fault \<Rightarrow> int \<Rightarrow> 'z \<Rightarrow> string \<Rightarrow> 'z" where
  "renew_ttl Z f1 f2 t s key =
     (let ttl = (if f1 = NoFault then z_ttl Z t s key else 0)
      in if ttl < 0 then fst (call_service f2 s (z_expire Z t s key (2 * window_ms div 1000), Inr ()))
         else s)"

definition Acquire ::
  "'z limit_redis \<Rightarrow> sched \<Rightarrow> int \<Rightarrow> 'z \<Rightarrow> string \<Rightarrow> int \<Rightarrow> 'z \<times> bool \<times> sched" where
  "Acquire Z fs t s scope limit =
     (if limit \<le> 0 then (s, True, fs)
      else let key = inflightKey scope;
               (f1, fs1) = pop_fault fs; (f2, fs2) = pop_fault fs1;
               (f3, fs3) = pop_fault fs2; (f4, fs4) = pop_fault fs3;
               s1 = renew_ttl Z f1 f2 t s key
           in case incr_cmd Z f3 t s1 key 1 of
                (s2, Inl e) \<Rightarrow> (fst (incr_cmd Z f4 t s2 key (- 1)), False, fs4)
              | (s2, Inr cur) \<Rightarrow>
                  if cur > limit then (fst (incr_cmd Z f4 t s2 key (- 1)), False, fs4)
                  else (s2, True, fs3))"

definition Limiter_Done :: "'z limit_redis \<Rightarrow> fault \<Rightarrow> int \<Rightarrow> 'z \<Rightarrow> string \<Rightarrow> 'z" where
  "Limiter_Done Z f t s scope = fst (incr_cmd Z f t s (inflightKey scope) (- 1))"
section \<open>The six-layer budget\<close>

record Limits =
  lm_RPM :: int
  lm_TPM :: int
  lm_Concurrency :: int
  lm_EndUserRPM :: int
  lm_EndUserTPM :: int

record ChainInfo =
  ci_User :: Limits
  ci_ProjectID :: int
  ci_Project :: Limits
  ci_TeamID :: int
  ci_Team :: Limits
  ci_OrgID :: int
  ci_Org :: Limits

text \<open>
  What the key store answers for a request: the limits of the key, and the budget chain of
  its user (\<open>Limits\<close>, then \<open>Resolve\<close> and \<open>ChainOfUser\<close>, of \<open>auth.CachedKeyStore\<close>).
\<close>

record key_info =
  ki_Limits :: "go_error + Limits"
  ki_Resolve :: "go_error + int"
  ki_Chain :: "int \<Rightarrow> go_error + ChainInfo"

text \<open>
  The state a limiter call threads: the server, the outcomes of the calls still to be made
  and how often the clock was read. \<open>clk i\<close> is the \<open>i\<close>-th reading, of the server and of
  the gateway.
\<close>

record 'z lim =
  l_s :: 'z
  l_fs :: sched
  l_n :: nat

type_synonym clock = "nat \<Rightarrow> int \<times> int"

datatype verdict = Admit | Reject string int

definition bind_check :: "'z lim \<times> verdict \<Rightarrow> ('z lim \<Rightarrow> 'z lim \<times> verdict) \<Rightarrow> 'z lim \<times> verdict" where
  "bind_check r g = (case r of (L, Admit) \<Rightarrow> g L | (L, Reject layer n) \<Rightarrow> (L, Reject layer n))"

definition timed_check :: "(fault \<Rightarrow> int \<Rightarrow> int \<Rightarrow> 'z \<Rightarrow> 'z \<times> int \<times> bool) \<Rightarrow> clock \<Rightarrow> 'z lim \<Rightarrow> 'z lim \<times> int \<times> bool" where
  "timed_check chk clk L =
     (let (f, fs) = pop_fault (l_fs L); (t, now) = clk (l_n L); (s', r) = chk f t now (l_s L)
      in (L\<lparr>l_s := s', l_fs := fs, l_n := Suc (l_n L)\<rparr>, r))"

definition limit_rpm :: "'z limit_redis \<Rightarrow> clock \<Rightarrow> string \<Rightarrow> string \<Rightarrow> int \<Rightarrow> 'z lim \<Rightarrow> 'z lim \<times> verdict" where
  "limit_rpm Z clk layer scope limit L =
     (if limit > 0
      then case timed_check (\<lambda>f t now s. CheckRPM Z f t now s scope limit) clk L of
             (L', retry, ok) \<Rightarrow> (L', if ok then Admit else Reject layer retry)
      else (L, Admit))"

definition limit_tpm :: "'z limit_redis \<Rightarrow> clock \<Rightarrow> string \<Rightarrow> string \<Rightarrow> int \<Rightarrow> int \<Rightarrow> 'z lim \<Rightarrow> 'z lim \<times> verdict" where
  "limit_tpm Z clk layer scope limit promptTokens L =
     (if limit > 0
      then case timed_check (\<lambda>f t now s. CheckTPM Z f t now s scope limit (add64 promptTokens 1000)) clk L of
             (L', retry, ok) \<Rightarrow> (L', if ok then Admit else Reject layer retry)
      else (L, Admit))"

definition limit_inflight :: "'z limit_redis \<Rightarrow> clock \<Rightarrow> string \<Rightarrow> int \<Rightarrow> 'z lim \<Rightarrow> 'z lim \<times> verdict" where
  "limit_inflight Z clk rawKey limit L =
     (if limit > 0
      then case Acquire Z (l_fs L) (fst (clk (l_n L))) (l_s L) rawKey limit of
             (s', ok, fs') \<Rightarrow>
               (L\<lparr>l_s := s', l_fs := fs', l_n := Suc (l_n L)\<rparr>, if ok then Admit else Reject ''key'' 0)
      else (L, Admit))"

text \<open>The layers above the key discard the retry delay of the check.\<close>

definition scope_id :: "string \<Rightarrow> int \<Rightarrow> string" where
  "scope_id layer n = layer @ ''-'' @ fmtInt n"

definition checkAggregateLimits ::
  "'z limit_redis \<Rightarrow> clock \<Rightarrow> string \<Rightarrow> int \<Rightarrow> Limits \<Rightarrow> int \<Rightarrow> 'z lim \<Rightarrow> 'z lim \<times> verdict" where
  "checkAggregateLimits Z clk layer scopeID lims promptTokens L =
     (let scope = scope_id layer scopeID in
      case bind_check (limit_rpm Z clk layer scope (lm_RPM lims) L)
             (limit_tpm Z clk layer scope (lm_TPM lims) promptTokens) of
        (L', Admit) \<Rightarrow> (L', Admit)
      | (L', Reject _ _) \<Rightarrow> (L', Reject layer 0))"

definition limit_end_user :: "'z limit_redis \<Rightarrow> clock \<Rightarrow> Limits \<Rightarrow> string \<Rightarrow> string \<Rightarrow> int \<Rightarrow> 'z lim \<Rightarrow> 'z lim \<times> verdict" where
  "limit_end_user Z clk lims rawKey eu promptTokens L =
     (if eu \<noteq> [] \<and> (lm_EndUserRPM lims > 0 \<or> lm_EndUserTPM lims > 0) then
        let euScope = ''eu:'' @ rawKey @ '':'' @ eu in
        bind_check (limit_rpm Z clk ''end_user'' euScope (lm_EndUserRPM lims) L)
          (limit_tpm Z clk ''end_user'' euScope (lm_EndUserTPM lims) promptTokens)
      else (L, Admit))"

definition limit_key :: "'z limit_redis \<Rightarrow> clock \<Rightarrow> Limits \<Rightarrow> string \<Rightarrow> int \<Rightarrow> 'z lim \<Rightarrow> 'z lim \<times> verdict" where
  "limit_key Z clk lims rawKey promptTokens L =
     bind_check (limit_rpm Z clk ''key'' rawKey (lm_RPM lims) L) (\<lambda>L1.
     bind_check (limit_tpm Z clk ''key'' rawKey (lm_TPM lims) promptTokens L1)
       (limit_inflight Z clk rawKey (lm_Concurrency lims)))"

definition limit_chain :: "'z limit_redis \<Rightarrow> clock \<Rightarrow> key_info \<Rightarrow> int \<Rightarrow> 'z lim \<Rightarrow> 'z lim \<times> verdict" where
  "limit_chain Z clk K promptTokens L =
     (case ki_Resolve K of
        Inl e \<Rightarrow> (L, Admit)
      | Inr uid \<Rightarrow>
          (case ki_Chain K uid of
             Inl e \<Rightarrow> (L, Admit)
           | Inr ci \<Rightarrow>
               bind_check (checkAggregateLimits Z clk ''user'' uid (ci_User ci) promptTokens L) (\<lambda>L1.
               if ci_ProjectID ci > 0 then
                 bind_check (checkAggregateLimits Z clk ''project'' (ci_ProjectID ci) (ci_Project ci) promptTokens L1) (\<lambda>L2.
                 if ci_TeamID ci > 0 then
                   bind_check (checkAggregateLimits Z clk ''team'' (ci_TeamID ci) (ci_Team ci) promptTokens L2) (\<lambda>L3.
                   if ci_OrgID ci > 0 then
                     checkAggregateLimits Z clk ''org'' (ci_OrgID ci) (ci_Org ci) promptTokens L3
                   else (L3, Admit))
                 else (L2, Admit))
               else (L1, Admit))))"

definition Budget_Allow ::
  "'z limit_redis \<Rightarrow> clock \<Rightarrow> key_info \<Rightarrow> string \<Rightarrow> string \<Rightarrow> int \<Rightarrow> 'z lim \<Rightarrow> 'z lim \<times> verdict" where
  "Budget_Allow Z clk K rawKey eu promptTokens L =
     (case ki_Limits K of
        Inl e \<Rightarrow> (L, Admit)
      | Inr lims \<Rightarrow>
          bind_check (limit_end_user Z clk lims rawKey eu promptTokens L) (\<lambda>L1.
          bind_check (limit_key Z clk lims rawKey promptTokens L1) (limit_chain Z clk K promptTokens)))"

definition Budget_Done :: "'z limit_redis \<Rightarrow> clock \<Rightarrow> string \<Rightarrow> 'z lim \<Rightarrow> 'z lim" where
  "Budget_Done Z clk rawKey L =
     (let (f, fs) = pop_fault (l_fs L)
      in L\<lparr>l_s := Limiter_Done Z f (fst (clk (l_n L))) (l_s L) rawKey, l_fs := fs, l_n := Suc (l_n L)\<rparr>)"

section \<open>The quota monitor\<close>

record Scope =
  sc_Layer :: string
  sc_ID :: int
  sc_RPM :: int
  sc_TPM :: int

definition scopeName :: "string \<Rightarrow> int \<Rightarrow> string" where
  "scopeName layer n =
     (if layer \<in> {''org'', ''team'', ''project'', ''user''} then layer @ ''-'' @ fmtInt n else [])"

definition usage_ratio :: "int \<Rightarrow> int \<Rightarrow> rat" where
  "usage_ratio used limit =
     (if limit \<le> 0 then 0 else let r = of_int used / of_int limit in if r > 1 then 1 else r)"

text \<open>
  The gauge is keyed by layer and scope only: when both quotas are configured the token
  ratio, sampled second, replaces the request ratio.
\<close>

definition sample_scope ::
  "'z limit_redis \<Rightarrow> int \<Rightarrow> 'z \<Rightarrow> (string \<times> string \<rightharpoonup> rat) \<times> sched \<Rightarrow> Scope \<Rightarrow> (string \<times> string \<rightharpoonup> rat) \<times> sched" where
  "sample_scope Z t s g sc =
     (let scopeID = scopeName (sc_Layer sc) (sc_ID sc);
          set_ratio = (\<lambda>kind limit (m, fs).
            if limit > 0 then
              let (f, fs') = pop_fault fs;
                  count = int (length (z_range Z t s (''rl:'' @ scopeID @ kind)))
              in (if f = NoFault then m((sc_Layer sc, scopeID) \<mapsto> usage_ratio count limit) else m, fs')
            else (m, fs))
      in set_ratio '':tpm'' (sc_TPM sc) (set_ratio '':rpm'' (sc_RPM sc) g))"

definition sample ::
  "'z limit_redis \<Rightarrow> int \<Rightarrow> 'z \<Rightarrow> (go_error + Scope list) option \<Rightarrow> (string \<times> string \<rightharpoonup> rat) \<times> sched \<Rightarrow>
   (string \<times> string \<rightharpoonup> rat) \<times> sched" where
  "sample Z t s query g =
     (case query of
        None \<Rightarrow> g
      | Some (Inl e) \<Rightarrow> g
      | Some (Inr scopes) \<Rightarrow> foldl (sample_scope Z t s) g scopes)"

section \<open>What the limiter relies on of Redis\<close>

text \<open>
  \<open>zset\<close>, \<open>ctr\<close> and \<open>dead\<close> are the sorted sets, counters and deadlines the server stores;
  a command sees a key only before its deadline.
\<close>

definition live :: "('z \<Rightarrow> string \<Rightarrow> int option) \<Rightarrow> int \<Rightarrow> 'z \<Rightarrow> string \<Rightarrow> bool" where
  "live dead t s k = (case dead s k of None \<Rightarrow> True | Some d \<Rightarrow> t < d)"

definition ctr0 :: "('z \<Rightarrow> string \<Rightarrow> int option) \<Rightarrow> ('z \<Rightarrow> string \<Rightarrow> int option) \<Rightarrow> int \<Rightarrow> 'z \<Rightarrow> string \<Rightarrow> int" where
  "ctr0 dead ctr t s k = (if live dead t s k then (case ctr s k of None \<Rightarrow> 0 | Some v \<Rightarrow> v) else 0)"

locale redis_limits =
  fixes Z :: "'z limit_redis"
    and zset :: "'z \<Rightarrow> string \<Rightarrow> (string \<times> int) list"
    and ctr :: "'z \<Rightarrow> string \<Rightarrow> int option"
    and dead :: "'z \<Rightarrow> string \<Rightarrow> int option"
  assumes range: "z_range Z t s k = (if live dead t s k then zset s k else [])"
    and remrange:
      "s' = z_remrange Z t s k lo hi \<Longrightarrow>
       zset s' = (zset s)(k := filter (\<lambda>(m, x). \<not> (lo \<le> x \<and> x \<le> hi)) (z_range Z t s k)) \<and>
       ctr s' = ctr s \<and> dead s' = (dead s)(k := if zset s' k = [] then None else dead s k)"
    and add:
      "s' = z_add Z t s k x m \<Longrightarrow> m \<notin> fst ` set (z_range Z t s k) \<Longrightarrow> sorted (map snd (z_range Z t s k)) \<Longrightarrow>
       mset (zset s' k) = add_mset (m, x) (mset (z_range Z t s k)) \<and> sorted (map snd (zset s' k)) \<and>
       (\<forall>k'. k' \<noteq> k \<longrightarrow> zset s' k' = zset s k') \<and> ctr s' = ctr s \<and>
       dead s' = (dead s)(k := if live dead t s k then dead s k else None)"
    and incr:
      "in64 (ctr0 dead ctr t s k + d) \<Longrightarrow> z_range Z t s k = [] \<Longrightarrow>
       \<exists>s'. z_incr Z t s k d = Some (s', ctr0 dead ctr t s k + d) \<and>
         ctr s' = (ctr s)(k \<mapsto> ctr0 dead ctr t s k + d) \<and>
         dead s' = (dead s)(k := if live dead t s k then dead s k else None) \<and>
         (\<forall>k'. k' \<noteq> k \<longrightarrow> zset s' k' = zset s k') \<and> zset s' k = []"
    and expire:
      "s' = z_expire Z t s k n \<Longrightarrow> 0 < n \<Longrightarrow> z_range Z t s k \<noteq> [] \<or> (live dead t s k \<and> ctr s k \<noteq> None) \<Longrightarrow>
       zset s' = zset s \<and> ctr s' = ctr s \<and> dead s' = (dead s)(k \<mapsto> t + 1000 * n)"
    and expire_absent:
      "s' = z_expire Z t s k n \<Longrightarrow> 0 < n \<Longrightarrow> z_range Z t s k = [] \<Longrightarrow> \<not> (live dead t s k \<and> ctr s k \<noteq> None) \<Longrightarrow>
       zset s' = zset s \<and> ctr s' = ctr s \<and> dead s' = dead s"
    and ttl:
      "z_ttl Z t s k < 0 \<longleftrightarrow> (z_range Z t s k = [] \<and> \<not> (live dead t s k \<and> ctr s k \<noteq> None)) \<or> dead s k = None"
    and num: "small n \<Longrightarrow> z_num Z n = n"
    and str: "0 \<le> n \<Longrightarrow> n < 10 ^ 14 \<Longrightarrow> z_str Z n = fmtInt n"


section \<open>An executable server\<close>

record memz =
  mz_zset :: "string \<Rightarrow> (string \<times> int) list"
  mz_ctr :: "string \<Rightarrow> int option"
  mz_dead :: "string \<Rightarrow> int option"

definition empty_memz :: memz where
  "empty_memz = \<lparr>mz_zset = (\<lambda>_. []), mz_ctr = (\<lambda>_. None), mz_dead = (\<lambda>_. None)\<rparr>"

definition mz_range :: "int \<Rightarrow> memz \<Rightarrow> string \<Rightarrow> (string \<times> int) list" where
  "mz_range t s k = (if live mz_dead t s k then mz_zset s k else [])"

definition mz_absent :: "int \<Rightarrow> memz \<Rightarrow> string \<Rightarrow> bool" where
  "mz_absent t s k \<longleftrightarrow> mz_range t s k = [] \<and> \<not> (live mz_dead t s k \<and> mz_ctr s k \<noteq> None)"

definition mz_remrange :: "int \<Rightarrow> memz \<Rightarrow> string \<Rightarrow> int \<Rightarrow> int \<Rightarrow> memz" where
  "mz_remrange t s k lo hi =
     (let xs = filter (\<lambda>(m, x). \<not> (lo \<le> x \<and> x \<le> hi)) (mz_range t s k)
      in s\<lparr>mz_zset := (mz_zset s)(k := xs), mz_dead := (mz_dead s)(k := if xs = [] then None else mz_dead s k)\<rparr>)"

definition mz_add :: "int \<Rightarrow> memz \<Rightarrow> string \<Rightarrow> int \<Rightarrow> string \<Rightarrow> memz" where
  "mz_add t s k x m =
     s\<lparr>mz_zset := (mz_zset s)(k := insort_key snd (m, x) (filter (\<lambda>p. fst p \<noteq> m) (mz_range t s k))),
       mz_dead := (mz_dead s)(k := if live mz_dead t s k then mz_dead s k else None)\<rparr>"

definition mz_incr :: "int \<Rightarrow> memz \<Rightarrow> string \<Rightarrow> int \<Rightarrow> (memz \<times> int) option" where
  "mz_incr t s k d =
     (let v = ctr0 mz_dead mz_ctr t s k + d in
      if in64 v \<and> mz_range t s k = [] then
        Some (s\<lparr>mz_ctr := (mz_ctr s)(k \<mapsto> v), mz_zset := (mz_zset s)(k := []),
                mz_dead := (mz_dead s)(k := if live mz_dead t s k then mz_dead s k else None)\<rparr>, v)
      else None)"

definition mz_expire :: "int \<Rightarrow> memz \<Rightarrow> string \<Rightarrow> int \<Rightarrow> memz" where
  "mz_expire t s k n = (if mz_absent t s k then s else s\<lparr>mz_dead := (mz_dead s)(k \<mapsto> t + 1000 * n)\<rparr>)"

definition mz_ttl :: "int \<Rightarrow> memz \<Rightarrow> string \<Rightarrow> int" where
  "mz_ttl t s k =
     (if mz_absent t s k then - 2
      else case mz_dead s k of None \<Rightarrow> - 1 | Some d \<Rightarrow> (d - t) div 1000)"

definition mem_limits :: "memz limit_redis" where
  "mem_limits =
     \<lparr>z_range = mz_range, z_remrange = mz_remrange, z_add = mz_add, z_incr = mz_incr,
      z_ttl = mz_ttl, z_expire = mz_expire, z_num = id, z_str = fmtInt\<rparr>"

lemma insort_key_fresh:
  assumes "m \<notin> fst ` set xs" and "sorted (map snd xs)"
  shows "mset (insort_key snd (m, x) (filter (\<lambda>p. fst p \<noteq> m) xs)) = add_mset (m, x) (mset xs)"
    and "sorted (map snd (insort_key snd (m, x) (filter (\<lambda>p. fst p \<noteq> m) xs)))"
proof -
  have "filter (\<lambda>p. fst p \<noteq> m) xs = xs" using assms(1) by (auto intro!: filter_True)
  then show "mset (insort_key snd (m, x) (filter (\<lambda>p. fst p \<noteq> m) xs)) = add_mset (m, x) (mset xs)"
    and "sorted (map snd (insort_key snd (m, x) (filter (\<lambda>p. fst p \<noteq> m) xs)))"
    using assms(2) by (simp_all add: sorted_insort_key)
qed

lemma mz_ttl_sign: "mz_ttl t s k < 0 \<longleftrightarrow> mz_absent t s k \<or> mz_dead s k = None"
  by (auto simp: mz_ttl_def mz_absent_def mz_range_def live_def pos_imp_zdiv_neg_iff split: option.splits if_splits)

interpretation mem_limits: redis_limits mem_limits mz_zset mz_ctr mz_dead
proof
  fix t s k s' lo hi x m d n
  show "z_range mem_limits t s k = (if live mz_dead t s k then mz_zset s k else [])"
    by (simp add: mem_limits_def mz_range_def)
  show "s' = z_remrange mem_limits t s k lo hi \<Longrightarrow>
       mz_zset s' = (mz_zset s)(k := filter (\<lambda>(m, x). \<not> (lo \<le> x \<and> x \<le> hi)) (z_range mem_limits t s k)) \<and>
       mz_ctr s' = mz_ctr s \<and> mz_dead s' = (mz_dead s)(k := if mz_zset s' k = [] then None else mz_dead s k)"
    by (simp add: mem_limits_def mz_remrange_def Let_def)
  show "s' = z_add mem_limits t s k x m \<Longrightarrow> m \<notin> fst ` set (z_range mem_limits t s k) \<Longrightarrow>
       sorted (map snd (z_range mem_limits t s k)) \<Longrightarrow>
       mset (mz_zset s' k) = add_mset (m, x) (mset (z_range mem_limits t s k)) \<and> sorted (map snd (mz_zset s' k)) \<and>
       (\<forall>k'. k' \<noteq> k \<longrightarrow> mz_zset s' k' = mz_zset s k') \<and> mz_ctr s' = mz_ctr s \<and>
       mz_dead s' = (mz_dead s)(k := if live mz_dead t s k then mz_dead s k else None)"
    using insort_key_fresh [of m "mz_range t s k" x] by (simp add: mem_limits_def mz_add_def)
  show "in64 (ctr0 mz_dead mz_ctr t s k + d) \<Longrightarrow> z_range mem_limits t s k = [] \<Longrightarrow>
       \<exists>s'. z_incr mem_limits t s k d = Some (s', ctr0 mz_dead mz_ctr t s k + d) \<and>
         mz_ctr s' = (mz_ctr s)(k \<mapsto> ctr0 mz_dead mz_ctr t s k + d) \<and>
         mz_dead s' = (mz_dead s)(k := if live mz_dead t s k then mz_dead s k else None) \<and>
         (\<forall>k'. k' \<noteq> k \<longrightarrow> mz_zset s' k' = mz_zset s k') \<and> mz_zset s' k = []"
    by (simp add: mem_limits_def mz_incr_def Let_def)
  show "z_ttl mem_limits t s k < 0 \<longleftrightarrow>
      (z_range mem_limits t s k = [] \<and> \<not> (live mz_dead t s k \<and> mz_ctr s k \<noteq> None)) \<or> mz_dead s k = None"
    using mz_ttl_sign [of t s k] by (simp add: mem_limits_def mz_absent_def)
qed (auto simp: mem_limits_def mz_expire_def mz_absent_def)
section \<open>The window script is a sliding-window log\<close>

text \<open>
  The reference: a log of admitted (time, weight) entries. A check is admitted when the
  weight of the entries less than a window old leaves room for it.
\<close>

definition weight_after :: "int \<Rightarrow> (int \<times> int) list \<Rightarrow> int" where
  "weight_after c es = (\<Sum>(n, w)\<leftarrow>es. if c < n then w else 0)"

definition weight_in :: "int \<Rightarrow> int \<Rightarrow> (int \<times> int) list \<Rightarrow> int" where
  "weight_in a b es = (\<Sum>(n, w)\<leftarrow>es. if a < n \<and> n \<le> b then w else 0)"

definition spec_check :: "int \<Rightarrow> (int \<times> int) list \<Rightarrow> int \<Rightarrow> int \<Rightarrow> (int \<times> int) list \<times> bool" where
  "spec_check limit es now w =
     (if weight_after (now - window_ms) es + w \<le> limit then (es @ [(now, w)], True) else (es, False))"

definition log_scores :: "(int \<times> int) list \<Rightarrow> int multiset" where
  "log_scores es = (\<Sum>(n, w)\<leftarrow>es. replicate_mset (nat w) n)"

definition seq_value :: "('z \<Rightarrow> string \<Rightarrow> int option) \<Rightarrow> 'z \<Rightarrow> string \<Rightarrow> int" where
  "seq_value ctr s k = (case ctr s (k @ '':seq'') of None \<Rightarrow> 0 | Some v \<Rightarrow> v)"

text \<open>The part of the relation that concerns the key's own entries and sequence counter.\<close>

definition set_rel ::
  "('z \<Rightarrow> string \<Rightarrow> (string \<times> int) list) \<Rightarrow> ('z \<Rightarrow> string \<Rightarrow> int option) \<Rightarrow> ('z \<Rightarrow> string \<Rightarrow> int option) \<Rightarrow>
   'z \<Rightarrow> string \<Rightarrow> bool" where
  "set_rel zset ctr dead s k \<longleftrightarrow>
     sorted (map snd (zset s k)) \<and>
     (\<forall>m\<in>fst ` set (zset s k). \<exists>n i. m = fmtInt n @ '':'' @ fmtInt i \<and> 0 \<le> n \<and> 0 \<le> i \<and> i \<le> seq_value ctr s k) \<and>
     dead s (k @ '':seq'') = None \<and> zset s (k @ '':seq'') = [] \<and> 0 \<le> seq_value ctr s k"

definition window_rel ::
  "('z \<Rightarrow> string \<Rightarrow> (string \<times> int) list) \<Rightarrow> ('z \<Rightarrow> string \<Rightarrow> int option) \<Rightarrow> ('z \<Rightarrow> string \<Rightarrow> int option) \<Rightarrow>
   'z \<Rightarrow> string \<Rightarrow> (int \<times> int) list \<Rightarrow> int \<Rightarrow> bool" where
  "window_rel zset ctr dead s k es n0 \<longleftrightarrow>
     set_rel zset ctr dead s k \<and>
     (\<forall>(n, w)\<in>set es. 0 \<le> n \<and> n \<le> n0 \<and> 0 < w) \<and>
     (\<exists>c\<le>n0 - window_ms. image_mset snd (mset (zset s k)) = filter_mset (\<lambda>x. c < x) (log_scores es)) \<and>
     (\<forall>d. dead s k = Some d \<longrightarrow> (\<forall>(n, w)\<in>set es. n + window_ms + 1000 \<le> d))"

lemma log_scores_simps [simp]:
  "log_scores [] = {#}" "log_scores (e # es) = replicate_mset (nat (snd e)) (fst e) + log_scores es"
  "log_scores (es @ [(n, w)]) = log_scores es + replicate_mset (nat w) n"
  by (simp_all add: log_scores_def case_prod_beta)

lemma weight_after_simps [simp]:
  "weight_after c [] = 0"
  "weight_after c (e # es) = (if c < fst e then snd e else 0) + weight_after c es"
  "weight_after c (es @ [(n, w)]) = weight_after c es + (if c < n then w else 0)"
  by (simp_all add: weight_after_def case_prod_beta)

lemma size_log_scores:
  "(\<And>n w. (n, w) \<in> set es \<Longrightarrow> 0 < w) \<Longrightarrow>
   int (size (filter_mset (\<lambda>x. c < x) (log_scores es))) = weight_after c es"
proof (induction es)
  case (Cons e es)
  have "filter_mset (\<lambda>x. c < x) (replicate_mset m n) = (if c < n then replicate_mset m n else {#})" for m n
    by (induction m) auto
  moreover have "0 < snd e" using Cons.prems [of "fst e" "snd e"] by simp
  moreover have "int (size (filter_mset (\<lambda>x. c < x) (log_scores es))) = weight_after c es"
    by (rule Cons.IH) (use Cons.prems in auto)
  ultimately show ?case by simp
qed simp

lemma set_log_scores: "x \<in># log_scores es \<longleftrightarrow> (\<exists>w. (x, w) \<in> set es \<and> 0 < w)"
  by (induction es) auto

lemma fmtInt_digits: "0 \<le> v \<Longrightarrow> list_all is_digit (fmtInt v)"
  using itoa_loop_value [of v] by (simp add: fmtInt_def is_digit_def)

lemma fmtInt_value: "0 \<le> v \<Longrightarrow> digits_value (fmtInt v) = v"
  using itoa_loop_value [of v] by (simp add: fmtInt_def digits_value_def)

lemma member_seq_inj:
  assumes "fmtInt n @ '':'' @ fmtInt i = fmtInt m @ '':'' @ fmtInt j" and "0 \<le> n" "0 \<le> m" "0 \<le> i" "0 \<le> j"
  shows "i = j"
proof -
  have nocolon: "list_all is_digit xs \<Longrightarrow> takeWhile (\<lambda>c. c \<noteq> CHR '':'') (xs @ CHR '':'' # ys) = xs" for xs ys
  proof (induction xs)
    case (Cons x xs)
    then have "x \<noteq> CHR '':''" by (auto simp: is_digit_def)
    with Cons show ?case by simp
  qed simp
  have "fmtInt n = fmtInt m"
    using nocolon [OF fmtInt_digits [OF assms(2)], of "fmtInt i"] nocolon [OF fmtInt_digits [OF assms(3)], of "fmtInt j"]
      assms(1) by simp
  with assms(1) have "fmtInt i = fmtInt j" by simp
  then show ?thesis using fmtInt_value assms(4,5) by metis
qed
context redis_limits
begin

lemma zadd_step:
  assumes rel: "set_rel zset ctr dead s k" and alive: "live dead t s k"
    and now: "0 \<le> now" "now < 10 ^ 14" and seq: "seq_value ctr s k + 1 < 10 ^ 14"
  obtains s1 where "z_incr Z t s (k @ '':seq'') 1 = Some (s1, seq_value ctr s k + 1)"
    and "s2 = z_add Z t s1 k now (z_str Z now @ '':'' @ z_str Z (z_num Z (seq_value ctr s k + 1))) \<Longrightarrow>
      set_rel zset ctr dead s2 k \<and> dead s2 k = dead s k \<and> seq_value ctr s2 k = seq_value ctr s k + 1 \<and>
      image_mset snd (mset (zset s2 k)) = add_mset now (image_mset snd (mset (zset s k)))"
proof -
  let ?q = "k @ '':seq''" and ?v = "seq_value ctr s k + 1"
  have pos: "0 \<le> seq_value ctr s k" using rel by (simp add: set_rel_def)
  have c0: "ctr0 dead ctr t s ?q = seq_value ctr s k"
    using rel by (simp add: ctr0_def live_def set_rel_def seq_value_def)
  have "in64 (ctr0 dead ctr t s ?q + 1)" and "z_range Z t s ?q = []"
    using seq pos rel by (simp_all add: c0 in64_def set_rel_def range)
  then obtain s1 where inc: "z_incr Z t s ?q 1 = Some (s1, ?v)" and s1: "ctr s1 = (ctr s)(?q \<mapsto> ?v)"
      "dead s1 = (dead s)(?q := if live dead t s ?q then dead s ?q else None)"
      "\<And>k'. k' \<noteq> ?q \<Longrightarrow> zset s1 k' = zset s k'" "zset s1 ?q = []"
    using incr [of t s ?q 1] unfolding c0 by blast
  have d1: "dead s1 = dead s" using rel s1(2) by (auto simp: set_rel_def)
  have zk: "zset s1 k = zset s k" "z_range Z t s1 k = zset s k"
    using alive d1 by (simp_all add: s1(3) range live_def)
  have name: "z_str Z now @ '':'' @ z_str Z (z_num Z ?v) = fmtInt now @ '':'' @ fmtInt ?v"
    using seq now pos by (simp add: str num small_def)
  have fresh: "fmtInt now @ '':'' @ fmtInt ?v \<notin> fst ` set (zset s k)"
  proof
    assume "fmtInt now @ '':'' @ fmtInt ?v \<in> fst ` set (zset s k)"
    then obtain n i where "fmtInt now @ '':'' @ fmtInt ?v = fmtInt n @ '':'' @ fmtInt i" "0 \<le> n" "0 \<le> i"
        "i \<le> seq_value ctr s k"
      using rel unfolding set_rel_def by blast
    with member_seq_inj [of now ?v n i] now pos show False by simp
  qed
  show thesis
  proof (rule that [OF inc])
    assume "s2 = z_add Z t s1 k now (z_str Z now @ '':'' @ z_str Z (z_num Z ?v))"
    from add [OF this] have a: "mset (zset s2 k) = add_mset (fmtInt now @ '':'' @ fmtInt ?v, now) (mset (zset s k))"
        "sorted (map snd (zset s2 k))" "\<And>k'. k' \<noteq> k \<Longrightarrow> zset s2 k' = zset s1 k'" "ctr s2 = ctr s1"
        "dead s2 = (dead s1)(k := if live dead t s1 k then dead s1 k else None)"
      using fresh rel zk name by (auto simp: set_rel_def)
    have d2: "dead s2 = dead s" using a(5) d1 alive by (auto simp: live_def)
    have sv: "seq_value ctr s2 k = ?v" by (simp add: seq_value_def a(4) s1(1))
    have mem: "set (zset s2 k) = insert (fmtInt now @ '':'' @ fmtInt ?v, now) (set (zset s k))"
      using arg_cong [OF a(1), of set_mset] by simp
    have "\<exists>n i. m = fmtInt n @ '':'' @ fmtInt i \<and> 0 \<le> n \<and> 0 \<le> i \<and> i \<le> ?v" if "m \<in> fst ` set (zset s2 k)" for m
      using that rel now pos unfolding mem set_rel_def by fastforce
    moreover have "zset s2 ?q = []" using a(3) [of ?q] s1(4) by simp
    ultimately show "set_rel zset ctr dead s2 k \<and> dead s2 k = dead s k \<and> seq_value ctr s2 k = ?v \<and>
      image_mset snd (mset (zset s2 k)) = add_mset now (image_mset snd (mset (zset s k)))"
      using rel a(1,2) d2 pos unfolding set_rel_def sv by simp
  qed
qed

lemma zadd_loop_ok:
  assumes "set_rel zset ctr dead s k" "live dead t s k" "0 \<le> now" "now < 10 ^ 14"
    and "seq_value ctr s k + int n < 10 ^ 14"
  shows "\<exists>s'. zadd_loop Z t s k now n = (s', Inr ()) \<and> set_rel zset ctr dead s' k \<and> dead s' k = dead s k \<and>
    image_mset snd (mset (zset s' k)) = image_mset snd (mset (zset s k)) + replicate_mset n now \<and>
    seq_value ctr s' k = seq_value ctr s k + int n"
  using assms
proof (induction n arbitrary: s)
  case (Suc n)
  define s2 where "s2 = z_add Z t (fst (the (z_incr Z t s (k @ '':seq'') 1))) k now
      (z_str Z now @ '':'' @ z_str Z (z_num Z (seq_value ctr s k + 1)))"
  obtain s1 where s1: "z_incr Z t s (k @ '':seq'') 1 = Some (s1, seq_value ctr s k + 1)"
    and post: "s2 = z_add Z t s1 k now (z_str Z now @ '':'' @ z_str Z (z_num Z (seq_value ctr s k + 1))) \<Longrightarrow>
      set_rel zset ctr dead s2 k \<and> dead s2 k = dead s k \<and> seq_value ctr s2 k = seq_value ctr s k + 1 \<and>
      image_mset snd (mset (zset s2 k)) = add_mset now (image_mset snd (mset (zset s k)))"
    by (rule zadd_step [of s k t now s2]) (use Suc.prems in auto)
  have p: "set_rel zset ctr dead s2 k" "dead s2 k = dead s k" "seq_value ctr s2 k = seq_value ctr s k + 1"
      "image_mset snd (mset (zset s2 k)) = add_mset now (image_mset snd (mset (zset s k)))"
    using post by (simp_all add: s2_def s1)
  have "live dead t s2 k" using Suc.prems(2) p(2) by (simp add: live_def)
  from Suc.IH [OF p(1) this Suc.prems(3,4)] Suc.prems(5) p
  obtain s' where "zadd_loop Z t s2 k now n = (s', Inr ())" "set_rel zset ctr dead s' k" "dead s' k = dead s k"
      "image_mset snd (mset (zset s' k)) = add_mset now (image_mset snd (mset (zset s k))) + replicate_mset n now"
      "seq_value ctr s' k = seq_value ctr s k + 1 + int n"
    by auto
  then show ?case by (simp add: s1 s2_def)
qed simp

end
context redis_limits
begin

lemma trim_ok:
  assumes rel: "window_rel zset ctr dead s k es n0" and n: "n0 \<le> now" "now \<le> t" "t < now + 1000"
    and s1: "s1 = z_remrange Z t s k 0 (now - window_ms)"
  shows "set_rel zset ctr dead s1 k \<and> live dead t s1 k \<and> seq_value ctr s1 k = seq_value ctr s k \<and>
    image_mset snd (mset (zset s1 k)) = filter_mset (\<lambda>x. now - window_ms < x) (log_scores es) \<and>
    (\<forall>d. dead s1 k = Some d \<longrightarrow> dead s k = Some d)"
proof -
  let ?P = "\<lambda>(m, x). \<not> (0 \<le> x \<and> x \<le> now - window_ms)"
  have z: "zset s1 = (zset s)(k := filter ?P (z_range Z t s k))" "ctr s1 = ctr s"
      "dead s1 = (dead s)(k := if zset s1 k = [] then None else dead s k)"
    using remrange [OF s1] by blast+
  obtain c where c: "c \<le> n0 - window_ms" "image_mset snd (mset (zset s k)) = filter_mset (\<lambda>x. c < x) (log_scores es)"
    using rel by (auto simp: window_rel_def)
  have times: "0 \<le> x" if "x \<in># log_scores es" for x
    using that rel by (auto simp: window_rel_def set_log_scores)
  have img: "image_mset snd (filter_mset ?P M) = filter_mset (\<lambda>x. \<not> (0 \<le> x \<and> x \<le> now - window_ms)) (image_mset snd M)" for M
    by (induction M) auto
  have scores: "image_mset snd (mset (zset s1 k)) = filter_mset (\<lambda>x. now - window_ms < x) (log_scores es)"
  proof (cases "live dead t s k")
    case True
    then have m: "mset (zset s1 k) = filter_mset ?P (mset (zset s k))"
      by (simp add: z(1) range)
    have "image_mset snd (mset (zset s1 k)) =
        filter_mset (\<lambda>x. \<not> (0 \<le> x \<and> x \<le> now - window_ms)) (filter_mset (\<lambda>x. c < x) (log_scores es))"
      unfolding m img c(2) ..
    also have "\<dots> = filter_mset (\<lambda>x. now - window_ms < x) (log_scores es)"
      using times c(1) n(1) by (auto simp: filter_filter_mset intro!: filter_mset_cong)
    finally show ?thesis .
  next
    case False
    then obtain d where d: "dead s k = Some d" "d \<le> t" by (auto simp: live_def split: option.splits)
    have "x \<le> now - window_ms" if "x \<in># log_scores es" for x
      using that rel d n by (fastforce simp: window_rel_def set_log_scores)
    then have "filter_mset (\<lambda>x. now - window_ms < x) (log_scores es) = {#}"
      by (force simp: filter_mset_eq_conv)
    with False show ?thesis by (simp add: z(1) range)
  qed
  have "sorted (map snd (zset s1 k))"
    using rel by (simp add: z(1) range window_rel_def set_rel_def sorted_filter)
  moreover have "set (zset s1 k) \<subseteq> set (zset s k)" by (auto simp: z(1) range)
  moreover have "seq_value ctr s1 k = seq_value ctr s k" "dead s1 (k @ '':seq'') = dead s (k @ '':seq'')"
      "zset s1 (k @ '':seq'') = zset s (k @ '':seq'')"
    by (simp_all add: z seq_value_def)
  moreover have "set_rel zset ctr dead s k" using rel by (simp add: window_rel_def)
  ultimately have "set_rel zset ctr dead s1 k" unfolding set_rel_def by (simp only:) blast
  moreover have "live dead t s1 k"
    using z by (auto simp: live_def range split: option.splits if_splits)
  ultimately show ?thesis using scores by (auto simp: z(2,3) seq_value_def split: if_splits)
qed

lemma windowScript_refines:
  assumes rel: "window_rel zset ctr dead s k es n0" and n: "n0 \<le> now" "now \<le> t" "t < now + 1000"
    and w: "0 < w" "small w" "small limit" and now: "0 \<le> now" "now < 10 ^ 14"
    and seq: "seq_value ctr s k + w < 10 ^ 14"
    and run: "windowScript Z t s k now window_ms limit w = (s', r)"
  defines "used \<equiv> weight_after (now - window_ms) es"
  shows "if used + w \<le> limit
    then r = Inr (used + w) \<and> window_rel zset ctr dead s' k (es @ [(now, w)]) now \<and> seq_value ctr s' k = seq_value ctr s k + w
    else (\<exists>o_ts. r = Inr (- ((o_ts + window_ms - now) div 1000 + 1)) \<and>
            (if used = 0 then o_ts = now else (\<exists>v. (o_ts, v) \<in> set es) \<and> now - window_ms < o_ts \<and>
               (\<forall>(x, v)\<in>set es. now - window_ms < x \<longrightarrow> o_ts \<le> x))) \<and>
         window_rel zset ctr dead s' k es now \<and> seq_value ctr s' k = seq_value ctr s k"
proof -
  define s1 where "s1 = z_remrange Z t s k 0 (now - window_ms)"
  have t1: "set_rel zset ctr dead s1 k" "live dead t s1 k" "seq_value ctr s1 k = seq_value ctr s k"
      "image_mset snd (mset (zset s1 k)) = filter_mset (\<lambda>x. now - window_ms < x) (log_scores es)"
      "\<And>d. dead s1 k = Some d \<Longrightarrow> dead s k = Some d"
    using trim_ok [OF rel n s1_def] by blast+
  have pos: "0 < v" if "(x, v) \<in> set es" for x v using rel that by (auto simp: window_rel_def)
  have size: "int (length (zset s1 k)) = used"
    using arg_cong [OF t1(4), of size] size_log_scores [of es "now - window_ms"] pos by (simp add: used_def)
  have nums: "z_num Z now = now" "z_num Z window_ms = window_ms" "z_num Z limit = limit" "z_num Z w = w"
    using w now by (simp_all add: num small_def window_ms_def)
  have rng: "z_range Z t s1 k = zset s1 k" by (simp add: range t1(2))
  note script = run [unfolded windowScript_def Let_def nums, folded s1_def, unfolded rng size]
  show ?thesis
  proof (cases "used + w \<le> limit")
    case True
    have "seq_value ctr s1 k + int (nat w) < 10 ^ 14" using seq w(1) t1(3) by simp
    from zadd_loop_ok [OF t1(1,2) now this] obtain s2 where s2: "zadd_loop Z t s1 k now (nat w) = (s2, Inr ())"
        "set_rel zset ctr dead s2 k" "dead s2 k = dead s1 k"
        "image_mset snd (mset (zset s2 k)) = image_mset snd (mset (zset s1 k)) + replicate_mset (nat w) now"
        "seq_value ctr s2 k = seq_value ctr s1 k + int (nat w)"
      by blast
    have res: "s' = z_expire Z t s2 k (window_ms div 1000 + 1)" "r = Inr (used + w)"
      using script True s2(1) by auto
    have "zset s2 k \<noteq> []" using s2(4) w(1) by (auto simp: replicate_mset_eq_empty_iff)
    moreover have "live dead t s2 k" using s2(3) t1(2) by (simp add: live_def)
    ultimately have s': "zset s' = zset s2" "ctr s' = ctr s2" "dead s' = (dead s2)(k \<mapsto> t + 61000)"
      using expire [OF res(1)] by (simp_all add: range window_ms_def)
    have "set_rel zset ctr dead s' k"
      using s2(2) by (simp add: set_rel_def s' seq_value_def)
    moreover have "image_mset snd (mset (zset s' k)) = filter_mset (\<lambda>x. now - window_ms < x) (log_scores (es @ [(now, w)]))"
    proof -
      have "filter_mset (\<lambda>x. now - window_ms < x) (replicate_mset m now) = replicate_mset m now" for m
        by (induction m) (simp_all add: window_ms_def)
      then show ?thesis by (simp add: s'(1) s2(4) t1(4))
    qed
    moreover have "x + window_ms + 1000 \<le> t + 61000" if "(x, v) \<in> set (es @ [(now, w)])" for x v
      using that rel n by (auto simp: window_rel_def window_ms_def)
    moreover have "0 \<le> x \<and> x \<le> now \<and> 0 < v" if "(x, v) \<in> set (es @ [(now, w)])" for x v
      using that rel n(1) w(1) now(1) by (auto simp: window_rel_def)
    ultimately have "window_rel zset ctr dead s' k (es @ [(now, w)]) now"
      unfolding window_rel_def by (auto simp: s'(3))
    moreover have "seq_value ctr s' k = seq_value ctr s k + w"
      using s2(5) t1(3) w(1) by (simp add: seq_value_def s'(2))
    ultimately show ?thesis using True res(2) by simp
  next
    case False
    then have res: "s' = s1"
      "r = Inr (- (((case zset s1 k of [] \<Rightarrow> now | (m, sc) # _ \<Rightarrow> sc) + window_ms - now) div 1000 + 1))"
      using script by auto
    have "window_rel zset ctr dead s' k es now"
    proof -
      have "\<forall>(x, v)\<in>set es. 0 \<le> x \<and> x \<le> now \<and> 0 < v" using rel n(1) by (auto simp: window_rel_def)
      moreover have "\<forall>d. dead s1 k = Some d \<longrightarrow> (\<forall>(x, v)\<in>set es. x + window_ms + 1000 \<le> d)"
        using rel t1(5) unfolding window_rel_def by blast
      ultimately show ?thesis using t1(1,4) unfolding window_rel_def res(1) by blast
    qed
    moreover obtain o_ts where "(case zset s1 k of [] \<Rightarrow> now | (m, sc) # _ \<Rightarrow> sc) = o_ts"
        "if used = 0 then o_ts = now else (\<exists>v. (o_ts, v) \<in> set es) \<and> now - window_ms < o_ts \<and>
           (\<forall>(x, v)\<in>set es. now - window_ms < x \<longrightarrow> o_ts \<le> x)"
    proof (cases "zset s1 k")
      case Nil
      then show thesis using size by (intro that) auto
    next
      case (Cons p ps)
      have elems: "snd ` set (zset s1 k) = {x. x \<in># log_scores es \<and> now - window_ms < x}"
        using arg_cong [OF t1(4), of set_mset] by simp
      have "snd p \<in> snd ` set (zset s1 k)" using Cons by simp
      then have "snd p \<in># log_scores es" "now - window_ms < snd p" unfolding elems by auto
      moreover have "snd p \<le> x" if "x \<in> snd ` set (zset s1 k)" for x
        using that t1(1) Cons by (auto simp: set_rel_def)
      then have "\<forall>(x, v)\<in>set es. now - window_ms < x \<longrightarrow> snd p \<le> x"
        unfolding elems using pos by (auto simp: set_log_scores)
      ultimately show thesis using Cons size by (intro that) (auto simp: set_log_scores case_prod_beta)
    qed
    ultimately show ?thesis
      unfolding if_not_P [OF False] using t1(3) res by blast
  qed
qed

end
section \<open>Sequences of checks\<close>

datatype quota = RPM | TPM

definition quota_key :: "quota \<Rightarrow> string \<Rightarrow> string" where
  "quota_key q scope = ''rl:'' @ scope @ (case q of RPM \<Rightarrow> '':rpm'' | TPM \<Rightarrow> '':tpm'')"

text \<open>A call: its outcome, the server's and the gateway's clock, and the tokens (1 for \<open>RPM\<close>).\<close>

type_synonym quota_call = "fault \<times> int \<times> int \<times> int"

definition quota_check :: "'z limit_redis \<Rightarrow> quota \<Rightarrow> string \<Rightarrow> int \<Rightarrow> 'z \<Rightarrow> quota_call \<Rightarrow> 'z \<times> int \<times> bool" where
  "quota_check Z q scope limit s call =
     (case call of (f, t, now, w) \<Rightarrow>
        (case q of RPM \<Rightarrow> CheckRPM Z f t now s scope limit | TPM \<Rightarrow> CheckTPM Z f t now s scope limit w))"

fun quota_run :: "'z limit_redis \<Rightarrow> quota \<Rightarrow> string \<Rightarrow> int \<Rightarrow> 'z \<Rightarrow> quota_call list \<Rightarrow> 'z \<times> (int \<times> int) list" where
  "quota_run Z q scope limit s [] = (s, [])"
| "quota_run Z q scope limit s ((f, t, now, w) # cs) =
     (let (s', _, ok) = quota_check Z q scope limit s (f, t, now, w);
          (s'', adm) = quota_run Z q scope limit s' cs
      in (s'', if ok then (now, w) # adm else adm))"

fun spec_run :: "int \<Rightarrow> (int \<times> int) list \<Rightarrow> quota_call list \<Rightarrow> (int \<times> int) list" where
  "spec_run limit es [] = []"
| "spec_run limit es ((f, t, now, w) # cs) =
     (case spec_check limit es now w of
        (es', True) \<Rightarrow> (now, w) # spec_run limit es' cs
      | (es', False) \<Rightarrow> spec_run limit es' cs)"

text \<open>
  The gateways' clocks agree with the server's, a call is executed less than a second after
  it was made and in the order of the clocks, and the numbers are ones Lua prints exactly.
\<close>

fun calls_ok :: "quota \<Rightarrow> int \<Rightarrow> int \<Rightarrow> quota_call list \<Rightarrow> bool" where
  "calls_ok q v n0 [] \<longleftrightarrow> True"
| "calls_ok q v n0 ((f, t, now, w) # cs) \<longleftrightarrow>
     0 \<le> now \<and> n0 \<le> now \<and> now \<le> t \<and> t < now + 1000 \<and> now < 10 ^ 14 \<and> 0 < w \<and> (q = RPM \<longrightarrow> w = 1) \<and>
     v + w < 10 ^ 14 \<and> calls_ok q (v + w) now cs"

definition unused_key ::
  "('z \<Rightarrow> string \<Rightarrow> (string \<times> int) list) \<Rightarrow> ('z \<Rightarrow> string \<Rightarrow> int option) \<Rightarrow> ('z \<Rightarrow> string \<Rightarrow> int option) \<Rightarrow>
   'z \<Rightarrow> string \<Rightarrow> bool" where
  "unused_key zset ctr dead s k \<longleftrightarrow>
     zset s k = [] \<and> zset s (k @ '':seq'') = [] \<and> dead s (k @ '':seq'') = None \<and> ctr s (k @ '':seq'') = None"

lemma weight_in_simps [simp]:
  "weight_in a b [] = 0"
  "weight_in a b (e # es) = (if a < fst e \<and> fst e \<le> b then snd e else 0) + weight_in a b es"
  "weight_in a b (es @ es') = weight_in a b es + weight_in a b es'"
  by (simp_all add: weight_in_def case_prod_beta)

definition obeys_quota :: "int \<Rightarrow> (int \<times> int) list \<Rightarrow> bool" where
  "obeys_quota limit es \<longleftrightarrow> (\<forall>T. weight_in (T - window_ms) T es \<le> limit)"

lemma weight_in_mono:
  assumes "\<And>n w. (n, w) \<in> set es \<Longrightarrow> 0 < w" and "a \<le> a'"
  shows "weight_in a' b es \<le> weight_after a es"
  using assms(1)
proof (induction es)
  case (Cons e es)
  have "0 < snd e" using Cons.prems [of "fst e" "snd e"] by simp
  moreover have "weight_in a' b es \<le> weight_after a es" by (rule Cons.IH) (use Cons.prems in auto)
  ultimately show ?case using assms(2) by auto
qed simp

lemma quota_admit:
  assumes "obeys_quota limit es" and "\<And>n w. (n, w) \<in> set es \<Longrightarrow> 0 < w"
    and "weight_after (now - window_ms) es + w \<le> limit"
  shows "obeys_quota limit (es @ [(now, w)])"
  unfolding obeys_quota_def
proof
  fix T
  show "weight_in (T - window_ms) T (es @ [(now, w)]) \<le> limit"
  proof (cases "now \<le> T")
    case True
    then show ?thesis
      using weight_in_mono [of es "now - window_ms" "T - window_ms" T] assms(2,3)
        assms(1) [unfolded obeys_quota_def, rule_format, of T] by (cases "T - window_ms < now") auto
  qed (use assms(1) in \<open>simp add: obeys_quota_def\<close>)
qed

lemma calls_ok_mono: "calls_ok q v n cs \<Longrightarrow> u \<le> v \<Longrightarrow> calls_ok q u n cs"
proof (induction cs arbitrary: u v n)
  case (Cons c cs)
  obtain f t now w where c: "c = (f, t, now, w)" by (metis prod_cases4)
  from Cons.prems have "calls_ok q (v + w) now cs" "u + w \<le> v + w" by (simp_all add: c)
  with Cons.IH have "calls_ok q (u + w) now cs" by blast
  with Cons.prems show ?case by (simp add: c)
qed simp

lemma window_rel_later:
  assumes "window_rel zset ctr dead s k es n0" and "n0 \<le> n1"
  shows "window_rel zset ctr dead s k es n1"
proof -
  have "c \<le> n0 - window_ms \<Longrightarrow> c \<le> n1 - window_ms" for c using assms(2) by simp
  moreover have "\<forall>(n, w)\<in>set es. 0 \<le> n \<and> n \<le> n1 \<and> 0 < w"
    using assms by (auto simp: window_rel_def)
  ultimately show ?thesis using assms(1) unfolding window_rel_def by blast
qed

context redis_limits
begin

lemma unused_rel: "unused_key zset ctr dead s k \<Longrightarrow> window_rel zset ctr dead s k [] n0"
  by (auto simp: window_rel_def set_rel_def unused_key_def seq_value_def)

text \<open>One check against the reference log, whatever becomes of the call.\<close>

lemma quota_check_step:
  assumes rel: "window_rel zset ctr dead s (quota_key q scope) es n0" and lim: "0 < limit" "small limit"
    and ok: "calls_ok q (seq_value ctr s (quota_key q scope)) n0 ((f, t, now, w) # cs)"
    and run: "quota_check Z q scope limit s (f, t, now, w) = (s', retry, adm)"
  shows "\<exists>es'. es' \<in> {es, fst (spec_check limit es now w)} \<and> window_rel zset ctr dead s' (quota_key q scope) es' now \<and>
    calls_ok q (seq_value ctr s' (quota_key q scope)) now cs \<and>
    (adm \<longrightarrow> spec_check limit es now w = (es', True)) \<and>
    (f = NoFault \<longrightarrow> spec_check limit es now w = (es', adm))"
proof -
  let ?k = "quota_key q scope"
  obtain s1 r where scr: "windowScript Z t s ?k now window_ms limit w = (s1, r)" by fastforce
  have res: "(s', retry, adm) = (case call_service f s (s1, r) of
        (s', Inl e) \<Rightarrow> (s', retryAfterFor, False)
      | (s', Inr res) \<Rightarrow> if res < 0 then (s', - res, False) else (s', 0, True))"
    using run scr lim ok by (cases q)
      (simp_all add: quota_check_def CheckRPM_def CheckTPM_def run_window_def quota_key_def)
  have w: "0 < w" "small w" using ok by (auto simp: small_def) (use rel in \<open>auto simp: window_rel_def set_rel_def\<close>)
  have pos: "0 < v" if "(x, v) \<in> set es" for x v using rel that by (auto simp: window_rel_def)
  have nonneg: "0 \<le> weight_after c es" for c
    unfolding weight_after_def by (rule sum_list_nonneg) (use pos in \<open>force split: if_splits\<close>)
  have weaken: "calls_ok q v now cs" if "calls_ok q (v + w) now cs" for v
    using calls_ok_mono [OF that, of v] w(1) by simp
  have later: "window_rel zset ctr dead s ?k es now"
    by (rule window_rel_later [OF rel]) (use ok in simp)
  have step: "if weight_after (now - window_ms) es + w \<le> limit
    then r = Inr (weight_after (now - window_ms) es + w) \<and> window_rel zset ctr dead s1 ?k (es @ [(now, w)]) now \<and>
      seq_value ctr s1 ?k = seq_value ctr s ?k + w
    else (\<exists>o_ts. r = Inr (- ((o_ts + window_ms - now) div 1000 + 1)) \<and> now - window_ms < o_ts) \<and>
      window_rel zset ctr dead s1 ?k es now \<and> seq_value ctr s1 ?k = seq_value ctr s ?k"
    using windowScript_refines [OF rel _ _ _ w lim(2) _ _ _ scr] ok
    by (auto simp: window_ms_def split: if_splits)
  show ?thesis
  proof (cases "weight_after (now - window_ms) es + w \<le> limit")
    case True
    with step res nonneg [of "now - window_ms"] w(1) ok weaken later show ?thesis
      by (cases f) (auto simp: spec_check_def)
  next
    case False
    then obtain o_ts where o_ts: "r = Inr (- ((o_ts + window_ms - now) div 1000 + 1))" "now - window_ms < o_ts"
      using step by auto
    have "0 \<le> (o_ts + window_ms - now) div 1000" using o_ts(2) by (simp add: pos_imp_zdiv_nonneg_iff)
    then have "adm = False \<and> s' \<in> {s, s1}" using res o_ts(1) by (cases f) auto
    with False step later ok weaken show ?thesis by (auto simp: spec_check_def)
  qed
qed

end
context redis_limits
begin

lemma quota_run_log:
  assumes "window_rel zset ctr dead s (quota_key q scope) es n0" and "0 < limit" "small limit" and "obeys_quota limit es"
    and "calls_ok q (seq_value ctr s (quota_key q scope)) n0 (cs @ ds)"
    and "quota_run Z q scope limit s cs = (s', adm)"
  shows "\<exists>es' n1. window_rel zset ctr dead s' (quota_key q scope) (es @ es') n1 \<and>
    calls_ok q (seq_value ctr s' (quota_key q scope)) n1 ds \<and> obeys_quota limit (es @ es') \<and> (\<forall>a b. weight_in a b adm \<le> weight_in a b es') \<and>
    ((\<forall>c\<in>set cs. fst c = NoFault) \<longrightarrow> adm = spec_run limit es cs)"
  using assms
proof (induction cs arbitrary: s es n0 adm)
  case (Cons c cs)
  obtain f t now w where c: "c = (f, t, now, w)" by (metis prod_cases4)
  obtain s1 retry ok where chk: "quota_check Z q scope limit s (f, t, now, w) = (s1, retry, ok)" by (metis prod_cases3)
  obtain adm1 where rest: "quota_run Z q scope limit s1 cs = (s', adm1)" and adm: "adm = (if ok then (now, w) # adm1 else adm1)"
    using Cons.prems(6) chk by (auto simp: c split: prod.splits)
  obtain es1 where es1: "es1 \<in> {es, fst (spec_check limit es now w)}" "window_rel zset ctr dead s1 (quota_key q scope) es1 now"
      "calls_ok q (seq_value ctr s1 (quota_key q scope)) now (cs @ ds)"
      "ok \<longrightarrow> spec_check limit es now w = (es1, True)" "f = NoFault \<longrightarrow> spec_check limit es now w = (es1, ok)"
    using quota_check_step [OF Cons.prems(1-3) Cons.prems(5) [unfolded c append_Cons] chk] by blast
  have pos: "\<And>n v. (n, v) \<in> set es \<Longrightarrow> 0 < v" using Cons.prems(1) by (auto simp: window_rel_def)
  have w: "0 < w" using Cons.prems(5) by (simp add: c)
  obtain d where d: "es1 = es @ d" "d = [] \<or> d = [(now, w)]" "ok \<longrightarrow> d = [(now, w)]"
    using es1(1,4) by (auto simp: spec_check_def split: if_splits)
  have "obeys_quota limit es1"
    using es1(1) Cons.prems(4) pos by (auto simp: spec_check_def intro: quota_admit split: if_splits)
  from Cons.IH [OF es1(2) Cons.prems(2,3) this es1(3) rest] obtain es' n1 where es':
      "obeys_quota limit (es1 @ es')" "\<And>a b. weight_in a b adm1 \<le> weight_in a b es'"
      "(\<forall>c\<in>set cs. fst c = NoFault) \<Longrightarrow> adm1 = spec_run limit es1 cs"
      "window_rel zset ctr dead s' (quota_key q scope) (es1 @ es') n1"
      "calls_ok q (seq_value ctr s' (quota_key q scope)) n1 ds"
    by blast
  have "weight_in a b adm \<le> weight_in a b (d @ es')" for a b
    using es'(2) [of a b] d(2,3) w by (auto simp: adm)
  moreover have "adm = spec_run limit es (c # cs)" if "\<forall>x\<in>set (c # cs). fst x = NoFault"
    using that es1(5) es'(3) by (simp add: c adm split: bool.splits)
  ultimately show ?case using es'(1,4,5) d(1) by (intro exI [of _ "d @ es'"] exI [of _ n1]) auto
qed (auto intro!: exI [of _ "[]"])

text \<open>The delay of a rejected request check is long enough for its oldest entry to leave.\<close>

lemma rpm_retry_admits:
  assumes rel: "window_rel zset ctr dead s (quota_key RPM scope) es n0" and lim: "0 < limit" "small limit"
    and obeys: "obeys_quota limit es"
    and ok: "calls_ok RPM (seq_value ctr s (quota_key RPM scope)) n0 [(NoFault, t, now, 1), (NoFault, t', now + 1000 * retry, 1)]"
    and rej: "CheckRPM Z NoFault t now s scope limit = (s', retry, False)"
  shows "snd (snd (CheckRPM Z NoFault t' (now + 1000 * retry) s' scope limit))"
proof -
  let ?k = "quota_key RPM scope"
  obtain s1 r where scr: "windowScript Z t s ?k now window_ms limit 1 = (s1, r)" by fastforce
  have s1: "s1 = s'" "(case r of Inl e \<Rightarrow> retry = retryAfterFor | Inr v \<Rightarrow> v < 0 \<and> retry = - v)"
    using rej scr lim(1) by (auto simp: CheckRPM_def run_window_def quota_key_def split: sum.splits if_splits)
  have n: "n0 \<le> now" "now \<le> t" "t < now + 1000" "0 \<le> now" "now < 10 ^ 14" using ok by simp_all
  have pos: "\<And>n v. (n, v) \<in> set es \<Longrightarrow> 0 < v" "\<And>n v. (n, v) \<in> set es \<Longrightarrow> n \<le> now"
    using rel n(1) by (auto simp: window_rel_def)
  let ?used = "weight_after (now - window_ms) es"
  have "?used = weight_in (now - window_ms) now es"
    unfolding weight_after_def weight_in_def using pos(2) by (auto intro!: arg_cong [of _ _ sum_list] map_cong)
  then have used: "?used \<le> limit" using obeys by (simp add: obeys_quota_def)
  note step = windowScript_refines [OF rel n(1-3) _ _ lim(2) n(4,5) _ scr, unfolded s1(1)]
  have nonneg: "0 \<le> weight_after c es" for c
    unfolding weight_after_def by (rule sum_list_nonneg) (use pos(1) in \<open>force split: if_splits\<close>)
  have "\<not> ?used + 1 \<le> limit"
    using step s1(2) ok nonneg [of "now - window_ms"] by (auto simp: small_def split: if_splits)
  with used have full: "?used = limit" by simp
  with step lim(1) ok obtain o_ts v where o_ts: "r = Inr (- ((o_ts + window_ms - now) div 1000 + 1))" "(o_ts, v) \<in> set es"
      "now - window_ms < o_ts" and rel': "window_rel zset ctr dead s' ?k es now" "seq_value ctr s' ?k = seq_value ctr s ?k"
    by (auto simp: small_def split: if_splits)
  have retry: "retry = (o_ts + window_ms - now) div 1000 + 1" using s1(2) o_ts(1) by simp
  have "o_ts + window_ms - now < 1000 * retry" unfolding retry by simp
  then have gone: "o_ts \<le> now + 1000 * retry - window_ms" by simp
  let ?c = "now + 1000 * retry - window_ms"
  have later: "now - window_ms \<le> ?c" using gone o_ts(3) by simp
  have "weight_after ?c xs \<le> weight_after (now - window_ms) xs - (if (o_ts, v) \<in> set xs then v else 0)"
    if "set xs \<subseteq> set es" for xs
    using that
  proof (induction xs)
    case (Cons x xs)
    have "0 < snd x" "0 < v" using Cons.prems pos(1) [of "fst x" "snd x"] pos(1) [OF o_ts(2)] by auto
    moreover have "weight_after ?c xs \<le> weight_after (now - window_ms) xs - (if (o_ts, v) \<in> set xs then v else 0)"
      by (rule Cons.IH) (use Cons.prems in simp)
    ultimately show ?case using gone o_ts(3) later by (cases "x = (o_ts, v)") (auto split: if_splits)
  qed simp
  from this [of es] have room: "weight_after ?c es + 1 \<le> limit"
    using pos(1) [OF o_ts(2)] o_ts(2) full by auto
  obtain s2 rt adm where "quota_check Z RPM scope limit s' (NoFault, t', now + 1000 * retry, 1) = (s2, rt, adm)"
    by (metis prod_cases3)
  with quota_check_step [OF rel'(1) lim, of NoFault t' "now + 1000 * retry" 1 "[]"] ok rel'(2) room
  show ?thesis by (auto simp: spec_check_def quota_check_def)
qed

end
section \<open>Concurrent requests on one in-flight counter\<close>

text \<open>
  Each request is in one of three states; \<open>Over\<close> is a request whose \<open>INCR\<close> went past the
  limit and which has not given the slot back yet. The rules are the commands of \<open>Acquire\<close>
  and \<open>Done\<close>, in any interleaving, while the counter's key has not expired.
\<close>

datatype slot = Idle | Over | Holding

inductive istep ::
  "'z limit_redis \<Rightarrow> ('z \<Rightarrow> string \<Rightarrow> int option) \<Rightarrow> string \<Rightarrow> int \<Rightarrow> 'z \<times> slot list \<Rightarrow> 'z \<times> slot list \<Rightarrow> bool"
  for Z dead scope limit where
  renew: "live dead t s (inflightKey scope) \<Longrightarrow>
    istep Z dead scope limit (s, sl) (renew_ttl Z NoFault NoFault t s (inflightKey scope), sl)"
| take: "live dead t s (inflightKey scope) \<Longrightarrow> i < length sl \<Longrightarrow> sl ! i = Idle \<Longrightarrow>
    incr_cmd Z NoFault t s (inflightKey scope) 1 = (s', Inr cur) \<Longrightarrow>
    istep Z dead scope limit (s, sl) (s', sl[i := if cur > limit then Over else Holding])"
| give_back: "live dead t s (inflightKey scope) \<Longrightarrow> i < length sl \<Longrightarrow> sl ! i = Over \<Longrightarrow>
    istep Z dead scope limit (s, sl) (fst (incr_cmd Z NoFault t s (inflightKey scope) (- 1)), sl[i := Idle])"
| finish: "live dead t s (inflightKey scope) \<Longrightarrow> i < length sl \<Longrightarrow> sl ! i = Holding \<Longrightarrow>
    istep Z dead scope limit (s, sl) (Limiter_Done Z NoFault t s scope, sl[i := Idle])"

inductive_cases istepE: "istep Z dead scope limit X Y"

definition taken :: "slot list \<Rightarrow> int" where
  "taken sl = int (length (filter (\<lambda>x. x \<noteq> Idle) sl))"

definition holders :: "slot list \<Rightarrow> int" where
  "holders sl = int (length (filter (\<lambda>x. x = Holding) sl))"

definition counter :: "('z \<Rightarrow> string \<Rightarrow> int option) \<Rightarrow> 'z \<Rightarrow> string \<Rightarrow> int" where
  "counter ctr s scope = (case ctr s (inflightKey scope) of None \<Rightarrow> 0 | Some v \<Rightarrow> v)"

definition inflight_inv ::
  "('z \<Rightarrow> string \<Rightarrow> (string \<times> int) list) \<Rightarrow> ('z \<Rightarrow> string \<Rightarrow> int option) \<Rightarrow> string \<Rightarrow> int \<Rightarrow> nat \<Rightarrow> 'z \<times> slot list \<Rightarrow> bool" where
  "inflight_inv zset ctr scope limit n X \<longleftrightarrow>
     zset (fst X) (inflightKey scope) = [] \<and> length (snd X) = n \<and>
     counter ctr (fst X) scope = taken (snd X) \<and> holders (snd X) \<le> limit"

lemma length_filter_update:
  "i < length xs \<Longrightarrow> length (filter P (xs[i := x])) + (if P (xs ! i) then 1 else 0) =
     length (filter P xs) + (if P x then 1 else 0)"
proof (induction xs arbitrary: i)
  case (Cons y ys)
  then show ?case by (cases i) auto
qed simp

lemma taken_update:
  "i < length sl \<Longrightarrow> taken (sl[i := x]) = taken sl - (if sl ! i \<noteq> Idle then 1 else 0) + (if x \<noteq> Idle then 1 else 0)"
  using length_filter_update [of i sl "\<lambda>x. x \<noteq> Idle" x] by (auto simp: taken_def split: if_splits)

lemma holders_update:
  "i < length sl \<Longrightarrow> holders (sl[i := x]) = holders sl - (if sl ! i = Holding then 1 else 0) + (if x = Holding then 1 else 0)"
  using length_filter_update [of i sl "\<lambda>x. x = Holding" x] by (auto simp: holders_def split: if_splits)

lemma taken_bounds: "0 \<le> taken sl" "taken sl \<le> int (length sl)" "holders sl \<le> taken sl"
proof -
  show "0 \<le> taken sl" "taken sl \<le> int (length sl)" by (simp_all add: taken_def)
  have "length (filter (\<lambda>x. x = Holding) sl) \<le> length (filter (\<lambda>x. x \<noteq> Idle) sl)"
    by (induction sl) auto
  then show "holders sl \<le> taken sl" by (simp add: taken_def holders_def)
qed

context redis_limits
begin

lemma incr_cmd_ok:
  assumes "live dead t s (inflightKey scope)" and "zset s (inflightKey scope) = []" and "in64 (counter ctr s scope + d)"
  shows "\<exists>s'. incr_cmd Z NoFault t s (inflightKey scope) d = (s', Inr (counter ctr s scope + d)) \<and>
    counter ctr s' scope = counter ctr s scope + d \<and> zset s' (inflightKey scope) = [] \<and> dead s' = dead s"
proof -
  have "ctr0 dead ctr t s (inflightKey scope) = counter ctr s scope"
    using assms(1) by (simp add: ctr0_def counter_def)
  with incr [of t s "inflightKey scope" d] assms show ?thesis
    by (force simp: incr_cmd_def counter_def range)
qed

lemma renew_ttl_keeps:
  "zset (renew_ttl Z f1 f2 t s k) = zset s \<and> ctr (renew_ttl Z f1 f2 t s k) = ctr s \<and>
   (live dead t s k \<longrightarrow> live dead t (renew_ttl Z f1 f2 t s k) k)"
proof -
  have "zset (z_expire Z t s k 120) = zset s \<and> ctr (z_expire Z t s k 120) = ctr s \<and>
      (live dead t s k \<longrightarrow> live dead t (z_expire Z t s k 120) k)"
  proof (cases "z_range Z t s k \<noteq> [] \<or> (live dead t s k \<and> ctr s k \<noteq> None)")
    case True
    with expire [OF refl, of 120 t s k] show ?thesis by (simp add: live_def)
  next
    case False
    with expire_absent [OF refl, of 120 t s k] show ?thesis by (simp add: live_def)
  qed
  then show ?thesis by (cases f2) (auto simp: renew_ttl_def window_ms_def Let_def)
qed

lemma istep_inv:
  assumes "istep Z dead scope limit X Y" and "inflight_inv zset ctr scope limit n X" and "n < 2 ^ 62"
  shows "inflight_inv zset ctr scope limit n Y"
  using assms(1)
proof (cases rule: istep.cases)
  case (renew t s sl)
  with assms(2) renew_ttl_keeps [of NoFault NoFault t s "inflightKey scope"] show ?thesis
    by (simp add: inflight_inv_def counter_def)
next
  case (take t s i sl s' cur)
  note I = assms(2) [unfolded take(1) inflight_inv_def fst_conv snd_conv]
  have "in64 (counter ctr s scope + 1)"
    using I assms(3) taken_bounds [of sl] by (simp add: in64_def)
  from incr_cmd_ok [OF take(3) conjunct1 [OF I] this] I take(6) have "cur = counter ctr s scope + 1" "counter ctr s' scope = cur"
      "zset s' (inflightKey scope) = []"
    by auto
  with I take(4,5) taken_bounds(3) [of sl] show ?thesis
    by (simp add: take(2) inflight_inv_def taken_update holders_update)
next
  case (give_back t s i sl)
  note I = assms(2) [unfolded give_back(1) inflight_inv_def fst_conv snd_conv]
  have "in64 (counter ctr s scope + - 1)"
    using I assms(3) taken_bounds [of sl] by (simp add: in64_def)
  from incr_cmd_ok [OF give_back(3) conjunct1 [OF I] this] I give_back(4,5) show ?thesis
    by (fastforce simp: give_back(2) inflight_inv_def taken_update holders_update)
next
  case (finish t s i sl)
  note I = assms(2) [unfolded finish(1) inflight_inv_def fst_conv snd_conv]
  have "in64 (counter ctr s scope + - 1)"
    using I assms(3) taken_bounds [of sl] by (simp add: in64_def)
  from incr_cmd_ok [OF finish(3) conjunct1 [OF I] this] I finish(4,5) show ?thesis
    by (fastforce simp: finish(2) inflight_inv_def taken_update holders_update Limiter_Done_def)
qed

lemma isteps_inv:
  assumes "(istep Z dead scope limit)\<^sup>*\<^sup>* X Y" and "inflight_inv zset ctr scope limit n X" and "n < 2 ^ 62"
  shows "inflight_inv zset ctr scope limit n Y"
  using assms by (induction rule: rtranclp_induct) (blast intro: istep_inv)+

text \<open>An \<open>Acquire\<close> whose commands are all answered is a sequence of these steps.\<close>

lemma Acquire_outcome:
  assumes "live dead t s (inflightKey scope)" "zset s (inflightKey scope) = []" "0 < limit"
    and "in64 (counter ctr s scope + 1)" "in64 (counter ctr s scope)"
  shows "\<exists>s'. Acquire Z [] t s scope limit = (s', counter ctr s scope + 1 \<le> limit, []) \<and>
    counter ctr s' scope = (if counter ctr s scope + 1 \<le> limit then counter ctr s scope + 1 else counter ctr s scope) \<and>
    zset s' (inflightKey scope) = [] \<and> live dead t s' (inflightKey scope)"
proof -
  let ?k = "inflightKey scope"
  define s1 where "s1 = renew_ttl Z NoFault NoFault t s ?k"
  have s1: "live dead t s1 ?k" "zset s1 ?k = []" "counter ctr s1 scope = counter ctr s scope"
    using renew_ttl_keeps [of NoFault NoFault t s ?k] assms by (simp_all add: s1_def counter_def)
  obtain s2 where s2: "incr_cmd Z NoFault t s1 ?k 1 = (s2, Inr (counter ctr s scope + 1))"
      "counter ctr s2 scope = counter ctr s scope + 1" "zset s2 ?k = []" "dead s2 = dead s1"
    using incr_cmd_ok [OF s1(1,2), of 1] assms(4) s1(3) by auto
  have "live dead t s2 ?k" using s1(1) s2(4) by (simp add: live_def)
  then obtain s3 where s3: "incr_cmd Z NoFault t s2 ?k (- 1) = (s3, Inr (counter ctr s scope))"
      "counter ctr s3 scope = counter ctr s scope" "zset s3 ?k = []" "dead s3 = dead s2"
    using incr_cmd_ok [of t s2 scope "- 1"] assms(5) s2(2,3) by auto
  show ?thesis
    using assms(3) s1(1) s2 s3 by (auto simp: Acquire_def Let_def s1_def live_def)
qed

lemma Done_outcome:
  assumes "live dead t s (inflightKey scope)" "zset s (inflightKey scope) = []" "in64 (counter ctr s scope - 1)"
  shows "counter ctr (Limiter_Done Z NoFault t s scope) scope = counter ctr s scope - 1 \<and>
    zset (Limiter_Done Z NoFault t s scope) (inflightKey scope) = [] \<and> dead (Limiter_Done Z NoFault t s scope) = dead s"
  using incr_cmd_ok [OF assms(1,2), of "- 1"] assms(3) by (auto simp: Limiter_Done_def)

end
section \<open>Properties\<close>


definition three_calls :: "quota_call list" where
  "three_calls = [(NoFault, 1000, 1000, 1), (NoFault, 1500, 1500, 1), (NoFault, 1600, 1600, 1)]"




text \<open>Theorem: The retry delay of a request quota is enough. After any history of a key's request
  checks, a check that is rejected with a delay and is repeated after that delay, with no
  other admission in between, is admitted.\<close>

theorem retry_after_is_enough:
  assumes "redis_limits Z zset ctr dead" and "unused_key zset ctr dead s (quota_key RPM scope)"
    and "0 < limit" "small limit"
    and "calls_ok RPM 0 0 (cs @ [(NoFault, t, now, 1), (NoFault, t', now + 1000 * retry, 1)])"
    and "CheckRPM Z NoFault t now (fst (quota_run Z RPM scope limit s cs)) scope limit = (s', retry, False)"
  shows "snd (snd (CheckRPM Z NoFault t' (now + 1000 * retry) s' scope limit))"
proof -
  let ?s = "fst (quota_run Z RPM scope limit s cs)" and ?k = "quota_key RPM scope"
  have "seq_value ctr s ?k = 0" using assms(2) by (simp add: seq_value_def unused_key_def)
  then obtain es n1 where "window_rel zset ctr dead ?s ?k es n1" "obeys_quota limit es"
      "calls_ok RPM (seq_value ctr ?s ?k) n1 [(NoFault, t, now, 1), (NoFault, t', now + 1000 * retry, 1)]"
    using redis_limits.quota_run_log [OF assms(1) redis_limits.unused_rel [OF assms(1,2)] assms(3,4),
        of 0 cs "[(NoFault, t, now, 1), (NoFault, t', now + 1000 * retry, 1)]" ?s "snd (quota_run Z RPM scope limit s cs)"]
      assms(3,5)
    by (auto simp: obeys_quota_def simp del: calls_ok.simps)
  then show ?thesis
    using redis_limits.rpm_retry_admits [OF assms(1) _ assms(3,4) _ _ assms(6)] by blast
qed

definition once_called :: memz where
  "once_called = fst (quota_run mem_limits RPM ''k'' 1 empty_memz [(NoFault, 1000, 1000, 1)])"

theorem retry_after_is_enough_witness:
  "\<exists>s'. CheckRPM mem_limits NoFault 2000 2000 once_called ''k'' 1 = (s', 60, False) \<and>
     snd (snd (CheckRPM mem_limits NoFault 62000 62000 s' ''k'' 1))"
proof -
  have "snd (CheckRPM mem_limits NoFault 2000 2000 once_called ''k'' 1) = (60, False)" by code_simp
  then obtain s' where s': "CheckRPM mem_limits NoFault 2000 2000 once_called ''k'' 1 = (s', 60, False)"
    by (cases "CheckRPM mem_limits NoFault 2000 2000 once_called ''k'' 1") simp
  have "snd (snd (CheckRPM mem_limits NoFault 62000 (2000 + 1000 * 60) s' ''k'' 1))"
    by (rule retry_after_is_enough [OF mem_limits.redis_limits_axioms, of empty_memz "''k''" 1
          "[(NoFault, 1000, 1000, 1)]" 2000 2000 62000 60 s'])
      (use s' in \<open>simp_all add: unused_key_def empty_memz_def small_def once_called_def [unfolded empty_memz_def]\<close>)
  with s' show ?thesis by auto
qed



text \<open>Theorem: Releasing without a slot voids the limit. A key without a concurrency limit takes no
  slot but every request of it releases one; after \<open>n\<close> such requests the counter stands at
  \<open>- n\<close>, and when a limit is configured then, that many requests more than the limit are
  admitted at once.\<close>

theorem done_without_acquire_voids_limit:
  assumes "redis_limits Z zset ctr dead" and "zset s (inflightKey scope) = []" and "ctr s (inflightKey scope) = None"
    and "live dead t s (inflightKey scope)" and "0 < limit" and "limit < 2 ^ 62" "n < 2 ^ 62"
  defines "drained \<equiv> ((\<lambda>s. Limiter_Done Z NoFault t s scope) ^^ n) s"
  shows "counter ctr drained scope = - int n \<and>
    (\<forall>m. int m \<le> limit + int n \<longrightarrow>
       counter ctr (((\<lambda>s. fst (Acquire Z [] t s scope limit)) ^^ m) drained) scope = int m - int n) \<and>
    (\<forall>m. int m < limit + int n \<longrightarrow>
       fst (snd (Acquire Z [] t (((\<lambda>s. fst (Acquire Z [] t s scope limit)) ^^ m) drained) scope limit)))"
proof -
  define P where "P v x \<longleftrightarrow> counter ctr x scope = v \<and> zset x (inflightKey scope) = [] \<and> live dead t x (inflightKey scope)" for v x
  have down: "P (v - 1) (Limiter_Done Z NoFault t x scope)" if "P v x" "in64 (v - 1)" for v x
    using redis_limits.Done_outcome [OF assms(1), of t x scope] that by (auto simp: P_def live_def)
  have up: "fst (snd (Acquire Z [] t x scope limit)) \<and> P (v + 1) (fst (Acquire Z [] t x scope limit))"
    if "P v x" "v + 1 \<le> limit" "in64 (v + 1)" "in64 v" for v x
    using redis_limits.Acquire_outcome [OF assms(1) _ _ assms(5), of t x scope] that by (auto simp: P_def)
  have "P (- int k) (((\<lambda>s. Limiter_Done Z NoFault t s scope) ^^ k) s)" if "k \<le> n" for k
    using that
  proof (induction k)
    case 0
    show ?case using assms(2-4) by (simp add: P_def counter_def)
  next
    case (Suc k)
    then have "P (- int k - 1) (((\<lambda>s. Limiter_Done Z NoFault t s scope) ^^ Suc k) s)"
      using down [of "- int k"] assms(7) by (simp add: in64_def)
    moreover have "- int k - 1 = - int (Suc k)" by simp
    ultimately show ?case by metis
  qed
  then have drained: "P (- int n) drained" by (simp add: drained_def)
  have reach: "P (int m - int n) (((\<lambda>s. fst (Acquire Z [] t s scope limit)) ^^ m) drained)" if "int m \<le> limit + int n" for m
    using that
  proof (induction m)
    case (Suc m)
    then have "P (int m - int n + 1) (((\<lambda>s. fst (Acquire Z [] t s scope limit)) ^^ Suc m) drained)"
      using up [of "int m - int n"] assms(6,7) by (simp add: in64_def)
    moreover have "int m - int n + 1 = int (Suc m) - int n" by simp
    ultimately show ?case by metis
  qed (simp add: drained)
  have "fst (snd (Acquire Z [] t (((\<lambda>s. fst (Acquire Z [] t s scope limit)) ^^ m) drained) scope limit))"
    if "int m < limit + int n" for m
    using up [OF reach [of m]] that assms(6,7) by (simp add: in64_def)
  with drained reach show ?thesis by (auto simp: P_def)
qed

theorem done_without_acquire_voids_limit_witness:
  "fst (snd (Acquire mem_limits [] 5 (((\<lambda>s. fst (Acquire mem_limits [] 5 s ''k'' 1)) ^^ 2)
     (((\<lambda>s. Limiter_Done mem_limits NoFault 5 s ''k'') ^^ 2) empty_memz)) ''k'' 1))"
  using done_without_acquire_voids_limit [OF mem_limits.redis_limits_axioms, of empty_memz "''k''" 5 1 2]
  by (simp add: empty_memz_def live_def)
definition no_limits :: Limits where
  "no_limits = \<lparr>lm_RPM = 0, lm_TPM = 0, lm_Concurrency = 0, lm_EndUserRPM = 0, lm_EndUserTPM = 0\<rparr>"

definition one_slot_key :: key_info where
  "one_slot_key =
     \<lparr>ki_Limits = Inr (no_limits\<lparr>lm_Concurrency := 1\<rparr>), ki_Resolve = Inr 7,
      ki_Chain = (\<lambda>_. Inr \<lparr>ci_User = no_limits\<lparr>lm_RPM := 1\<rparr>, ci_ProjectID = 0, ci_Project = no_limits,
        ci_TeamID = 0, ci_Team = no_limits, ci_OrgID = 0, ci_Org = no_limits\<rparr>)\<rparr>"

definition slot_clock :: clock where
  "slot_clock n = (if n < 3 then (1000, 1000) else if n < 5 then (2000, 2000) else (70000, 70000))"

definition slot_start :: "memz lim" where
  "slot_start = \<lparr>l_s = empty_memz, l_fs = [], l_n = 0\<rparr>"

text \<open>Theorem: A request rejected by a higher layer keeps its key's slot. The slot is taken before
  the user, project, team and organisation budgets are checked and nothing gives it back
  when one of them rejects. Here a key with one slot, of a user with one request a minute:
  the first request is served and releases its slot, the second is rejected by the user's
  budget, and a third one, long after the minute is over, is rejected by the key's own
  concurrency limit although no request is in flight.\<close>

theorem rejected_request_keeps_slot:
  "\<exists>L1 L2 L3.
     Budget_Allow mem_limits slot_clock one_slot_key ''sk'' [] 10 slot_start = (L1, Admit) \<and>
     Budget_Allow mem_limits slot_clock one_slot_key ''sk'' [] 10 (Budget_Done mem_limits slot_clock ''sk'' L1) =
       (L2, Reject ''user'' 0) \<and>
     Budget_Allow mem_limits slot_clock one_slot_key ''sk'' [] 10 L2 = (L3, Reject ''key'' 0)"
proof -
  define L1 where "L1 = fst (Budget_Allow mem_limits slot_clock one_slot_key ''sk'' [] 10 slot_start)"
  define L2 where "L2 = fst (Budget_Allow mem_limits slot_clock one_slot_key ''sk'' [] 10 (Budget_Done mem_limits slot_clock ''sk'' L1))"
  have "snd (Budget_Allow mem_limits slot_clock one_slot_key ''sk'' [] 10 slot_start) = Admit" by code_simp
  moreover have "snd (Budget_Allow mem_limits slot_clock one_slot_key ''sk'' [] 10 (Budget_Done mem_limits slot_clock ''sk'' L1)) =
      Reject ''user'' 0"
    unfolding L1_def by code_simp
  moreover have "snd (Budget_Allow mem_limits slot_clock one_slot_key ''sk'' [] 10 L2) = Reject ''key'' 0"
    unfolding L2_def L1_def by code_simp
  ultimately show ?thesis unfolding L1_def L2_def by (metis prod.collapse)
qed

text \<open>
  The usage gauge is a ratio of the window, and the token quota hides the request quota:
  when both are configured and the server answers, the gauge shows the token ratio alone.
\<close>

lemma usage_ratio_bounds: "0 \<le> n \<Longrightarrow> 0 \<le> usage_ratio n limit \<and> usage_ratio n limit \<le> 1"
  by (simp add: usage_ratio_def Let_def)

lemma sample_shows_token_ratio:
  assumes "0 < sc_TPM sc"
  shows "fst (sample_scope Z t s (m, []) sc) (sc_Layer sc, scopeName (sc_Layer sc) (sc_ID sc)) =
    Some (usage_ratio (int (length (z_range Z t s (''rl:'' @ scopeName (sc_Layer sc) (sc_ID sc) @ '':tpm'')))) (sc_TPM sc))"
  using assms by (simp add: sample_scope_def Let_def)

end
