(* ===== verification/Auth_Store.thy ===== *)
theory Auth_Store
  imports Rate_Limit Order_Store
begin

text \<open>
  \<open>internal/auth/auth.go\<close> over the tables of \<open>schema.sql\<close>: organisations, teams, projects, users
  and API keys, the budget chain of a user, registration and login, and the cached key store of
  the gateway. Tables are lists of rows; every operation is one SQL statement and takes the
  outcome of that call. A serial column takes the next number of its sequence, also when the
  insert is then rejected. Foreign keys reject a row that refers to a missing one. Bcrypt and
  SHA-256 are arguments.
\<close>

section \<open>Tables\<close>

record Org =
  og_ID :: int
  og_Name :: string
  og_RPM :: int
  og_TPM :: int

record Team =
  tm_ID :: int
  tm_Name :: string
  tm_OrgID :: "int option"
  tm_RPM :: int
  tm_TPM :: int

record Project =
  pj_ID :: int
  pj_Name :: string
  pj_TeamID :: "int option"
  pj_RPM :: int
  pj_TPM :: int

record user_row =
  us_ID :: int
  us_Username :: string
  us_Hash :: string
  us_Status :: int
  us_RPM :: int
  us_TPM :: int
  us_ProjectID :: "int option"

record key_row =
  ak_ID :: int
  ak_UserID :: int
  ak_Hash :: string
  ak_Name :: string
  ak_Status :: int
  ak_LastUsed :: "int option"
  ak_Limits :: Limits

record identity_row =
  xi_Provider :: string
  xi_Subject :: string
  xi_UserID :: int

text \<open>\<open>ad_seqs\<close>: the next values of the sequences of orgs, teams, projects, users and keys.\<close>

record seqs =
  sq_org :: int
  sq_team :: int
  sq_project :: int
  sq_user :: int
  sq_key :: int

record authdb =
  ad_orgs :: "Org list"
  ad_teams :: "Team list"
  ad_projects :: "Project list"
  ad_users :: "user_row list"
  ad_keys :: "key_row list"
  ad_identities :: "identity_row list"
  ad_seqs :: seqs

definition empty_auth :: authdb where
  "empty_auth = \<lparr>ad_orgs = [], ad_teams = [], ad_projects = [], ad_users = [], ad_keys = [], ad_identities = [],
     ad_seqs = \<lparr>sq_org = 1, sq_team = 1, sq_project = 1, sq_user = 1, sq_key = 1\<rparr>\<rparr>"

definition find_org :: "authdb \<Rightarrow> int \<Rightarrow> Org option" where
  "find_org db i = find (\<lambda>r. og_ID r = i) (ad_orgs db)"

definition find_team :: "authdb \<Rightarrow> int \<Rightarrow> Team option" where
  "find_team db i = find (\<lambda>r. tm_ID r = i) (ad_teams db)"

definition find_project :: "authdb \<Rightarrow> int \<Rightarrow> Project option" where
  "find_project db i = find (\<lambda>r. pj_ID r = i) (ad_projects db)"

definition find_user :: "authdb \<Rightarrow> int \<Rightarrow> user_row option" where
  "find_user db i = find (\<lambda>r. us_ID r = i) (ad_users db)"

definition find_username :: "authdb \<Rightarrow> string \<Rightarrow> user_row option" where
  "find_username db n = find (\<lambda>r. us_Username r = n) (ad_users db)"

definition find_key :: "authdb \<Rightarrow> string \<Rightarrow> key_row option" where
  "find_key db h = find (\<lambda>r. ak_Hash r = h) (ad_keys db)"

definition quota :: "int \<Rightarrow> int \<Rightarrow> Limits" where
  "quota rpm tpm = \<lparr>lm_RPM = rpm, lm_TPM = tpm, lm_Concurrency = 0, lm_EndUserRPM = 0, lm_EndUserTPM = 0\<rparr>"

definition update_where :: "('a \<Rightarrow> bool) \<Rightarrow> ('a \<Rightarrow> 'a) \<Rightarrow> 'a list \<Rightarrow> 'a list" where
  "update_where P f xs = map (\<lambda>r. if P r then f r else r) xs"

definition row_or_none :: "'a option \<Rightarrow> go_error + 'a" where
  "row_or_none r = (case r of None \<Rightarrow> Inl ErrNoRows | Some x \<Rightarrow> Inr x)"

section \<open>The hierarchy\<close>

definition ResolveUserLimits :: "fault \<Rightarrow> authdb \<Rightarrow> int \<Rightarrow> go_error + Limits" where
  "ResolveUserLimits f db userID = query f (row_or_none (map_option (\<lambda>u. quota (us_RPM u) (us_TPM u)) (find_user db userID)))"

definition SetUserLimits :: "fault \<Rightarrow> authdb \<Rightarrow> int \<Rightarrow> int \<Rightarrow> int \<Rightarrow> authdb \<times> (go_error + unit)" where
  "SetUserLimits f db userID rpm tpm =
     call_service f db (db\<lparr>ad_users := update_where (\<lambda>u. us_ID u = userID) (\<lambda>u. u\<lparr>us_RPM := rpm, us_TPM := tpm\<rparr>) (ad_users db)\<rparr>, Inr ())"

definition CreateOrg :: "fault \<Rightarrow> authdb \<Rightarrow> string \<Rightarrow> int \<Rightarrow> int \<Rightarrow> authdb \<times> (go_error + Org)" where
  "CreateOrg f db name rpm tpm =
     (let i = sq_org (ad_seqs db); r = \<lparr>og_ID = i, og_Name = name, og_RPM = rpm, og_TPM = tpm\<rparr>
      in call_service f db (db\<lparr>ad_orgs := ad_orgs db @ [r], ad_seqs := (ad_seqs db)\<lparr>sq_org := i + 1\<rparr>\<rparr>, Inr r))"

definition SetOrgLimits :: "fault \<Rightarrow> authdb \<Rightarrow> int \<Rightarrow> int \<Rightarrow> int \<Rightarrow> authdb \<times> (go_error + unit)" where
  "SetOrgLimits f db orgID rpm tpm =
     call_service f db (db\<lparr>ad_orgs := update_where (\<lambda>r. og_ID r = orgID) (\<lambda>r. r\<lparr>og_RPM := rpm, og_TPM := tpm\<rparr>) (ad_orgs db)\<rparr>, Inr ())"

definition ResolveOrgLimits :: "fault \<Rightarrow> authdb \<Rightarrow> int \<Rightarrow> go_error + Limits" where
  "ResolveOrgLimits f db orgID = query f (row_or_none (map_option (\<lambda>r. quota (og_RPM r) (og_TPM r)) (find_org db orgID)))"

definition CreateTeam :: "fault \<Rightarrow> authdb \<Rightarrow> string \<Rightarrow> int \<Rightarrow> int \<Rightarrow> int \<Rightarrow> authdb \<times> (go_error + Team)" where
  "CreateTeam f db name orgID rpm tpm =
     (let i = sq_team (ad_seqs db);
          r = \<lparr>tm_ID = i, tm_Name = name, tm_OrgID = Some orgID, tm_RPM = rpm, tm_TPM = tpm\<rparr>;
          db1 = db\<lparr>ad_seqs := (ad_seqs db)\<lparr>sq_team := i + 1\<rparr>\<rparr>
      in call_service f db
           (if find_org db orgID = None then (db1, Inl ErrService)
            else (db1\<lparr>ad_teams := ad_teams db @ [r]\<rparr>, Inr r)))"

definition SetTeamLimits :: "fault \<Rightarrow> authdb \<Rightarrow> int \<Rightarrow> int \<Rightarrow> int \<Rightarrow> authdb \<times> (go_error + unit)" where
  "SetTeamLimits f db teamID rpm tpm =
     call_service f db (db\<lparr>ad_teams := update_where (\<lambda>r. tm_ID r = teamID) (\<lambda>r. r\<lparr>tm_RPM := rpm, tm_TPM := tpm\<rparr>) (ad_teams db)\<rparr>, Inr ())"

definition ResolveTeamLimits :: "fault \<Rightarrow> authdb \<Rightarrow> int \<Rightarrow> go_error + Limits" where
  "ResolveTeamLimits f db teamID = query f (row_or_none (map_option (\<lambda>r. quota (tm_RPM r) (tm_TPM r)) (find_team db teamID)))"

text \<open>An update that matches no row succeeds without checking the reference.\<close>

definition SetProjectTeam :: "fault \<Rightarrow> authdb \<Rightarrow> int \<Rightarrow> int \<Rightarrow> authdb \<times> (go_error + unit)" where
  "SetProjectTeam f db projectID teamID =
     call_service f db
       (if find_project db projectID \<noteq> None \<and> find_team db teamID = None then (db, Inl ErrService)
        else (db\<lparr>ad_projects := update_where (\<lambda>r. pj_ID r = projectID) (\<lambda>r. r\<lparr>pj_TeamID := Some teamID\<rparr>) (ad_projects db)\<rparr>, Inr ()))"

definition coalesce :: "int option \<Rightarrow> int" where
  "coalesce x = (case x of None \<Rightarrow> 0 | Some n \<Rightarrow> n)"

definition TeamOfProject :: "fault \<Rightarrow> authdb \<Rightarrow> int \<Rightarrow> go_error + int" where
  "TeamOfProject f db projectID = query f (row_or_none (map_option (\<lambda>r. coalesce (pj_TeamID r)) (find_project db projectID)))"

definition OrgOfTeam :: "fault \<Rightarrow> authdb \<Rightarrow> int \<Rightarrow> go_error + int" where
  "OrgOfTeam f db teamID = query f (row_or_none (map_option (\<lambda>r. coalesce (tm_OrgID r)) (find_team db teamID)))"

definition CreateProject :: "fault \<Rightarrow> authdb \<Rightarrow> string \<Rightarrow> int \<Rightarrow> int \<Rightarrow> authdb \<times> (go_error + Project)" where
  "CreateProject f db name rpm tpm =
     (let i = sq_project (ad_seqs db);
          r = \<lparr>pj_ID = i, pj_Name = name, pj_TeamID = None, pj_RPM = rpm, pj_TPM = tpm\<rparr>
      in call_service f db (db\<lparr>ad_projects := ad_projects db @ [r], ad_seqs := (ad_seqs db)\<lparr>sq_project := i + 1\<rparr>\<rparr>, Inr r))"

definition SetProjectLimits :: "fault \<Rightarrow> authdb \<Rightarrow> int \<Rightarrow> int \<Rightarrow> int \<Rightarrow> authdb \<times> (go_error + unit)" where
  "SetProjectLimits f db projectID rpm tpm =
     call_service f db (db\<lparr>ad_projects := update_where (\<lambda>r. pj_ID r = projectID) (\<lambda>r. r\<lparr>pj_RPM := rpm, pj_TPM := tpm\<rparr>) (ad_projects db)\<rparr>, Inr ())"

definition ResolveProjectLimits :: "fault \<Rightarrow> authdb \<Rightarrow> int \<Rightarrow> go_error + Limits" where
  "ResolveProjectLimits f db projectID =
     query f (row_or_none (map_option (\<lambda>r. quota (pj_RPM r) (pj_TPM r)) (find_project db projectID)))"

definition SetUserProject :: "fault \<Rightarrow> authdb \<Rightarrow> int \<Rightarrow> int \<Rightarrow> authdb \<times> (go_error + unit)" where
  "SetUserProject f db userID projectID =
     call_service f db
       (if find_user db userID \<noteq> None \<and> find_project db projectID = None then (db, Inl ErrService)
        else (db\<lparr>ad_users := update_where (\<lambda>u. us_ID u = userID) (\<lambda>u. u\<lparr>us_ProjectID := Some projectID\<rparr>) (ad_users db)\<rparr>, Inr ()))"

definition ProjectOfUser :: "fault \<Rightarrow> authdb \<Rightarrow> int \<Rightarrow> go_error + int" where
  "ProjectOfUser f db userID = query f (row_or_none (map_option (\<lambda>u. coalesce (us_ProjectID u)) (find_user db userID)))"

section \<open>Accounts\<close>

record User =
  u_ID :: int
  u_Username :: string
  u_Status :: int

text \<open>
  \<open>gen\<close> is \<open>bcrypt.GenerateFromPassword\<close> (\<open>None\<close> when it fails), \<open>chk\<close> is
  \<open>bcrypt.CompareHashAndPassword\<close>. A duplicate name makes the insert return no row.
\<close>

definition Register :: "(string \<Rightarrow> string option) \<Rightarrow> fault \<Rightarrow> authdb \<Rightarrow> string \<Rightarrow> string \<Rightarrow> authdb \<times> (go_error + User)" where
  "Register gen f db username password =
     (if username = [] \<or> length password < 8 then (db, Inl (ErrInvalidInput ''username required, password >= 8 chars''))
      else case gen password of
        None \<Rightarrow> (db, Inl (ErrInvalidInput ''bcrypt''))
      | Some hash \<Rightarrow>
          (let i = sq_user (ad_seqs db); db1 = db\<lparr>ad_seqs := (ad_seqs db)\<lparr>sq_user := i + 1\<rparr>\<rparr>;
               r = \<lparr>us_ID = i, us_Username = username, us_Hash = hash, us_Status = 1, us_RPM = 0, us_TPM = 0, us_ProjectID = None\<rparr>
           in call_service f db
                (if find_username db username \<noteq> None then (db1, Inl ErrUserExists)
                 else (db1\<lparr>ad_users := ad_users db @ [r]\<rparr>, Inr \<lparr>u_ID = i, u_Username = username, u_Status = 1\<rparr>))))"

definition Login :: "(string \<Rightarrow> string \<Rightarrow> bool) \<Rightarrow> fault \<Rightarrow> authdb \<Rightarrow> string \<Rightarrow> string \<Rightarrow> go_error + User" where
  "Login chk f db username password =
     (case query f (row_or_none (find_username db username)) of
        Inl e \<Rightarrow> Inl ErrBadCredentials
      | Inr u \<Rightarrow>
          if us_Status u \<noteq> 1 then Inl ErrUserDisabled
          else if \<not> chk (us_Hash u) password then Inl ErrBadCredentials
          else Inr \<lparr>u_ID = us_ID u, u_Username = us_Username u, u_Status = us_Status u\<rparr>)"

definition LoginVerified :: "fault \<Rightarrow> authdb \<Rightarrow> string \<Rightarrow> go_error + User" where
  "LoginVerified f db username =
     (case query f (row_or_none (find_username db username)) of
        Inl e \<Rightarrow> Inl ErrBadCredentials
      | Inr u \<Rightarrow>
          if us_Status u \<noteq> 1 then Inl ErrUserDisabled
          else Inr \<lparr>u_ID = us_ID u, u_Username = us_Username u, u_Status = us_Status u\<rparr>)"

section \<open>API keys\<close>

definition hex_digit :: "nat \<Rightarrow> char" where
  "hex_digit n = (''0123456789abcdef'' ! n)"

definition hex_encode :: "string \<Rightarrow> string" where
  "hex_encode bs = concat (map (\<lambda>c. let n = (of_char c :: nat) in [hex_digit (n div 16), hex_digit (n mod 16)]) bs)"

text \<open>\<open>sha\<close> is the SHA-256 digest.\<close>

definition keyHash :: "(string \<Rightarrow> string) \<Rightarrow> string \<Rightarrow> string" where
  "keyHash sha raw = hex_encode (sha raw)"

definition in32 :: "int \<Rightarrow> bool" where
  "in32 n \<longleftrightarrow> - 2147483648 \<le> n \<and> n < 2147483648"

text \<open>\<open>raw\<close> are the 24 random bytes, \<open>None\<close> when the random source fails. Two columns are 32 bits wide.\<close>

definition CreateKey ::
  "(string \<Rightarrow> string) \<Rightarrow> string option \<Rightarrow> fault \<Rightarrow> authdb \<Rightarrow> int \<Rightarrow> string \<Rightarrow> Limits \<Rightarrow> authdb \<times> (go_error + string)" where
  "CreateKey sha raw f db userID name limits =
     (case raw of
        None \<Rightarrow> (db, Inl ErrService)
      | Some bytes \<Rightarrow>
          (let key = ''sk-'' @ hex_encode bytes; hash = keyHash sha key; i = sq_key (ad_seqs db);
               db1 = db\<lparr>ad_seqs := (ad_seqs db)\<lparr>sq_key := i + 1\<rparr>\<rparr>;
               r = \<lparr>ak_ID = i, ak_UserID = userID, ak_Hash = hash, ak_Name = name, ak_Status = 1, ak_LastUsed = None, ak_Limits = limits\<rparr>
           in call_service f db
                (if \<not> in32 (lm_RPM limits) \<or> \<not> in32 (lm_Concurrency limits) then (db, Inl ErrService)
                 else if find_key db hash \<noteq> None \<or> find_user db userID = None then (db1, Inl ErrService)
                 else (db1\<lparr>ad_keys := ad_keys db @ [r]\<rparr>, Inr key))))"

definition SetKeyLimits :: "fault \<Rightarrow> authdb \<Rightarrow> int \<Rightarrow> Limits \<Rightarrow> authdb \<times> (go_error + unit)" where
  "SetKeyLimits f db keyID limits =
     call_service f db
       (if \<not> in32 (lm_RPM limits) \<or> \<not> in32 (lm_Concurrency limits) then (db, Inl ErrService)
        else (db\<lparr>ad_keys := update_where (\<lambda>k. ak_ID k = keyID) (\<lambda>k. k\<lparr>ak_Limits := limits\<rparr>) (ad_keys db)\<rparr>, Inr ()))"

definition RevokeKey :: "fault \<Rightarrow> authdb \<Rightarrow> int \<Rightarrow> int \<Rightarrow> authdb \<times> (go_error + unit)" where
  "RevokeKey f db userID keyID =
     call_service f db
       (db\<lparr>ad_keys := update_where (\<lambda>k. ak_ID k = keyID \<and> ak_UserID k = userID) (\<lambda>k. k\<lparr>ak_Status := 0\<rparr>) (ad_keys db)\<rparr>, Inr ())"

record Key =
  key_ID :: int
  key_UserID :: int
  key_Name :: string
  key_Status :: int
  key_Limits :: Limits

definition key_of_row :: "key_row \<Rightarrow> Key" where
  "key_of_row k = \<lparr>key_ID = ak_ID k, key_UserID = ak_UserID k, key_Name = ak_Name k, key_Status = ak_Status k, key_Limits = ak_Limits k\<rparr>"

definition ListKeys :: "fault \<Rightarrow> authdb \<Rightarrow> int \<Rightarrow> go_error + Key list" where
  "ListKeys f db userID =
     query f (Inr (map key_of_row (rev (sort_key ak_ID (filter (\<lambda>k. ak_UserID k = userID) (ad_keys db))))))"

section \<open>The key store\<close>

text \<open>The answer, and the row touched when the second statement takes effect.\<close>

definition Resolve :: "(string \<Rightarrow> string) \<Rightarrow> int \<Rightarrow> fault \<Rightarrow> fault \<Rightarrow> authdb \<Rightarrow> string \<Rightarrow> authdb \<times> (go_error + int)" where
  "Resolve sha now f g db rawKey =
     (let hash = keyHash sha rawKey in
      case query f (row_or_none (find_key db hash)) of
        Inl e \<Rightarrow> (db, Inl ErrKeyNotFound)
      | Inr k \<Rightarrow>
          if ak_Status k \<noteq> 1 then (db, Inl ErrKeyNotFound)
          else (fst (call_service g db (db\<lparr>ad_keys :=
                  update_where (\<lambda>k. ak_Hash k = hash) (\<lambda>k. k\<lparr>ak_LastUsed := Some now\<rparr>) (ad_keys db)\<rparr>, Inr () :: go_error + unit)),
                Inr (ak_UserID k)))"

definition ResolveLimits :: "(string \<Rightarrow> string) \<Rightarrow> fault \<Rightarrow> authdb \<Rightarrow> string \<Rightarrow> go_error + Limits" where
  "ResolveLimits sha f db rawKey = query f (row_or_none (map_option ak_Limits (find_key db (keyHash sha rawKey))))"

text \<open>One query with left joins: a missing project, team or organisation gives 0 and no limits.\<close>

definition join :: "int option \<Rightarrow> (int \<Rightarrow> 'a option) \<Rightarrow> 'a option" where
  "join i look = (case i of None \<Rightarrow> None | Some n \<Rightarrow> look n)"

definition chain_row :: "authdb \<Rightarrow> user_row \<Rightarrow> ChainInfo" where
  "chain_row db u =
     (let p = join (us_ProjectID u) (find_project db);
          t = (case p of None \<Rightarrow> None | Some p \<Rightarrow> join (pj_TeamID p) (find_team db));
          og = (case t of None \<Rightarrow> None | Some t \<Rightarrow> join (tm_OrgID t) (find_org db))
      in \<lparr>ci_User = quota (us_RPM u) (us_TPM u),
          ci_ProjectID = coalesce (us_ProjectID u),
          ci_Project = (case p of None \<Rightarrow> quota 0 0 | Some p \<Rightarrow> quota (pj_RPM p) (pj_TPM p)),
          ci_TeamID = (case p of None \<Rightarrow> 0 | Some p \<Rightarrow> coalesce (pj_TeamID p)),
          ci_Team = (case t of None \<Rightarrow> quota 0 0 | Some t \<Rightarrow> quota (tm_RPM t) (tm_TPM t)),
          ci_OrgID = (case t of None \<Rightarrow> 0 | Some t \<Rightarrow> coalesce (tm_OrgID t)),
          ci_Org = (case og of None \<Rightarrow> quota 0 0 | Some x \<Rightarrow> quota (og_RPM x) (og_TPM x))\<rparr>)"

definition ChainOfUser :: "fault \<Rightarrow> authdb \<Rightarrow> int \<Rightarrow> go_error + ChainInfo" where
  "ChainOfUser f db userID = query f (row_or_none (map_option (chain_row db) (find_user db userID)))"

definition SessionToken :: "string \<Rightarrow> int \<Rightarrow> string" where
  "SessionToken raw userID = hex_encode raw @ ''-'' @ itoa_unsigned userID"
section \<open>The integrity of the tables\<close>

definition ids_ok :: "int list \<Rightarrow> int \<Rightarrow> bool" where
  "ids_ok ids next \<longleftrightarrow> distinct ids \<and> (\<forall>i\<in>set ids. 1 \<le> i \<and> i < next)"

definition refs_ok :: "int option list \<Rightarrow> int list \<Rightarrow> bool" where
  "refs_ok refs ids \<longleftrightarrow> (\<forall>i. Some i \<in> set refs \<longrightarrow> i \<in> set ids)"

definition auth_ok :: "authdb \<Rightarrow> bool" where
  "auth_ok db \<longleftrightarrow>
     ids_ok (map og_ID (ad_orgs db)) (sq_org (ad_seqs db)) \<and> ids_ok (map tm_ID (ad_teams db)) (sq_team (ad_seqs db)) \<and>
     ids_ok (map pj_ID (ad_projects db)) (sq_project (ad_seqs db)) \<and> ids_ok (map us_ID (ad_users db)) (sq_user (ad_seqs db)) \<and>
     ids_ok (map ak_ID (ad_keys db)) (sq_key (ad_seqs db)) \<and>
     1 \<le> sq_org (ad_seqs db) \<and> 1 \<le> sq_team (ad_seqs db) \<and> 1 \<le> sq_project (ad_seqs db) \<and>
     1 \<le> sq_user (ad_seqs db) \<and> 1 \<le> sq_key (ad_seqs db) \<and>
     distinct (map us_Username (ad_users db)) \<and> distinct (map ak_Hash (ad_keys db)) \<and>
     refs_ok (map tm_OrgID (ad_teams db)) (map og_ID (ad_orgs db)) \<and>
     refs_ok (map pj_TeamID (ad_projects db)) (map tm_ID (ad_teams db)) \<and>
     refs_ok (map us_ProjectID (ad_users db)) (map pj_ID (ad_projects db)) \<and>
     set (map ak_UserID (ad_keys db)) \<subseteq> set (map us_ID (ad_users db)) \<and>
     set (map xi_UserID (ad_identities db)) \<subseteq> set (map us_ID (ad_users db))"

text \<open>Every statement the service sends, with the outcome of the call.\<close>

datatype auth_op =
    OpSetUserLimits int int int
  | OpCreateOrg string int int
  | OpSetOrgLimits int int int
  | OpCreateTeam string int int int
  | OpSetTeamLimits int int int
  | OpSetProjectTeam int int
  | OpCreateProject string int int
  | OpSetProjectLimits int int int
  | OpSetUserProject int int
  | OpRegister string string
  | OpCreateKey "string option" int string Limits
  | OpSetKeyLimits int Limits
  | OpRevokeKey int int
  | OpResolve int fault string

fun auth_exec :: "(string \<Rightarrow> string option) \<Rightarrow> (string \<Rightarrow> string) \<Rightarrow> authdb \<Rightarrow> fault \<times> auth_op \<Rightarrow> authdb" where
  "auth_exec gen sha db (f, OpSetUserLimits u rpm tpm) = fst (SetUserLimits f db u rpm tpm)"
| "auth_exec gen sha db (f, OpCreateOrg n rpm tpm) = fst (CreateOrg f db n rpm tpm)"
| "auth_exec gen sha db (f, OpSetOrgLimits i rpm tpm) = fst (SetOrgLimits f db i rpm tpm)"
| "auth_exec gen sha db (f, OpCreateTeam n i rpm tpm) = fst (CreateTeam f db n i rpm tpm)"
| "auth_exec gen sha db (f, OpSetTeamLimits i rpm tpm) = fst (SetTeamLimits f db i rpm tpm)"
| "auth_exec gen sha db (f, OpSetProjectTeam p t) = fst (SetProjectTeam f db p t)"
| "auth_exec gen sha db (f, OpCreateProject n rpm tpm) = fst (CreateProject f db n rpm tpm)"
| "auth_exec gen sha db (f, OpSetProjectLimits i rpm tpm) = fst (SetProjectLimits f db i rpm tpm)"
| "auth_exec gen sha db (f, OpSetUserProject u p) = fst (SetUserProject f db u p)"
| "auth_exec gen sha db (f, OpRegister n pw) = fst (Register gen f db n pw)"
| "auth_exec gen sha db (f, OpCreateKey raw u n l) = fst (CreateKey sha raw f db u n l)"
| "auth_exec gen sha db (f, OpSetKeyLimits i l) = fst (SetKeyLimits f db i l)"
| "auth_exec gen sha db (f, OpRevokeKey u i) = fst (RevokeKey f db u i)"
| "auth_exec gen sha db (f, OpResolve now g key) = fst (Resolve sha now f g db key)"

lemma ids_ok_snoc: "ids_ok ids i \<Longrightarrow> 1 \<le> i \<Longrightarrow> ids_ok (ids @ [i]) (i + 1)"
  by (auto simp: ids_ok_def)

lemma ids_ok_next: "ids_ok ids i \<Longrightarrow> ids_ok ids (i + 1)"
  by (auto simp: ids_ok_def)

lemma refs_ok_snoc: "refs_ok (refs @ [r]) ids \<longleftrightarrow> refs_ok refs ids \<and> (case r of None \<Rightarrow> True | Some i \<Rightarrow> i \<in> set ids)"
  by (auto simp: refs_ok_def split: option.splits)

lemma refs_ok_more: "refs_ok refs ids \<Longrightarrow> refs_ok refs (ids @ js)"
  by (auto simp: refs_ok_def)

lemma update_where_field: "(\<And>r. g (f r) = g r) \<Longrightarrow> map g (update_where P f xs) = map g xs"
  by (simp add: update_where_def)

lemma refs_ok_update:
  assumes "refs_ok (map g xs) ids" and "\<And>r. g (f r) = Some i" and "\<exists>r\<in>set xs. P r \<Longrightarrow> i \<in> set ids"
  shows "refs_ok (map g (update_where P f xs)) ids"
  using assms by (fastforce simp: refs_ok_def update_where_def split: if_splits)

lemma find_missing:
  "find_org db i = None \<longleftrightarrow> i \<notin> set (map og_ID (ad_orgs db))"
  "find_team db i = None \<longleftrightarrow> i \<notin> set (map tm_ID (ad_teams db))"
  "find_project db i = None \<longleftrightarrow> i \<notin> set (map pj_ID (ad_projects db))"
  "find_user db i = None \<longleftrightarrow> i \<notin> set (map us_ID (ad_users db))"
  "find_username db n = None \<longleftrightarrow> n \<notin> set (map us_Username (ad_users db))"
  "find_key db h = None \<longleftrightarrow> h \<notin> set (map ak_Hash (ad_keys db))"
  by (auto simp: find_org_def find_team_def find_project_def find_user_def find_username_def find_key_def find_None_iff)

lemma find_present:
  "find_org db i = Some r \<Longrightarrow> i \<in> og_ID ` set (ad_orgs db)"
  "find_team db i = Some t \<Longrightarrow> i \<in> tm_ID ` set (ad_teams db)"
  "find_project db i = Some p \<Longrightarrow> i \<in> pj_ID ` set (ad_projects db)"
  "find_user db i = Some u \<Longrightarrow> i \<in> us_ID ` set (ad_users db)"
  by (auto simp: find_org_def find_team_def find_project_def find_user_def dest!: find_SomeD)

lemmas auth_op_defs =
  SetUserLimits_def CreateOrg_def SetOrgLimits_def CreateTeam_def SetTeamLimits_def SetProjectTeam_def CreateProject_def
  SetProjectLimits_def SetUserProject_def SetKeyLimits_def RevokeKey_def

lemma auth_ok_service:
  "auth_ok db \<Longrightarrow> auth_ok (fst r) \<Longrightarrow> auth_ok (fst (call_service f db r))"
  using call_service_state [of f db r] by auto

lemma auth_ok_exec:
  assumes "auth_ok db"
  shows "auth_ok (auth_exec gen sha db (f, op))"
proof (cases op)
  case (OpRegister n pw)
  then show ?thesis
    using assms
    by (auto simp: Register_def Let_def intro!: auth_ok_service split: option.split)
      (auto simp: auth_ok_def find_missing ids_ok_snoc ids_ok_next refs_ok_snoc)
next
  case (OpCreateKey raw u n l)
  then show ?thesis
    using assms
    by (auto simp: CreateKey_def Let_def intro!: auth_ok_service split: option.split)
      (auto simp: auth_ok_def find_missing ids_ok_snoc ids_ok_next dest: find_present)
next
  case (OpResolve now g key)
  then show ?thesis
    using assms
    by (auto simp: Resolve_def Let_def intro!: auth_ok_service split: sum.split)
      (auto simp: auth_ok_def update_where_field)
next
  case (OpSetProjectTeam p t)
  then show ?thesis
    using assms
    by (auto simp: SetProjectTeam_def intro!: auth_ok_service)
      (auto simp: auth_ok_def find_missing update_where_field dest: find_present intro!: refs_ok_update)
next
  case (OpSetUserProject u p)
  then show ?thesis
    using assms
    by (auto simp: SetUserProject_def intro!: auth_ok_service)
      (auto simp: auth_ok_def find_missing update_where_field dest: find_present intro!: refs_ok_update)
qed (use assms in \<open>auto simp: auth_op_defs Let_def intro!: auth_ok_service\<close>,
    auto simp: auth_ok_def find_missing ids_ok_snoc ids_ok_next refs_ok_snoc refs_ok_more update_where_field dest: find_present)

lemma auth_ok_run: "auth_ok db \<Longrightarrow> auth_ok (foldl (auth_exec gen sha) db ops)"
proof (induction ops arbitrary: db)
  case (Cons op ops)
  then show ?case using auth_ok_exec [of db gen sha "fst op" "snd op"] by simp
qed simp

lemma auth_ok_empty: "auth_ok empty_auth"
  by (simp add: auth_ok_def empty_auth_def ids_ok_def refs_ok_def)


section \<open>The budget chain\<close>

lemma join_chain:
  "refs_ok (map ref xs) (map key ys) \<Longrightarrow> x \<in> set xs \<Longrightarrow> ref x = Some i \<Longrightarrow> \<exists>y. find (\<lambda>r. key r = i) ys = Some y"
  by (rule ccontr) (force simp: refs_ok_def find_None_iff)

lemma auth_ok_joins:
  assumes "auth_ok db"
  shows "u \<in> set (ad_users db) \<Longrightarrow> us_ProjectID u = Some i \<Longrightarrow> \<exists>p. find_project db i = Some p"
    and "p \<in> set (ad_projects db) \<Longrightarrow> pj_TeamID p = Some i \<Longrightarrow> \<exists>t. find_team db i = Some t"
    and "t \<in> set (ad_teams db) \<Longrightarrow> tm_OrgID t = Some i \<Longrightarrow> \<exists>x. find_org db i = Some x"
  using assms by (auto simp: auth_ok_def find_project_def find_team_def find_org_def intro: join_chain)

lemma found_in_table:
  "find_user db i = Some u \<Longrightarrow> u \<in> set (ad_users db) \<and> us_ID u = i"
  "find_project db i = Some p \<Longrightarrow> p \<in> set (ad_projects db) \<and> pj_ID p = i"
  "find_team db i = Some t \<Longrightarrow> t \<in> set (ad_teams db) \<and> tm_ID t = i"
  "find_org db i = Some x \<Longrightarrow> x \<in> set (ad_orgs db) \<and> og_ID x = i"
  by (auto simp: find_org_def find_team_def find_project_def find_user_def dest!: find_SomeD)

lemma auth_ok_positive:
  assumes "auth_ok db"
  shows "find_project db i = Some p \<Longrightarrow> 1 \<le> i" "find_team db i = Some t \<Longrightarrow> 1 \<le> i" "find_org db i = Some x \<Longrightarrow> 1 \<le> i"
  using assms by (auto simp: auth_ok_def ids_ok_def dest!: found_in_table)

text \<open>A layer of the chain next to the lookups it replaces.\<close>

definition layer_agrees :: "int \<Rightarrow> Limits \<Rightarrow> int \<Rightarrow> go_error + Limits \<Rightarrow> go_error + int \<Rightarrow> bool" where
  "layer_agrees i lims parent lims' parent' \<longleftrightarrow>
     (if i = 0 then lims = quota 0 0 \<and> parent = 0 else lims' = Inr lims \<and> parent' = Inr parent)"

text \<open>C25: The one-query budget chain is what the separate lookups return. On consistent tables
  it is found exactly for existing users; it has the user's own limits and project, and for
  the project, the team and the organisation either id 0 with no limits, or the limits and
  the parent that the lookup of that layer gives.\<close>

theorem chain_is_the_separate_lookups:
  assumes "auth_ok db"
  shows "case ChainOfUser NoFault db u of
      Inl e \<Rightarrow> find_user db u = None
    | Inr ci \<Rightarrow> ResolveUserLimits NoFault db u = Inr (ci_User ci) \<and> ProjectOfUser NoFault db u = Inr (ci_ProjectID ci) \<and>
        layer_agrees (ci_ProjectID ci) (ci_Project ci) (ci_TeamID ci)
          (ResolveProjectLimits NoFault db (ci_ProjectID ci)) (TeamOfProject NoFault db (ci_ProjectID ci)) \<and>
        layer_agrees (ci_TeamID ci) (ci_Team ci) (ci_OrgID ci)
          (ResolveTeamLimits NoFault db (ci_TeamID ci)) (OrgOfTeam NoFault db (ci_TeamID ci)) \<and>
        layer_agrees (ci_OrgID ci) (ci_Org ci) 0 (ResolveOrgLimits NoFault db (ci_OrgID ci)) (Inr 0)"
proof (cases "find_user db u")
  case None
  then show ?thesis by (simp add: ChainOfUser_def query_def row_or_none_def)
next
  case (Some us)
  note joins = auth_ok_joins [OF assms] and pos = auth_ok_positive [OF assms]
  have zero: "find_project db 0 = None" "find_team db 0 = None" "find_org db 0 = None"
    using pos by (metis not_one_le_zero option.exhaust)+
  note unfold = ChainOfUser_def query_def row_or_none_def chain_row_def Let_def join_def coalesce_def layer_agrees_def
    ResolveUserLimits_def ProjectOfUser_def ResolveProjectLimits_def TeamOfProject_def ResolveTeamLimits_def
    OrgOfTeam_def ResolveOrgLimits_def
  show ?thesis
  proof (cases "us_ProjectID us")
    case None
    then show ?thesis by (simp add: unfold Some)
  next
    case (Some i)
    with joins(1) found_in_table(1) [OF \<open>find_user db u = Some us\<close>] obtain p where p: "find_project db i = Some p" by blast
    show ?thesis
    proof (cases "pj_TeamID p")
      case None
      then show ?thesis using zero p Some \<open>find_user db u = Some us\<close> by (auto simp: unfold)
    next
      case (Some j)
      with joins(2) found_in_table(2) [OF p] obtain t where t: "find_team db j = Some t" by blast
      show ?thesis
      proof (cases "tm_OrgID t")
        case None
        then show ?thesis using zero p t Some \<open>us_ProjectID us = Some i\<close> \<open>find_user db u = Some us\<close> by (auto simp: unfold)
      next
        case (Some k)
        with joins(3) found_in_table(3) [OF t] obtain x where x: "find_org db k = Some x" by blast
        then show ?thesis
          using zero p t Some \<open>pj_TeamID p = Some j\<close> \<open>us_ProjectID us = Some i\<close> \<open>find_user db u = Some us\<close>
          by (auto simp: unfold)
      qed
    qed
  qed
qed

definition demo_auth :: authdb where
  "demo_auth = foldl (auth_exec Some id) empty_auth (map (Pair NoFault)
     [OpCreateOrg ''acme'' 100 0, OpCreateTeam ''core'' 1 50 0, OpCreateProject ''bot'' 30 0, OpSetProjectTeam 1 1,
      OpRegister ''ann'' ''password1'', OpSetUserProject 1 1, OpCreateKey (Some ''r'') 1 ''dev'' (quota 5 0)])"

lemma demo_auth_ok: "auth_ok demo_auth"
  unfolding demo_auth_def by (rule auth_ok_run [OF auth_ok_empty])

theorem chain_is_the_separate_lookups_witness:
  "ResolveUserLimits NoFault demo_auth 1 = Inr (quota 0 0) \<and> ResolveOrgLimits NoFault demo_auth 1 = Inr (quota 100 0) \<and>
   (\<exists>ci. ChainOfUser NoFault demo_auth 1 = Inr ci \<and> ci_User ci = quota 0 0 \<and> ci_OrgID ci = 1 \<and> ci_Org ci = quota 100 0)"
proof -
  have c: "\<exists>ci. ChainOfUser NoFault demo_auth 1 = Inr ci \<and> ci_User ci = quota 0 0 \<and> ci_OrgID ci = 1 \<and> ci_Org ci = quota 100 0"
    by (intro exI conjI, code_simp) (simp_all add: quota_def)
  with chain_is_the_separate_lookups [OF demo_auth_ok, of 1] show ?thesis by (auto simp: layer_agrees_def)
qed
section \<open>Accounts over time\<close>

lemma find_update_where:
  assumes "\<And>r. Q (f r) = Q r"
  shows "find Q (update_where P f xs) = map_option (\<lambda>r. if P r then f r else r) (find Q xs)"
  using assms by (induction xs) (auto simp: update_where_def)

lemma find_snoc: "find Q (xs @ [x]) = (case find Q xs of Some y \<Rightarrow> Some y | None \<Rightarrow> if Q x then Some x else None)"
  by (induction xs) simp_all

definition credentials :: "user_row \<Rightarrow> int \<times> string \<times> string \<times> int" where
  "credentials u = (us_ID u, us_Username u, us_Hash u, us_Status u)"

lemma call_service_keeps:
  "P db \<Longrightarrow> P (fst r) \<Longrightarrow> P (fst (call_service f db r))"
  using call_service_state [of f db r] by auto

definition has_account :: "string \<Rightarrow> int \<times> string \<times> string \<times> int \<Rightarrow> authdb \<Rightarrow> bool" where
  "has_account n c db \<longleftrightarrow> map_option credentials (find_username db n) = Some c"

lemma has_account_update:
  assumes "\<And>u. credentials (f u) = credentials u"
  shows "has_account n c (db\<lparr>ad_users := update_where P f (ad_users db)\<rparr>) = has_account n c db"
proof -
  have "us_Username (f u) = us_Username u" for u using assms [of u] by (simp add: credentials_def)
  then show ?thesis
    using assms by (simp add: has_account_def find_username_def find_update_where option.map_comp comp_def if_distrib cong: if_cong)
qed

lemma has_account_exec:
  assumes "has_account n c db"
  shows "has_account n c (auth_exec gen sha db (f, op))"
proof (cases op)
  case (OpRegister m pw)
  then show ?thesis
    using assms
    by (auto simp: Register_def Let_def intro!: call_service_keeps [of "has_account n c"] split: option.split)
      (auto simp: has_account_def find_username_def find_snoc split: option.splits)
next
  case (OpCreateKey raw u m l)
  then show ?thesis
    using assms
    by (auto simp: CreateKey_def Let_def intro!: call_service_keeps [of "has_account n c"] split: option.split)
      (auto simp: has_account_def find_username_def)
next
  case (OpResolve now g key)
  then show ?thesis
    using assms
    by (auto simp: Resolve_def Let_def intro!: call_service_keeps [of "has_account n c"] split: sum.split)
      (auto simp: has_account_def find_username_def)
next
  case (OpSetUserLimits u rpm tpm)
  then show ?thesis
    using assms by (auto simp: SetUserLimits_def has_account_update credentials_def intro!: call_service_keeps [of "has_account n c"])
next
  case (OpSetUserProject u p)
  then show ?thesis
    using assms by (auto simp: SetUserProject_def has_account_update credentials_def intro!: call_service_keeps [of "has_account n c"])
qed (use assms in \<open>auto simp: auth_op_defs Let_def intro!: call_service_keeps [of "has_account n c"]\<close>,
    auto simp: has_account_def find_username_def)

lemma has_account_run: "has_account n c db \<Longrightarrow> has_account n c (foldl (auth_exec gen sha) db ops)"
proof (induction ops arbitrary: db)
  case (Cons op ops)
  then show ?case using has_account_exec [of n c db gen sha "fst op" "snd op"] by simp
qed simp

lemma Login_account:
  "has_account n (i, n, h, st) db \<Longrightarrow> Login chk NoFault db n pw =
     (if st \<noteq> 1 then Inl ErrUserDisabled else if \<not> chk h pw then Inl ErrBadCredentials
      else Inr \<lparr>u_ID = i, u_Username = n, u_Status = st\<rparr>)"
  by (auto simp: has_account_def credentials_def Login_def query_def row_or_none_def)

text \<open>What is relied on of bcrypt: a hash verifies the password it was made from and no other.\<close>

definition bcrypt_laws :: "(string \<Rightarrow> string option) \<Rightarrow> (string \<Rightarrow> string \<Rightarrow> bool) \<Rightarrow> bool" where
  "bcrypt_laws gen chk \<longleftrightarrow> (\<forall>pw h. gen pw = Some h \<longrightarrow> (\<forall>q. chk h q = (q = pw)))"

text \<open>Theorem: A registered user can log in from then on, with that password and no other, and the
  name is taken. This holds after any later statements of the service, since none of them
  changes a password, a status or a name, whatever the outcomes of the calls.\<close>

theorem registration_gives_a_lasting_login:
  assumes "bcrypt_laws gen chk" and "Register gen f db n pw = (db', Inr u)"
    and "db'' = foldl (auth_exec gen sha) db' ops"
  shows "Login chk NoFault db'' n q = (if q = pw then Inr u else Inl ErrBadCredentials) \<and>
    (\<forall>p. \<exists>e. snd (Register gen NoFault db'' n p) = Inl e)"
proof -
  obtain h where h: "gen pw = Some h" "f = NoFault" "find_username db n = None" "u = \<lparr>u_ID = sq_user (ad_seqs db), u_Username = n, u_Status = 1\<rparr>"
    and db': "has_account n (sq_user (ad_seqs db), n, h, 1) db'"
    using assms(2)
    by (cases f) (auto simp: Register_def Let_def has_account_def find_username_def find_snoc credentials_def split: if_splits option.splits)
  have db'': "has_account n (sq_user (ad_seqs db), n, h, 1) db''"
    unfolding assms(3) by (rule has_account_run [OF db'])
  have "chk h q = (q = pw)" using assms(1) h(1) by (auto simp: bcrypt_laws_def)
  moreover have "find_username db'' n \<noteq> None" using db'' by (auto simp: has_account_def)
  ultimately show ?thesis
    using Login_account [OF db'', of chk q] h(4) by (auto simp: Register_def Let_def split: option.splits)
qed

theorem registration_gives_a_lasting_login_witness:
  "\<exists>db' u. Register Some NoFault empty_auth ''bob'' ''longpassword'' = (db', Inr u) \<and>
     Login (=) NoFault (fst (SetUserLimits NoFault db' 1 5 6)) ''bob'' ''wrong'' = Inl ErrBadCredentials"
proof -
  obtain db' u where r: "Register Some NoFault empty_auth ''bob'' ''longpassword'' = (db', Inr u)"
    by (simp add: Register_def empty_auth_def find_username_def Let_def)
  have "bcrypt_laws Some (=)" by (auto simp: bcrypt_laws_def)
  from registration_gives_a_lasting_login [where q = "''wrong''" and sha = id and ops = "[(NoFault, OpSetUserLimits 1 5 6)]", OF this r refl] r
  show ?thesis by auto
qed

section \<open>The life of a key\<close>

definition key_state :: "string \<Rightarrow> int \<Rightarrow> int \<Rightarrow> authdb \<Rightarrow> bool" where
  "key_state h u st db \<longleftrightarrow> (\<exists>k. find_key db h = Some k \<and> ak_UserID k = u \<and> (ak_Status k = 1 \<longleftrightarrow> st = 1))"

lemma key_state_update:
  assumes "\<And>k. ak_Hash (f k) = ak_Hash k \<and> ak_UserID (f k) = ak_UserID k" and "\<And>k. P k \<Longrightarrow> (ak_Status (f k) = 1) = (st = 1) \<or> ak_Status (f k) = ak_Status k"
  shows "key_state h u st db \<Longrightarrow> key_state h u st (db\<lparr>ad_keys := update_where P f (ad_keys db)\<rparr>)"
proof -
  assume "key_state h u st db"
  then obtain k where k: "find_key db h = Some k" "ak_UserID k = u" "(ak_Status k = 1) = (st = 1)"
    by (auto simp: key_state_def)
  have "find_key (db\<lparr>ad_keys := update_where P f (ad_keys db)\<rparr>) h = map_option (\<lambda>r. if P r then f r else r) (find_key db h)"
    using assms(1) by (simp add: find_key_def find_update_where)
  with k assms(1) assms(2) [of k] show ?thesis by (cases "P k") (auto simp: key_state_def)
qed

lemma dead_key_exec:
  assumes "key_state h u 0 db"
  shows "key_state h u 0 (auth_exec gen sha db (f, op))"
proof (cases op)
  case (OpRegister m pw)
  then show ?thesis
    using assms
    by (auto simp: Register_def Let_def intro!: call_service_keeps [of "key_state h u 0"] split: option.split)
      (auto simp: key_state_def find_key_def)
next
  case (OpCreateKey raw v m l)
  then show ?thesis
    using assms
    by (auto simp: CreateKey_def Let_def intro!: call_service_keeps [of "key_state h u 0"] split: option.split)
      (auto simp: key_state_def find_key_def find_snoc)
next
  case (OpResolve now g key)
  then show ?thesis
    using assms
    by (auto simp: Resolve_def Let_def intro!: call_service_keeps [of "key_state h u 0"] key_state_update split: sum.split)
next
  case (OpSetKeyLimits i l)
  then show ?thesis
    using assms by (auto simp: SetKeyLimits_def intro!: call_service_keeps [of "key_state h u 0"] key_state_update)
next
  case (OpRevokeKey v i)
  then show ?thesis
    using assms by (auto simp: RevokeKey_def intro!: call_service_keeps [of "key_state h u 0"] key_state_update)
qed (use assms in \<open>auto simp: auth_op_defs Let_def intro!: call_service_keeps [of "key_state h u 0"]\<close>,
    auto simp: key_state_def find_key_def)

lemma dead_key_run: "key_state h u 0 db \<Longrightarrow> key_state h u 0 (foldl (auth_exec gen sha) db ops)"
proof (induction ops arbitrary: db)
  case (Cons op ops)
  then show ?case using dead_key_exec [of h u db gen sha "fst op" "snd op"] by simp
qed simp

lemma Resolve_state:
  "key_state (keyHash sha key) u st db \<Longrightarrow>
     snd (Resolve sha now NoFault g db key) = (if st = 1 then Inr u else Inl ErrKeyNotFound)"
  by (auto simp: key_state_def Resolve_def query_def row_or_none_def Let_def)

lemma Resolve_dead:
  "key_state (keyHash sha key) u 0 db \<Longrightarrow> snd (Resolve sha now f g db key) = Inl ErrKeyNotFound"
  by (cases f) (auto simp: key_state_def Resolve_def query_def row_or_none_def Let_def)

text \<open>Theorem: A key authenticates its user until it is revoked, and never again after. A key that was
  created resolves to its user with its limits; when its owner revokes it, no later
  statement of the service makes it resolve again, whatever the outcomes of the calls; and
  nobody but the owner can revoke it.\<close>

theorem revoked_key_never_resolves:
  assumes "CreateKey sha raw NoFault db u name lims = (db', Inr key)" and "i = sq_key (ad_seqs db)" and "auth_ok db"
  shows "snd (Resolve sha now NoFault g db' key) = Inr u \<and> ResolveLimits sha NoFault db' key = Inr lims \<and>
    snd (Resolve sha now f g (foldl (auth_exec gen sha) (fst (RevokeKey NoFault db' u i)) ops) key) = Inl ErrKeyNotFound \<and>
    (v \<noteq> u \<longrightarrow> snd (Resolve sha now NoFault g (fst (RevokeKey NoFault db' v i)) key) = Inr u)"
proof -
  let ?h = "keyHash sha key"
  let ?k = "\<lparr>ak_ID = i, ak_UserID = u, ak_Hash = ?h, ak_Name = name, ak_Status = 1, ak_LastUsed = None, ak_Limits = lims\<rparr>"
  have new: "find_key db' ?h = Some ?k"
    using assms(1,2) by (auto simp: CreateKey_def Let_def find_key_def find_snoc split: option.splits if_splits)
  have "key_state ?h u 1 db'" using new by (simp add: key_state_def)
  moreover have "key_state ?h u 0 (fst (RevokeKey NoFault db' u i))"
    using new by (simp add: RevokeKey_def key_state_def find_key_def find_update_where)
  moreover have "key_state ?h u 1 (fst (RevokeKey NoFault db' v i))" if "v \<noteq> u"
    using new that by (simp add: RevokeKey_def key_state_def find_key_def find_update_where)
  moreover have "ResolveLimits sha NoFault db' key = Inr lims"
    using new by (simp add: ResolveLimits_def query_def row_or_none_def)
  ultimately show ?thesis
    using Resolve_dead [OF dead_key_run] by (auto simp: Resolve_state)
qed

text \<open>Theorem: Disabling a user does not stop the user's keys. A disabled user cannot log in, but an
  active key of that user still authenticates requests: key resolution does not look at the
  account.\<close>

theorem disabled_user_keys_still_resolve:
  assumes "find_username db n = Some us" and "us_Status us \<noteq> 1"
    and "find_key db (keyHash sha key) = Some k" and "ak_Status k = 1" and "ak_UserID k = us_ID us"
  shows "Login chk NoFault db n pw = Inl ErrUserDisabled \<and> LoginVerified NoFault db n = Inl ErrUserDisabled \<and>
    snd (Resolve sha now NoFault g db key) = Inr (us_ID us)"
  using assms by (simp add: Login_def LoginVerified_def Resolve_def query_def row_or_none_def Let_def)

definition disabled_auth :: authdb where
  "disabled_auth = demo_auth\<lparr>ad_users := update_where (\<lambda>u. us_ID u = 1) (\<lambda>u. u\<lparr>us_Status := 0\<rparr>) (ad_users demo_auth)\<rparr>"

definition demo_key :: string where
  "demo_key = ''sk-'' @ hex_encode ''r''"

theorem revoked_key_never_resolves_witness:
  "snd (Resolve id 9 FailAfter NoFault (fst (RevokeKey NoFault demo_auth 1 1)) demo_key) = Inl ErrKeyNotFound"
proof -
  let ?db = "foldl (auth_exec Some id) empty_auth (map (Pair NoFault)
     [OpCreateOrg ''acme'' 100 0, OpCreateTeam ''core'' 1 50 0, OpCreateProject ''bot'' 30 0, OpSetProjectTeam 1 1,
      OpRegister ''ann'' ''password1'', OpSetUserProject 1 1])"
  have "CreateKey id (Some ''r'') NoFault ?db 1 ''dev'' (quota 5 0) = (demo_auth, Inr demo_key)" by code_simp
  moreover have "1 = sq_key (ad_seqs ?db)" by code_simp
  ultimately show ?thesis
    using revoked_key_never_resolves [where now = 9 and g = NoFault and f = FailAfter and ops = "[]" and gen = Some,
        OF _ _ auth_ok_run [OF auth_ok_empty]] by fastforce
qed

theorem disabled_user_keys_still_resolve_witness:
  "snd (Resolve id 9 NoFault NoFault disabled_auth demo_key) = Inr 1"
proof -
  let ?us = "the (find_username disabled_auth ''ann'')" and ?k = "the (find_key disabled_auth (keyHash id demo_key))"
  have "find_username disabled_auth ''ann'' = Some ?us" "us_Status ?us \<noteq> 1" "us_ID ?us = 1"
    "find_key disabled_auth (keyHash id demo_key) = Some ?k" "ak_Status ?k = 1" "ak_UserID ?k = 1"
    by code_simp+
  with disabled_user_keys_still_resolve [of disabled_auth "''ann''" ?us id demo_key ?k "(=)" "[]" 9 NoFault] show ?thesis by simp
qed

end
