(* ===== verification/Sse.thy ===== *)
theory Sse
  imports Metering Redis_Api
begin

text \<open>
  The byte-level code of the streaming path in \<open>internal/gateway/handler.go\<close>: the line
  reader of server-sent events (\<open>scanSSELines\<close>, with the parts of package \<open>bytes\<close> it
  calls) and the scan for the text of a chunk (\<open>fastDeltaContent\<close>). Bytes are characters.
\<close>

section \<open>Package bytes\<close>

definition NL :: char where
  "NL = CHR 0x0A"

text \<open>The UTF-8 encodings of the runes \<open>unicode.IsSpace\<close> accepts.\<close>

fun space_seq :: "nat list \<Rightarrow> bool" where
  "space_seq [b] \<longleftrightarrow> b = 32 \<or> (9 \<le> b \<and> b \<le> 13)"
| "space_seq [b, c] \<longleftrightarrow> b = 194 \<and> (c = 133 \<or> c = 160)"
| "space_seq [b, c, d] \<longleftrightarrow>
     (b = 225 \<and> c = 154 \<and> d = 128) \<or>
     (b = 226 \<and> c = 128 \<and> (128 \<le> d \<and> d \<le> 138 \<or> d = 168 \<or> d = 169 \<or> d = 175)) \<or>
     (b = 226 \<and> c = 129 \<and> d = 159) \<or>
     (b = 227 \<and> c = 128 \<and> d = 128)"
| "space_seq _ \<longleftrightarrow> False"

definition space_at :: "nat \<Rightarrow> string \<Rightarrow> bool" where
  "space_at n s \<longleftrightarrow> n \<le> length s \<and> space_seq (map of_char (take n s))"

definition space_width :: "string \<Rightarrow> nat" where
  "space_width s = (if space_at 1 s then 1 else if space_at 2 s then 2 else if space_at 3 s then 3 else 0)"

lemma space_width_le: "space_width s \<le> length s"
  by (auto simp: space_width_def space_at_def)

function trim_left :: "string \<Rightarrow> string" where
  "trim_left s = (if space_width s = 0 then s else trim_left (drop (space_width s) s))"
  by pat_completeness auto
termination
proof (relation "measure length")
  fix s :: string
  assume "space_width s \<noteq> 0"
  with space_width_le [of s] show "(drop (space_width s) s, s) \<in> measure length" by simp
qed simp

declare trim_left.simps [simp del]

definition last_space :: "string \<Rightarrow> nat" where
  "last_space s =
     (if \<exists>n\<in>{1, 2, 3}. n \<le> length s \<and> space_seq (map of_char (drop (length s - n) s))
      then (if 1 \<le> length s \<and> space_seq (map of_char (drop (length s - 1) s)) then 1
            else if 2 \<le> length s \<and> space_seq (map of_char (drop (length s - 2) s)) then 2 else 3)
      else 0)"

lemma last_space_le: "last_space s \<le> length s"
  by (auto simp: last_space_def)

function trim_right :: "string \<Rightarrow> string" where
  "trim_right s = (if last_space s = 0 then s else trim_right (take (length s - last_space s) s))"
  by pat_completeness auto
termination
proof (relation "measure length")
  fix s :: string
  assume "last_space s \<noteq> 0"
  with last_space_le [of s] show "(take (length s - last_space s) s, s) \<in> measure length" by simp
qed simp

declare trim_right.simps [simp del]

definition TrimSpace :: "string \<Rightarrow> string" where
  "TrimSpace s = trim_right (trim_left s)"

definition TrimPrefix :: "string \<Rightarrow> string \<Rightarrow> string" where
  "TrimPrefix p s = (if has_prefix p s then drop (length p) s else s)"

fun Index :: "string \<Rightarrow> string \<Rightarrow> nat option" where
  "Index pat [] = (if pat = [] then Some 0 else None)"
| "Index pat (c # cs) = (if has_prefix pat (c # cs) then Some 0 else map_option Suc (Index pat cs))"

section \<open>Reading events\<close>

text \<open>\<open>bufio.Reader.ReadBytes\<close>: the next line with its newline, or \<open>None\<close> at the end of the input.\<close>

definition ReadBytes :: "string \<Rightarrow> (string \<times> string) option" where
  "ReadBytes data =
     (if NL \<in> set data
      then Some (takeWhile (\<lambda>c. c \<noteq> NL) data @ [NL], tl (dropWhile (\<lambda>c. c \<noteq> NL) data))
      else None)"

lemma ReadBytes_shorter: "ReadBytes data = Some (line, rest) \<Longrightarrow> length rest < length data"
proof -
  assume "ReadBytes data = Some (line, rest)"
  then have "NL \<in> set data" "rest = tl (dropWhile (\<lambda>c. c \<noteq> NL) data)"
    by (auto simp: ReadBytes_def split: if_splits)
  moreover then have "dropWhile (\<lambda>c. c \<noteq> NL) data \<noteq> []" by (auto simp: dropWhile_eq_Nil_conv)
  moreover have "length (dropWhile (\<lambda>c. c \<noteq> NL) data) \<le> length data" by (rule length_dropWhile_le)
  ultimately show ?thesis
    by (metis length_tl diff_less length_greater_0_conv less_le_trans less_numeral_extra(1))
qed

text \<open>The payload of a line: \<open>None\<close> for a line that is skipped.\<close>

definition sse_payload :: "string \<Rightarrow> string option" where
  "sse_payload line =
     (let trimmed = TrimSpace line in
      if \<not> has_prefix ''data:'' trimmed then None
      else let payload = TrimSpace (TrimPrefix ''data:'' trimmed)
           in if payload = [] then None else Some payload)"

text \<open>\<open>fin\<close> is how the input ends: \<open>None\<close> for end of file, else the read error.\<close>

function scanSSELines ::
  "('s \<Rightarrow> string \<Rightarrow> 's \<times> (go_error + unit)) \<Rightarrow> 's \<Rightarrow> string \<Rightarrow> go_error option \<Rightarrow> 's \<times> (go_error + unit)" where
  "scanSSELines onData s data fin =
     (case ReadBytes data of
        None \<Rightarrow> (s, case fin of None \<Rightarrow> Inr () | Some e \<Rightarrow> Inl e)
      | Some (line, rest) \<Rightarrow>
          (case sse_payload line of
             None \<Rightarrow> scanSSELines onData s rest fin
           | Some payload \<Rightarrow>
               if payload = ''[DONE]'' then (s, Inr ())
               else (case onData s payload of
                       (s', Inl e) \<Rightarrow> (s', Inl e)
                     | (s', Inr _) \<Rightarrow> scanSSELines onData s' rest fin)))"
  by pat_completeness auto
termination
  by (relation "measure (\<lambda>(onData, s, data, fin). length data)") (auto simp: ReadBytes_shorter)

declare scanSSELines.simps [simp del]

section \<open>The text of a chunk\<close>

definition QUOTE :: char where
  "QUOTE = CHR 0x22"

definition BSLASH :: char where
  "BSLASH = CHR 0x5C"

definition content_marker :: string where
  "content_marker = [QUOTE] @ ''content'' @ [QUOTE] @ '':'' @ [QUOTE]"

definition unescape_char :: "char \<Rightarrow> char" where
  "unescape_char c =
     (if c = CHR ''n'' then NL else if c = CHR ''t'' then CHR 0x09
      else if c = CHR ''r'' then CHR 0x0D else c)"

fun unescape :: "string \<Rightarrow> string" where
  "unescape [] = []"
| "unescape [c] = [c]"
| "unescape (c # d # cs) =
     (if c = BSLASH then unescape_char d # unescape cs else c # unescape (d # cs))"

definition fastDeltaContent :: "string \<Rightarrow> string" where
  "fastDeltaContent data =
     (case Index content_marker data of
        None \<Rightarrow> []
      | Some idx \<Rightarrow>
          let body = drop (idx + length content_marker) data in
          if QUOTE \<notin> set body then []
          else let s = takeWhile (\<lambda>c. c \<noteq> QUOTE) body in if BSLASH \<notin> set s then s else unescape s)"
section \<open>Framing\<close>

text \<open>How the gateway writes a chunk to its client, and how upstreams write them.\<close>

definition frame :: "string \<Rightarrow> string" where
  "frame p = ''data: '' @ p @ [NL, NL]"

text \<open>Delivering payloads one by one until the consumer refuses one.\<close>

fun feed :: "('s \<Rightarrow> string \<Rightarrow> 's \<times> (go_error + unit)) \<Rightarrow> 's \<Rightarrow> string list \<Rightarrow> 's \<times> (go_error + unit)" where
  "feed onData s [] = (s, Inr ())"
| "feed onData s (p # ps) =
     (case onData s p of (s', Inl e) \<Rightarrow> (s', Inl e) | (s', Inr _) \<Rightarrow> feed onData s' ps)"

definition clean :: "string \<Rightarrow> bool" where
  "clean p \<longleftrightarrow> p \<noteq> [] \<and> NL \<notin> set p \<and> TrimSpace p = p \<and> p \<noteq> ''[DONE]''"

lemma trim_left_0: "space_width s = 0 \<Longrightarrow> trim_left s = s"
  by (subst trim_left.simps) simp

lemma trim_right_0: "last_space s = 0 \<Longrightarrow> trim_right s = s"
  by (subst trim_right.simps) simp

lemma trim_left_length: "length (trim_left s) \<le> length s"
proof (induction s rule: trim_left.induct)
  case (1 s)
  then show ?case by (subst trim_left.simps) (auto simp: le_diff_conv intro: order_trans)
qed

lemma trim_right_length: "length (trim_right s) \<le> length s"
proof (induction s rule: trim_right.induct)
  case (1 s)
  then show ?case by (subst trim_right.simps) (auto intro: order_trans)
qed

lemma TrimSpace_fixed:
  assumes "TrimSpace p = p"
  shows "space_width p = 0 \<and> last_space p = 0"
proof -
  have len: "length p \<le> length (trim_left p)"
    using assms trim_right_length [of "trim_left p"] by (simp add: TrimSpace_def)
  have w: "space_width p = 0"
  proof (rule ccontr)
    assume "space_width p \<noteq> 0"
    then have "trim_left p = trim_left (drop (space_width p) p)" "0 < space_width p"
      by (simp_all add: trim_left.simps [of p])
    with trim_left_length [of "drop (space_width p) p"] space_width_le [of p] len show False by simp
  qed
  then have left: "trim_left p = p" by (simp add: trim_left.simps [of p])
  have "last_space p = 0"
  proof (rule ccontr)
    assume "last_space p \<noteq> 0"
    then have "trim_right p = trim_right (take (length p - last_space p) p)" "0 < last_space p"
      by (simp_all add: trim_right.simps [of p])
    with trim_right_length [of "take (length p - last_space p) p"] last_space_le [of p] assms left
    show False by (simp add: TrimSpace_def)
  qed
  with w show ?thesis by simp
qed

lemma space_seq_lead: "space_seq (b # c # bs) \<Longrightarrow> 194 \<le> b"
  by (cases bs; cases "tl bs") auto

lemma last_space_append:
  assumes "last_space p = 0" and "p \<noteq> []" and "\<forall>c\<in>set q. (of_char c :: nat) < 128"
  shows "last_space (q @ p) = 0"
proof -
  have "\<not> space_seq (map of_char (drop (length (q @ p) - n) (q @ p)))" if n: "n \<in> {1, 2, 3}" "n \<le> length (q @ p)" for n
  proof (cases "n \<le> length p")
    case True
    then have "drop (length (q @ p) - n) (q @ p) = drop (length p - n) p" by simp
    with assms(1) n True show ?thesis by (auto simp: last_space_def split: if_splits)
  next
    case False
    then obtain k where k: "length (q @ p) - n = k" "k < length q" using n(2) by auto
    then have d: "drop k (q @ p) = q ! k # drop (Suc k) q @ p" by (simp add: Cons_nth_drop_Suc)
    have "(of_char (q ! k) :: nat) < 128" using assms(3) k(2) by simp
    moreover obtain c cs where "drop (Suc k) q @ p = c # cs" using assms(2) by (cases "drop (Suc k) q @ p") auto
    ultimately show ?thesis using space_seq_lead [of "of_char (q ! k)" "of_char c" "map of_char cs"]
      unfolding k(1) d by fastforce
  qed
  then show ?thesis by (auto simp: last_space_def)
qed

lemma trim_right_NL: "last_space (s @ [NL]) = 1" "trim_right (s @ [NL]) = trim_right s"
proof -
  show "last_space (s @ [NL]) = 1" by (simp add: last_space_def NL_def)
  then show "trim_right (s @ [NL]) = trim_right s" by (simp add: trim_right.simps [of "s @ [NL]"])
qed

lemma trim_left_data: "trim_left (''data:'' @ s) = ''data:'' @ s"
proof -
  have "space_width (''data:'' @ s) = 0"
    by (auto simp: space_width_def space_at_def numeral_2_eq_2 numeral_3_eq_3)
  then show ?thesis by (rule trim_left_0)
qed

lemma payload_of_frame:
  assumes "p \<noteq> []" and "TrimSpace p = p"
  shows "sse_payload (''data: '' @ p @ [NL]) = Some p"
proof -
  have p: "space_width p = 0" "last_space p = 0" using TrimSpace_fixed [OF assms(2)] by auto
  have "last_space (''data: '' @ p) = 0" by (rule last_space_append [OF p(2) assms(1)]) simp
  then have "TrimSpace (''data: '' @ p @ [NL]) = ''data: '' @ p"
    using trim_left_data [of "'' '' @ p @ [NL]"] trim_right_NL(2) [of "''data: '' @ p"]
      trim_right_0 [of "''data: '' @ p"] by (simp add: TrimSpace_def)
  moreover have "TrimSpace ('' '' @ p) = p"
  proof -
    have "space_width ('' '' @ p) = 1" by (simp add: space_width_def space_at_def)
    then have "trim_left ('' '' @ p) = trim_left p" by (subst trim_left.simps) simp
    also have "\<dots> = p" using p(1) by (simp add: trim_left.simps [of p])
    finally show ?thesis using p(2) by (simp add: TrimSpace_def trim_right.simps [of p])
  qed
  ultimately show ?thesis using assms(1) by (simp add: sse_payload_def Let_def TrimPrefix_def has_prefix_def)
qed

lemma blank_line: "sse_payload [NL] = None"
proof -
  have "space_width [NL] = 1" "space_width [] = 0" by (simp_all add: space_width_def space_at_def NL_def)
  then have "TrimSpace [NL] = []"
    by (simp add: TrimSpace_def trim_left.simps [of "[NL]"] trim_left.simps [of "[]"] trim_right.simps [of "[]"] last_space_def)
  then show ?thesis by (simp add: sse_payload_def has_prefix_def)
qed

lemma ReadBytes_line: "NL \<notin> set l \<Longrightarrow> ReadBytes (l @ NL # rest) = Some (l @ [NL], rest)"
proof -
  assume "NL \<notin> set l"
  then have "takeWhile (\<lambda>c. c \<noteq> NL) (l @ NL # rest) = l" "dropWhile (\<lambda>c. c \<noteq> NL) (l @ NL # rest) = NL # rest"
    by (subst takeWhile_append2 dropWhile_append2; auto)+
  then show ?thesis by (simp add: ReadBytes_def)
qed

lemma scan_frame:
  assumes "p \<noteq> []" "NL \<notin> set p" "TrimSpace p = p"
  shows "scanSSELines onData s (frame p @ rest) fin =
    (if p = ''[DONE]'' then (s, Inr ())
     else case onData s p of (s', Inl e) \<Rightarrow> (s', Inl e) | (s', Inr _) \<Rightarrow> scanSSELines onData s' rest fin)"
proof -
  have line: "ReadBytes (frame p @ rest) = Some (''data: '' @ p @ [NL], NL # rest)"
    using ReadBytes_line [of "''data: '' @ p" "NL # rest"] assms(2) by (simp add: frame_def NL_def)
  have "scanSSELines onData s' (NL # rest) fin = scanSSELines onData s' rest fin" for s'
    using ReadBytes_line [of "[]" rest] by (subst scanSSELines.simps) (simp add: blank_line)
  then show ?thesis
    by (subst scanSSELines.simps) (simp add: line payload_of_frame [OF assms(1,3), simplified] split: prod.splits sum.splits)
qed

lemma scan_frames:
  assumes "\<forall>p\<in>set ps. clean p"
  shows "scanSSELines onData s (concat (map frame ps) @ rest) fin =
    (case feed onData s ps of (s', Inl e) \<Rightarrow> (s', Inl e) | (s', Inr _) \<Rightarrow> scanSSELines onData s' rest fin)"
  using assms
proof (induction ps arbitrary: s)
  case (Cons p ps)
  then have p: "p \<noteq> []" "NL \<notin> set p" "TrimSpace p = p" "p \<noteq> ''[DONE]''" by (auto simp: clean_def)
  show ?case
    using Cons scan_frame [OF p(1-3), of onData s "concat (map frame ps) @ rest" fin] p(4)
    by (auto split: prod.splits sum.splits)
qed simp

lemma done_clean: "NL \<notin> set ''[DONE]''" "TrimSpace ''[DONE]'' = ''[DONE]''"
  by code_simp+

lemma scan_nothing: "NL \<notin> set rest \<Longrightarrow> scanSSELines onData s rest fin = (s, case fin of None \<Rightarrow> Inr () | Some e \<Rightarrow> Inl e)"
  by (subst scanSSELines.simps) (simp add: ReadBytes_def)
section \<open>Escaped text\<close>

text \<open>The JSON escapes of the characters the scan knows.\<close>

definition json_escape :: "char \<Rightarrow> string" where
  "json_escape c =
     (if c = NL then [BSLASH, CHR ''n''] else if c = CHR 0x09 then [BSLASH, CHR ''t'']
      else if c = CHR 0x0D then [BSLASH, CHR ''r''] else if c = BSLASH then [BSLASH, BSLASH] else [c])"

definition chunk_with :: "string \<Rightarrow> string \<Rightarrow> string \<Rightarrow> string" where
  "chunk_with pre t post = pre @ content_marker @ concat (map json_escape t) @ [QUOTE] @ post"

lemma unescape_escape: "unescape (concat (map json_escape t)) = t"
proof (induction t)
  case (Cons c t)
  have "c \<noteq> BSLASH \<Longrightarrow> unescape (c # xs) = c # unescape xs" for xs by (cases xs) simp_all
  with Cons show ?case
    by (auto simp: json_escape_def unescape_char_def NL_def BSLASH_def)
qed simp

lemma escape_no_quote: "QUOTE \<notin> set t \<Longrightarrow> QUOTE \<notin> set (concat (map json_escape t))"
  by (auto simp: json_escape_def QUOTE_def BSLASH_def)

lemma escape_plain: "BSLASH \<notin> set (concat (map json_escape t)) \<Longrightarrow> concat (map json_escape t) = t"
  by (induction t) (auto simp: json_escape_def split: if_splits)

section \<open>Properties\<close>

text \<open>Theorem: Reading events inverts writing them. From the frames of any trimmed, non-empty,
  single-line payloads the reader delivers exactly those payloads, in order, until the
  consumer refuses one; it stops at the \<open>[DONE]\<close> frame whatever follows, and a last line
  without its newline is dropped even when it is a complete event.\<close>

theorem stream_reader_roundtrip:
  assumes "\<forall>p\<in>set ps. clean p" and "NL \<notin> set partial"
  shows "scanSSELines onData s (concat (map frame ps) @ frame ''[DONE]'' @ rest) fin = feed onData s ps \<and>
    scanSSELines onData s (concat (map frame ps) @ partial) None = feed onData s ps"
  using scan_frames [OF assms(1), of onData s "frame ''[DONE]'' @ rest" fin]
    scan_frames [OF assms(1), of onData s partial None] scan_frame [OF _ done_clean, of onData _ rest fin]
    scan_nothing [OF assms(2), of onData _ None]
  by (auto split: prod.splits sum.splits)

theorem stream_reader_roundtrip_witness:
  "scanSSELines (\<lambda>s p. (s @ [p], Inr ())) [] (frame ''a b'' @ frame ''c'' @ frame ''[DONE]'' @ frame ''d'') None =
     ([''a b'', ''c''], Inr ())"
proof -
  have "clean ''a b''" "clean ''c''" by code_simp+
  then show ?thesis
    using stream_reader_roundtrip [of "[''a b'', ''c'']" "[]" "\<lambda>s p. (s @ [p], Inr ())" "[]" "frame ''d''" None] by simp
qed

text \<open>Theorem: The fast scan recovers a fragment's text. When the first \<open>content\<close> field of a chunk
  is the one that holds the text, and the text has no quotation mark, what is metered is
  the text itself, its escapes undone.\<close>

theorem delta_scan_recovers_text:
  assumes "Index content_marker (chunk_with pre t post) = Some (length pre)" and "QUOTE \<notin> set t"
  shows "fastDeltaContent (chunk_with pre t post) = t"
proof -
  let ?e = "concat (map json_escape t)"
  have body: "drop (length pre + length content_marker) (chunk_with pre t post) = ?e @ QUOTE # post"
    by (simp add: chunk_with_def)
  have "takeWhile (\<lambda>c. c \<noteq> QUOTE) (?e @ QUOTE # post) = ?e"
    using escape_no_quote [OF assms(2)] by (subst takeWhile_append2) auto
  then show ?thesis
    using escape_plain [of t] unescape_escape [of t] by (simp add: fastDeltaContent_def assms(1) body Let_def)
qed

definition chunk_head :: string where
  "chunk_head = ''{x:[{y:{''"

theorem delta_scan_recovers_text_witness:
  "fastDeltaContent (chunk_with chunk_head [CHR ''a'', NL, BSLASH, CHR ''b''] ''}}]}'') = [CHR ''a'', NL, BSLASH, CHR ''b'']"
  by (rule delta_scan_recovers_text) code_simp+

text \<open>Theorem: The fast scan misses text. A quotation mark in the text ends it, a blank after the
  field's colon hides it altogether, and an escaped code point is metered as its digits.\<close>

theorem delta_scan_misses_text:
  "fastDeltaContent (content_marker @ ''say '' @ [BSLASH, QUOTE] @ ''hello, world'' @ [BSLASH, QUOTE, QUOTE]) = ''say '' @ [BSLASH] \<and>
   fastDeltaContent ([QUOTE] @ ''content'' @ [QUOTE] @ '': '' @ [QUOTE] @ ''hello, world'' @ [QUOTE]) = [] \<and>
   fastDeltaContent (content_marker @ [BSLASH] @ ''u4f60'' @ [QUOTE]) = ''u4f60''"
  by code_simp

lemma ReadBytes_newlines:
  assumes "ReadBytes data = Some (line, rest)"
  shows "length (filter (\<lambda>c. c = NL) data) = Suc (length (filter (\<lambda>c. c = NL) rest))"
proof -
  have nl: "NL \<in> set data" and rest: "rest = tl (dropWhile (\<lambda>c. c \<noteq> NL) data)"
    using assms by (auto simp: ReadBytes_def split: if_splits)
  then show ?thesis unfolding rest by (induction data) auto
qed

text \<open>C39: The reader ends. On every input, whatever the consumer answers, reading comes to an end after at most one
  payload per line of the input, also without a \<open>[DONE]\<close> frame and with a connection that breaks.\<close>

theorem stream_reader_ends:
  "length (fst (scanSSELines (\<lambda>seen p. (seen @ [p], ans seen p)) seen data fin)) \<le> length seen + length (filter (\<lambda>c. c = NL) data)"
proof (induction data arbitrary: seen rule: measure_induct_rule [of length])
  case (less data)
  show ?case
  proof (cases "ReadBytes data")
    case None
    then show ?thesis by (subst scanSSELines.simps) simp
  next
    case (Some x)
    obtain line rest where x: "x = (line, rest)" by fastforce
    have read: "ReadBytes data = Some (line, rest)" using Some x by simp
    note IH = less.IH [OF ReadBytes_shorter [OF read]] and nl = ReadBytes_newlines [OF read]
    show ?thesis
    proof (cases "sse_payload line")
      case None
      show ?thesis using IH [of seen] nl by (subst scanSSELines.simps) (simp add: read None)
    next
      case (Some p)
      show ?thesis using IH [of "seen @ [p]"] nl
        by (subst scanSSELines.simps) (simp add: read Some split: sum.split)
    qed
  qed
qed

end
