(* ===== verification/Identity.thy ===== *)
theory Identity
  imports Auth_Store Sse
begin

text \<open>
  Sessions and single sign-on: \<open>internal/auth/jwt.go\<close> and \<open>internal/auth/oidc.go\<close>. The JWT
  library and the identity provider are arguments: \<open>js_sign\<close> encodes and signs claims, \<open>js_parse\<close>
  decodes a token and checks its signature; \<open>exchange\<close> and \<open>verify\<close> stand for the OAuth code
  exchange and the verification of the identity token. Times are microseconds; the library keeps
  whole seconds in a token. Random bytes are arguments.
\<close>

section \<open>Session tokens\<close>

record Claims =
  cl_UserID :: int
  cl_Username :: string
  cl_Issuer :: string
  cl_Audience :: "string list"
  cl_Subject :: string
  cl_IssuedAt :: "int option"
  cl_ExpiresAt :: "int option"

definition jwtIssuer :: string where "jwtIssuer = ''metergate''"
definition jwtAudience :: string where "jwtAudience = ''metergate-portal''"
definition jwtTTL :: int where "jwtTTL = 86400 * 1000000"

text \<open>Tokens are opaque (\<open>'t\<close>). \<open>js_parse\<close> answers with whether the token names an HMAC method and with its claims.\<close>

record 't jwt_lib =
  js_sign :: "string \<Rightarrow> Claims \<Rightarrow> 't"
  js_parse :: "string \<Rightarrow> 't \<Rightarrow> (bool \<times> Claims) option"

definition NewNumericDate :: "int \<Rightarrow> int" where
  "NewNumericDate t = t div 1000000 * 1000000"

definition Sign :: "'t jwt_lib \<Rightarrow> string \<Rightarrow> int \<Rightarrow> int \<Rightarrow> string \<Rightarrow> 't" where
  "Sign J secret now userID username =
     js_sign J secret
       \<lparr>cl_UserID = userID, cl_Username = username, cl_Issuer = jwtIssuer, cl_Audience = [jwtAudience],
        cl_Subject = itoa_unsigned userID, cl_IssuedAt = Some (NewNumericDate now),
        cl_ExpiresAt = Some (NewNumericDate (now + jwtTTL))\<rparr>"

text \<open>The checks of \<open>WithIssuer\<close>, \<open>WithAudience\<close> and \<open>WithExpirationRequired\<close>.\<close>

definition claims_valid :: "int \<Rightarrow> Claims \<Rightarrow> bool" where
  "claims_valid now c \<longleftrightarrow>
     (case cl_ExpiresAt c of None \<Rightarrow> False | Some e \<Rightarrow> now < e) \<and>
     cl_Audience c \<noteq> [] \<and> jwtAudience \<in> set (cl_Audience c) \<and> cl_Issuer c = jwtIssuer"

definition Verify :: "'t jwt_lib \<Rightarrow> string \<Rightarrow> int \<Rightarrow> 't \<Rightarrow> go_error + Claims" where
  "Verify J secret now token =
     (case js_parse J secret token of
        None \<Rightarrow> Inl (ErrInvalidInput ''token'')
      | Some (hmac, claims) \<Rightarrow>
          if \<not> hmac then Inl (ErrInvalidInput ''unexpected signing method'')
          else if \<not> claims_valid now claims then Inl (ErrInvalidInput ''claims'')
          else Inr claims)"

section \<open>Single sign-on\<close>

record OIDCConfig =
  oc_AutoRegister :: bool

definition randomPassword :: "string \<Rightarrow> string" where
  "randomPassword raw = ''oidc-'' @ hex_encode raw"

definition find_identity :: "authdb \<Rightarrow> string \<Rightarrow> identity_row option" where
  "find_identity db subject = find (\<lambda>x. xi_Provider x = ''oidc'' \<and> xi_Subject x = subject) (ad_identities db)"

definition subjectUserID :: "fault \<Rightarrow> authdb \<Rightarrow> string \<Rightarrow> go_error + int" where
  "subjectUserID f db subject = query f (row_or_none (map_option xi_UserID (find_identity db subject)))"

definition userIDByUsername :: "fault \<Rightarrow> authdb \<Rightarrow> string \<Rightarrow> go_error + int" where
  "userIDByUsername f db username = query f (row_or_none (map_option us_ID (find_username db username)))"

definition linkSubject :: "fault \<Rightarrow> authdb \<Rightarrow> string \<Rightarrow> int \<Rightarrow> authdb \<times> (go_error + unit)" where
  "linkSubject f db subject userID =
     call_service f db
       (if find_identity db subject \<noteq> None then (db, Inr ())
        else if find_user db userID = None then (db, Inl ErrService)
        else (db\<lparr>ad_identities := ad_identities db @ [\<lparr>xi_Provider = ''oidc'', xi_Subject = subject, xi_UserID = userID\<rparr>]\<rparr>, Inr ()))"

text \<open>
  \<open>Register\<close> returns no user with \<open>ErrUserExists\<close>, so reading its id panics before the lookup
  by name is reached.
\<close>

definition resolveUser ::
  "OIDCConfig \<Rightarrow> (string \<Rightarrow> string option) \<Rightarrow> string \<Rightarrow> sched \<Rightarrow> authdb \<Rightarrow> string \<Rightarrow> string \<Rightarrow> authdb \<times> (go_error + int)" where
  "resolveUser cfg gen raw fs db subject username =
     (let (f1, fs1) = pop_fault fs; (f2, fs2) = pop_fault fs1; (f3, fs3) = pop_fault fs2;
          known = (case subjectUserID f1 db subject of Inr uid \<Rightarrow> if uid > 0 then Some uid else None | Inl e \<Rightarrow> None)
      in case known of
           Some uid \<Rightarrow> (db, Inr uid)
         | None \<Rightarrow>
             if \<not> oc_AutoRegister cfg then (db, Inl (ErrInvalidInput ''unknown user (auto-register disabled)''))
             else case Register gen f2 db username (randomPassword raw) of
                    (db1, Inl e) \<Rightarrow> (db1, Inl (if e = ErrUserExists then GoPanic else e))
                  | (db1, Inr u) \<Rightarrow>
                      (case linkSubject f3 db1 subject (u_ID u) of
                         (db2, Inl e) \<Rightarrow> (db2, Inl e)
                       | (db2, Inr _) \<Rightarrow> (db2, Inr (u_ID u))))"

text \<open>
  What the provider tells about a login: the token exchanged for a code (\<open>None\<close> when the
  exchange fails or carries no identity token), and the subject and email of a verified token.
\<close>

record id_token =
  it_Subject :: string
  it_Email :: string

record idp =
  ip_exchange :: "string \<Rightarrow> string option"
  ip_verify :: "string \<Rightarrow> id_token option"

record 't oidc =
  od_cfg :: OIDCConfig
  od_jwt :: "'t jwt_lib"
  od_secret :: string
  od_gen :: "string \<Rightarrow> string option"
  od_idp :: idp

definition Callback :: "'t oidc \<Rightarrow> int \<Rightarrow> string \<Rightarrow> sched \<Rightarrow> authdb \<Rightarrow> string \<Rightarrow> authdb \<times> (go_error + 't)" where
  "Callback oc now raw fs db code =
     (if code = [] then (db, Inl (ErrInvalidInput ''missing code''))
      else case ip_exchange (od_idp oc) code of
        None \<Rightarrow> (db, Inl ErrService)
      | Some rawID \<Rightarrow>
          (case ip_verify (od_idp oc) rawID of
             None \<Rightarrow> (db, Inl (ErrInvalidInput ''id_token''))
           | Some idt \<Rightarrow>
               (let username = (if it_Email idt = [] then it_Subject idt else it_Email idt) in
                case resolveUser (od_cfg oc) (od_gen oc) raw fs db (it_Subject idt) username of
                  (db', Inl e) \<Rightarrow> (db', Inl e)
                | (db', Inr userID) \<Rightarrow> (db', Inr (Sign (od_jwt oc) (od_secret oc) now userID username)))))"

text \<open>The answer of the endpoint; a panic aborts the connection.\<close>

datatype 't login_answer = Redirect string | BadState | LoginFailed | Aborted | Session 't | NotFoundPage

definition handleCallback ::
  "'t oidc \<Rightarrow> int \<Rightarrow> string \<Rightarrow> sched \<Rightarrow> authdb \<Rightarrow> string option \<Rightarrow> string \<Rightarrow> string \<Rightarrow> authdb \<times> 't login_answer" where
  "handleCallback oc now raw fs db cookie state code =
     (case cookie of
        None \<Rightarrow> (db, BadState)
      | Some v \<Rightarrow>
          if v = [] \<or> v \<noteq> state then (db, BadState)
          else case Callback oc now raw fs db code of
                 (db', Inl e) \<Rightarrow> (db', if e = GoPanic then Aborted else LoginFailed)
               | (db', Inr token) \<Rightarrow> (db', Session token))"

definition NewState :: "string \<Rightarrow> string" where
  "NewState raw = hex_encode raw"

text \<open>The login redirect sets the state cookie to the state of the URL.\<close>

definition oidc_ServeHTTP ::
  "'t oidc \<Rightarrow> int \<Rightarrow> string \<Rightarrow> sched \<Rightarrow> authdb \<Rightarrow> string \<Rightarrow> string option \<Rightarrow> string \<Rightarrow> string \<Rightarrow> authdb \<times> string option \<times> 't login_answer" where
  "oidc_ServeHTTP oc now raw fs db path cookie state code =
     (if path = ''/api/oidc/login'' then (db, Some (NewState raw), Redirect (NewState raw))
      else if path = ''/api/oidc/callback'' then
        (case handleCallback oc now raw fs db cookie state code of (db', a) \<Rightarrow> (db', None, a))
      else (db, None, NotFoundPage))"

section \<open>Sessions last a day\<close>

text \<open>What is relied on of the JWT library: a token signed with a secret parses with it to its claims.\<close>

definition jwt_laws :: "'t jwt_lib \<Rightarrow> bool" where
  "jwt_laws J \<longleftrightarrow> (\<forall>secret c. js_parse J secret (js_sign J secret c) = Some (True, c))"

text \<open>Theorem: A session is valid for a day. A token signed at one time verifies with the same secret
  to its user, exactly until the whole second in which 24 hours have passed.\<close>

theorem session_lasts_a_day:
  assumes "jwt_laws J"
  shows "(case Verify J secret t (Sign J secret now uid name) of
        Inr c \<Rightarrow> cl_UserID c = uid \<and> cl_Username c = name \<and> t < NewNumericDate (now + jwtTTL)
      | Inl e \<Rightarrow> NewNumericDate (now + jwtTTL) \<le> t) \<and>
    now + jwtTTL - 1000000 < NewNumericDate (now + jwtTTL) \<and> NewNumericDate (now + jwtTTL) \<le> now + jwtTTL"
  using assms by (auto simp: jwt_laws_def Verify_def Sign_def claims_valid_def NewNumericDate_def)

definition plain_jwt :: "(string \<times> Claims) jwt_lib" where
  "plain_jwt = \<lparr>js_sign = Pair, js_parse = (\<lambda>s t. if fst t = s then Some (True, snd t) else None)\<rparr>"

lemma plain_jwt_laws: "jwt_laws plain_jwt"
  by (simp add: jwt_laws_def plain_jwt_def)

theorem session_lasts_a_day_witness:
  "\<exists>c. Verify plain_jwt ''s'' 86399000000 (Sign plain_jwt ''s'' 0 7 ''ann'') = Inr c \<and> cl_UserID c = 7"
  using session_lasts_a_day [where secret = "''s''" and t = 86399000000 and now = 0 and uid = 7 and name = "''ann''", OF plain_jwt_laws]
  by (auto simp: NewNumericDate_def jwtTTL_def split: sum.splits)

section \<open>Logging in through the provider\<close>

definition the_claims :: "int \<Rightarrow> int \<Rightarrow> string \<Rightarrow> Claims" where
  "the_claims now uid name =
     \<lparr>cl_UserID = uid, cl_Username = name, cl_Issuer = jwtIssuer, cl_Audience = [jwtAudience],
      cl_Subject = itoa_unsigned uid, cl_IssuedAt = Some (NewNumericDate now),
      cl_ExpiresAt = Some (NewNumericDate (now + jwtTTL))\<rparr>"

lemma verify_fresh: "jwt_laws J \<Longrightarrow> Verify J secret t (Sign J secret t uid name) = Inr (the_claims t uid name)"
  by (simp add: jwt_laws_def Verify_def Sign_def the_claims_def claims_valid_def NewNumericDate_def jwtTTL_def)

definition linked :: "string \<Rightarrow> int \<Rightarrow> authdb \<Rightarrow> bool" where
  "linked subject uid db \<longleftrightarrow> map_option xi_UserID (find_identity db subject) = Some uid"

lemma identities_exec: "ad_identities (auth_exec gen sha db (f, op)) = ad_identities db"
proof (cases op)
  case (OpResolve now g key)
  then show ?thesis
    by (auto simp: Resolve_def Let_def intro: call_service_keeps [of "\<lambda>d. ad_identities d = ad_identities db" db] split: sum.split)
qed (auto simp: auth_op_defs Register_def CreateKey_def Let_def
    intro!: call_service_keeps [of "\<lambda>d. ad_identities d = ad_identities db" db] split: option.split)

lemma linked_run: "linked subject uid db \<Longrightarrow> linked subject uid (foldl (auth_exec gen sha) db ops)"
proof (induction ops arbitrary: db)
  case (Cons op ops)
  have "linked subject uid (auth_exec gen sha db op)"
    using Cons.prems identities_exec [of gen sha db "fst op" "snd op"] by (simp add: linked_def find_identity_def)
  with Cons.IH show ?case by simp
qed simp

lemma resolveUser_linked:
  assumes "linked subject uid db" and "0 < uid"
  shows "resolveUser cfg gen raw [] db subject name = (db, Inr uid)"
  using assms by (auto simp: resolveUser_def linked_def subjectUserID_def query_def row_or_none_def)

lemma randomPassword_length: "length raw = 16 \<Longrightarrow> 8 \<le> length (randomPassword raw)"
  by (simp add: randomPassword_def hex_encode_def length_concat comp_def Let_def sum_list_triv)

lemma resolveUser_new:
  assumes "find_identity db subject = None" and "find_username db name = None" and "oc_AutoRegister cfg"
    and "gen (randomPassword raw) = Some h" and "name \<noteq> []" and "length raw = 16"
  shows "\<exists>db'. resolveUser cfg gen raw [] db subject name = (db', Inr (sq_user (ad_seqs db))) \<and>
    linked subject (sq_user (ad_seqs db)) db'"
  using assms randomPassword_length [OF assms(6)]
  by (auto simp: resolveUser_def subjectUserID_def query_def row_or_none_def Register_def Let_def linkSubject_def linked_def
      find_identity_def find_user_def find_snoc split: option.splits)


definition demo_idp :: "string \<Rightarrow> idp" where
  "demo_idp email = \<lparr>ip_exchange = Some, ip_verify = (\<lambda>tok. Some \<lparr>it_Subject = ''sub-1'', it_Email = email\<rparr>)\<rparr>"

definition demo_oidc :: "(string \<times> Claims) oidc" where
  "demo_oidc = \<lparr>od_cfg = \<lparr>oc_AutoRegister = True\<rparr>, od_jwt = plain_jwt, od_secret = ''s'', od_gen = Some,
     od_idp = demo_idp ''new@x''\<rparr>"


text \<open>Theorem: Signing on with the name of an existing account always crashes. When a subject is not
  linked and the reported name is taken (for example by an account made with a password, or
  by another subject), the callback panics: no session is issued and no link is stored, so the
  next attempt fails in the same way. The code means to link the subject to that account.\<close>

theorem sign_on_with_taken_name_panics:
  assumes "ip_exchange (od_idp oc) code = Some tok" and "ip_verify (od_idp oc) tok = Some idt" and "code \<noteq> []"
    and "name = (if it_Email idt = [] then it_Subject idt else it_Email idt)" and "name \<noteq> []"
    and "find_identity db (it_Subject idt) = None" and "find_username db name \<noteq> None"
    and "oc_AutoRegister (od_cfg oc)" and "od_gen oc (randomPassword raw) = Some h" and "length raw = 16" and "state \<noteq> []"
  shows "\<exists>db'. handleCallback oc now raw [] db (Some state) state code = (db', Aborted) \<and>
    find_identity db' (it_Subject idt) = None \<and> find_username db' name = find_username db name"
  using assms randomPassword_length [OF assms(10)]
  by (auto simp: handleCallback_def Callback_def Let_def resolveUser_def subjectUserID_def query_def row_or_none_def Register_def
      find_identity_def find_username_def)

theorem sign_on_with_taken_name_panics_witness:
  "\<exists>db'. handleCallback (demo_oidc\<lparr>od_idp := demo_idp ''ann''\<rparr>) 5 (replicate 16 CHR ''r'') [] demo_auth (Some ''x'') ''x'' ''c1'' = (db', Aborted)"
proof -
  have "find_identity demo_auth ''sub-1'' = None" "find_username demo_auth ''ann'' \<noteq> None"
    by code_simp+
  with sign_on_with_taken_name_panics [of "demo_oidc\<lparr>od_idp := demo_idp ''ann''\<rparr>" "''c1''" "''c1''"
      "\<lparr>it_Subject = ''sub-1'', it_Email = ''ann''\<rparr>" "''ann''" demo_auth "replicate 16 CHR ''r''"
      "randomPassword (replicate 16 CHR ''r'')" "''x''" 5]
  show ?thesis by (auto simp: demo_oidc_def demo_idp_def)
qed

text \<open>A callback whose state does not match the cookie touches neither the provider nor the tables.\<close>

lemma callback_checks_state:
  "cookie \<noteq> Some state \<or> state = [] \<Longrightarrow> handleCallback oc now raw fs db cookie state code = (db, BadState)"
  by (auto simp: handleCallback_def split: option.splits)

end
