(* ===== verification/Org_Tree.thy ===== *)
theory Org_Tree
  imports Auth_Store
begin

text \<open>
  \<open>OrgTree\<close> and \<open>QuotaScopes\<close> of \<open>internal/auth/auth.go\<close>: the administrator's view of the
  hierarchy, assembled level by level from five queries, and the quotas the monitor samples.
  A row whose parent column is null fails to scan and the loop continues; what is then left of
  the result belongs to the database driver (the documentation of pgx says that a failed scan
  closes the rows), so it is the parameter \<open>closes\<close>. A failing query below the first leaves its
  level empty.
\<close>

section \<open>Nodes\<close>

record KeyNode =
  kn_ID :: int
  kn_Name :: string
  kn_Limits :: Limits

record UserNode =
  un_ID :: int
  un_Username :: string
  un_RPM :: int
  un_TPM :: int
  un_Keys :: "KeyNode list"

record ProjectNode =
  pn_ID :: int
  pn_Name :: string
  pn_RPM :: int
  pn_TPM :: int
  pn_Users :: "UserNode list"

record TeamNode =
  tn_ID :: int
  tn_Name :: string
  tn_RPM :: int
  tn_TPM :: int
  tn_Projects :: "ProjectNode list"

record OrgNode =
  ot_ID :: int
  ot_Name :: string
  ot_RPM :: int
  ot_TPM :: int
  ot_Teams :: "TeamNode list"

definition org_node :: "Org \<Rightarrow> OrgNode" where
  "org_node r = \<lparr>ot_ID = og_ID r, ot_Name = og_Name r, ot_RPM = og_RPM r, ot_TPM = og_TPM r, ot_Teams = []\<rparr>"

definition team_node :: "Team \<Rightarrow> TeamNode" where
  "team_node r = \<lparr>tn_ID = tm_ID r, tn_Name = tm_Name r, tn_RPM = tm_RPM r, tn_TPM = tm_TPM r, tn_Projects = []\<rparr>"

definition project_node :: "Project \<Rightarrow> ProjectNode" where
  "project_node r = \<lparr>pn_ID = pj_ID r, pn_Name = pj_Name r, pn_RPM = pj_RPM r, pn_TPM = pj_TPM r, pn_Users = []\<rparr>"

definition user_node :: "user_row \<Rightarrow> UserNode" where
  "user_node r = \<lparr>un_ID = us_ID r, un_Username = us_Username r, un_RPM = us_RPM r, un_TPM = us_TPM r, un_Keys = []\<rparr>"

definition key_node :: "key_row \<Rightarrow> KeyNode" where
  "key_node r = \<lparr>kn_ID = ak_ID r, kn_Name = ak_Name r, kn_Limits = ak_Limits r\<rparr>"

section \<open>The loops\<close>

fun index_orgs :: "nat \<Rightarrow> OrgNode list \<Rightarrow> (int \<rightharpoonup> nat) \<Rightarrow> int \<rightharpoonup> nat" where
  "index_orgs n [] idx = idx"
| "index_orgs n (r # rs) idx = index_orgs (Suc n) rs (idx(ot_ID r \<mapsto> n))"

definition add_team :: "(int \<rightharpoonup> nat) \<Rightarrow> OrgNode list \<times> (int \<rightharpoonup> nat) \<Rightarrow> Team \<Rightarrow> OrgNode list \<times> (int \<rightharpoonup> nat)" where
  "add_team orgIdx s t =
     (case s of (orgs, teamIdx) \<Rightarrow>
        case tm_OrgID t of
          None \<Rightarrow> s
        | Some oid \<Rightarrow>
            (case orgIdx oid of
               None \<Rightarrow> s
             | Some oi \<Rightarrow>
                 (orgs[oi := (orgs ! oi)\<lparr>ot_Teams := ot_Teams (orgs ! oi) @ [team_node t]\<rparr>],
                  teamIdx(tm_ID t \<mapsto> length (ot_Teams (orgs ! oi))))))"

fun place_project :: "nat \<Rightarrow> int \<Rightarrow> ProjectNode \<Rightarrow> OrgNode list \<Rightarrow> OrgNode list" where
  "place_project ti tid p [] = []"
| "place_project ti tid p (x # xs) =
     (if ti < length (ot_Teams x) \<and> tn_ID (ot_Teams x ! ti) = tid
      then x\<lparr>ot_Teams := (ot_Teams x)[ti := (ot_Teams x ! ti)\<lparr>tn_Projects := tn_Projects (ot_Teams x ! ti) @ [p]\<rparr>]\<rparr> # xs
      else x # place_project ti tid p xs)"

definition add_project :: "(int \<rightharpoonup> nat) \<Rightarrow> OrgNode list \<Rightarrow> Project \<Rightarrow> OrgNode list" where
  "add_project teamIdx orgs p =
     (case pj_TeamID p of
        None \<Rightarrow> orgs
      | Some tid \<Rightarrow>
          (case teamIdx tid of
             None \<Rightarrow> orgs
           | Some ti \<Rightarrow> place_project ti tid (project_node p) orgs))"

definition update_teams :: "(TeamNode \<Rightarrow> TeamNode) \<Rightarrow> OrgNode list \<Rightarrow> OrgNode list" where
  "update_teams f orgs = map (\<lambda>x. x\<lparr>ot_Teams := map f (ot_Teams x)\<rparr>) orgs"

definition update_projects :: "(ProjectNode \<Rightarrow> ProjectNode) \<Rightarrow> OrgNode list \<Rightarrow> OrgNode list" where
  "update_projects f orgs = update_teams (\<lambda>t. t\<lparr>tn_Projects := map f (tn_Projects t)\<rparr>) orgs"

definition update_users :: "(UserNode \<Rightarrow> UserNode) \<Rightarrow> OrgNode list \<Rightarrow> OrgNode list" where
  "update_users f orgs = update_projects (\<lambda>p. p\<lparr>pn_Users := map f (pn_Users p)\<rparr>) orgs"

definition add_user :: "OrgNode list \<Rightarrow> user_row \<Rightarrow> OrgNode list" where
  "add_user orgs u =
     (case us_ProjectID u of
        None \<Rightarrow> orgs
      | Some pid \<Rightarrow> update_projects (\<lambda>p. if pn_ID p = pid then p\<lparr>pn_Users := pn_Users p @ [user_node u]\<rparr> else p) orgs)"

definition add_key :: "OrgNode list \<Rightarrow> key_row \<Rightarrow> OrgNode list" where
  "add_key orgs k =
     update_users (\<lambda>u. if un_ID u = ak_UserID k then u\<lparr>un_Keys := un_Keys u @ [key_node k]\<rparr> else u) orgs"

definition scanned :: "bool \<Rightarrow> ('a \<Rightarrow> int option) \<Rightarrow> 'a list \<Rightarrow> 'a list" where
  "scanned closes parent rows = (if closes then takeWhile (\<lambda>r. parent r \<noteq> None) rows else rows)"

definition OrgTree :: "bool \<Rightarrow> sched \<Rightarrow> authdb \<Rightarrow> go_error + OrgNode list" where
  "OrgTree closes fs db =
     (let (f1, fs1) = pop_fault fs; (f2, fs2) = pop_fault fs1; (f3, fs3) = pop_fault fs2; (f4, fs4) = pop_fault fs3;
          (f5, fs5) = pop_fault fs4
      in if f1 \<noteq> NoFault then Inl ErrService
         else
           let orgs = map org_node (sort_key og_ID (ad_orgs db)); orgIdx = index_orgs 0 orgs (\<lambda>_. None);
               (o1, teamIdx) = (if f2 \<noteq> NoFault then (orgs, \<lambda>_. None)
                                else foldl (add_team orgIdx) (orgs, \<lambda>_. None) (scanned closes tm_OrgID (sort_key tm_ID (ad_teams db))));
               o2 = (if f3 \<noteq> NoFault then o1 else foldl (add_project teamIdx) o1 (scanned closes pj_TeamID (sort_key pj_ID (ad_projects db))));
               o3 = (if f4 \<noteq> NoFault then o2 else foldl add_user o2 (scanned closes us_ProjectID (sort_key us_ID (ad_users db))));
               o4 = (if f5 \<noteq> NoFault then o3 else foldl add_key o3 (sort_key ak_ID (ad_keys db)))
           in Inr o4)"

section \<open>Quota scopes\<close>

record ScopeRow =
  sw_Layer :: string
  sw_ID :: int
  sw_RPM :: int
  sw_TPM :: int

definition layer_rows :: "authdb \<Rightarrow> string \<Rightarrow> ScopeRow list" where
  "layer_rows db layer =
     (if layer = ''org'' then map (\<lambda>r. \<lparr>sw_Layer = layer, sw_ID = og_ID r, sw_RPM = og_RPM r, sw_TPM = og_TPM r\<rparr>) (ad_orgs db)
      else if layer = ''team'' then map (\<lambda>r. \<lparr>sw_Layer = layer, sw_ID = tm_ID r, sw_RPM = tm_RPM r, sw_TPM = tm_TPM r\<rparr>) (ad_teams db)
      else if layer = ''project'' then map (\<lambda>r. \<lparr>sw_Layer = layer, sw_ID = pj_ID r, sw_RPM = pj_RPM r, sw_TPM = pj_TPM r\<rparr>) (ad_projects db)
      else map (\<lambda>r. \<lparr>sw_Layer = layer, sw_ID = us_ID r, sw_RPM = us_RPM r, sw_TPM = us_TPM r\<rparr>) (ad_users db))"

definition scope_layers :: "string list" where
  "scope_layers = [''org'', ''team'', ''project'', ''user'']"

fun collect_scopes :: "sched \<Rightarrow> authdb \<Rightarrow> string list \<Rightarrow> go_error + ScopeRow list" where
  "collect_scopes fs db [] = Inr []"
| "collect_scopes fs db (layer # layers) =
     (let (f, fs') = pop_fault fs in
      if f \<noteq> NoFault then Inl ErrService
      else case collect_scopes fs' db layers of
             Inl e \<Rightarrow> Inl e
           | Inr rest \<Rightarrow> Inr (filter (\<lambda>r. sw_RPM r > 0 \<or> sw_TPM r > 0) (layer_rows db layer) @ rest))"

text \<open>The queries are in a map, so \<open>prio\<close> gives their order.\<close>

definition QuotaScopes :: "nat list \<Rightarrow> sched \<Rightarrow> authdb \<Rightarrow> go_error + ScopeRow list" where
  "QuotaScopes prio fs db = collect_scopes fs db (map (\<lambda>i. scope_layers ! i) (map_range prio [0..<4]))"

section \<open>Levels as filters\<close>

lemma update_teams_id [simp]: "update_teams (\<lambda>t. t) orgs = orgs"
  by (simp add: update_teams_def)

lemma update_teams_comp: "update_teams f (update_teams g orgs) = update_teams (\<lambda>t. f (g t)) orgs"
  by (simp add: update_teams_def)

lemma update_projects_id [simp]: "update_projects (\<lambda>p. p) orgs = orgs"
  by (simp add: update_projects_def)

lemma update_projects_comp: "update_projects f (update_projects g orgs) = update_projects (\<lambda>p. f (g p)) orgs"
  by (simp add: update_projects_def update_teams_comp comp_def)

lemma update_users_id [simp]: "update_users (\<lambda>u. u) orgs = orgs"
  by (simp add: update_users_def)

lemma update_users_comp: "update_users f (update_users g orgs) = update_users (\<lambda>u. f (g u)) orgs"
  by (simp add: update_users_def update_projects_comp comp_def)

text \<open>Appending children one by one to the nodes they refer to gives every node its children in order.\<close>

lemma fold_children:
  fixes upd :: "('n \<Rightarrow> 'n) \<Rightarrow> 't \<Rightarrow> 't"
  assumes "\<And>T. upd (\<lambda>p. p) T = T" and "\<And>f g T. upd f (upd g T) = upd (\<lambda>p. f (g p)) T"
    and "\<And>p u. key (app p u) = key p"
  shows "foldl (\<lambda>T u. case ref u of None \<Rightarrow> T | Some i \<Rightarrow> upd (\<lambda>p. if key p = i then app p u else p) T) T us =
    upd (\<lambda>p. foldl app p (filter (\<lambda>u. ref u = Some (key p)) us)) T"
proof (induction us arbitrary: T)
  case (Cons u us)
  show ?case
  proof (cases "ref u")
    case (Some i)
    have "foldl app (if key p = i then app p u else p) (filter (\<lambda>v. ref v = Some (key (if key p = i then app p u else p))) us) =
        foldl app p (filter (\<lambda>v. ref v = Some (key p)) (u # us))" for p
      using Some by (simp add: assms(3))
    then show ?thesis by (simp add: Cons Some assms(2))
  qed (simp add: Cons)
qed (simp add: assms(1))

lemma foldl_app_users: "foldl (\<lambda>p u. p\<lparr>pn_Users := pn_Users p @ [user_node u]\<rparr>) p us = p\<lparr>pn_Users := pn_Users p @ map user_node us\<rparr>"
  by (induction us arbitrary: p) simp_all

lemma foldl_app_keys: "foldl (\<lambda>u k. u\<lparr>un_Keys := un_Keys u @ [key_node k]\<rparr>) u ks = u\<lparr>un_Keys := un_Keys u @ map key_node ks\<rparr>"
  by (induction ks arbitrary: u) simp_all

lemma foldl_app_projects: "foldl (\<lambda>t p. t\<lparr>tn_Projects := tn_Projects t @ [project_node p]\<rparr>) t ps = t\<lparr>tn_Projects := tn_Projects t @ map project_node ps\<rparr>"
  by (induction ps arbitrary: t) simp_all

lemma foldl_app_teams: "foldl (\<lambda>x t. x\<lparr>ot_Teams := ot_Teams x @ [team_node t]\<rparr>) x ts = x\<lparr>ot_Teams := ot_Teams x @ map team_node ts\<rparr>"
  by (induction ts arbitrary: x) simp_all

lemma add_users: "foldl add_user orgs us =
    update_projects (\<lambda>p. p\<lparr>pn_Users := pn_Users p @ map user_node (filter (\<lambda>u. us_ProjectID u = Some (pn_ID p)) us)\<rparr>) orgs"
  using fold_children [where upd = update_projects and key = pn_ID and ref = us_ProjectID and
      app = "\<lambda>p u. p\<lparr>pn_Users := pn_Users p @ [user_node u]\<rparr>" and T = orgs and us = us]
  by (simp add: update_projects_comp foldl_app_users add_user_def [abs_def])

lemma add_keys: "foldl add_key orgs ks =
    update_users (\<lambda>u. u\<lparr>un_Keys := un_Keys u @ map key_node (filter (\<lambda>k. ak_UserID k = un_ID u) ks)\<rparr>) orgs"
  using fold_children [where upd = update_users and key = un_ID and ref = "\<lambda>k. Some (ak_UserID k)" and
      app = "\<lambda>u k. u\<lparr>un_Keys := un_Keys u @ [key_node k]\<rparr>" and T = orgs and us = ks]
  by (simp add: update_users_comp foldl_app_keys add_key_def [abs_def])
section \<open>Teams and projects by index\<close>

lemma index_orgs_other: "i \<notin> ot_ID ` set xs \<Longrightarrow> index_orgs n xs idx i = idx i"
  by (induction n xs idx rule: index_orgs.induct) auto

lemma index_orgs_nth:
  "distinct (map ot_ID xs) \<Longrightarrow> k < length xs \<Longrightarrow> index_orgs n xs idx (ot_ID (xs ! k)) = Some (n + k)"
proof (induction n xs idx arbitrary: k rule: index_orgs.induct)
  case (2 n r rs idx)
  show ?case
  proof (cases k)
    case 0
    with "2.prems" show ?thesis by (simp add: index_orgs_other)
  next
    case (Suc j)
    with "2.prems" show ?thesis using "2.IH" [of j] by (simp del: fun_upd_apply)
  qed
qed simp

definition team_shape :: "OrgNode list \<Rightarrow> (int \<times> int list) list" where
  "team_shape orgs = map (\<lambda>x. (ot_ID x, map tn_ID (ot_Teams x))) orgs"

definition good_shape :: "(int \<times> int list) list \<Rightarrow> (int \<rightharpoonup> nat) \<Rightarrow> bool" where
  "good_shape sh idx \<longleftrightarrow> distinct (map fst sh) \<and>
     (\<forall>a\<in>set sh. \<forall>i<length (snd a). idx (snd a ! i) = Some i) \<and>
     (\<exists>owner. \<forall>a\<in>set sh. \<forall>i\<in>set (snd a). owner i = fst a)"

lemma shape_update_teams: "(\<And>t. tn_ID (f t) = tn_ID t) \<Longrightarrow> team_shape (update_teams f orgs) = team_shape orgs"
  by (simp add: team_shape_def update_teams_def comp_def)

lemma place_project_update:
  assumes "distinct (map ot_ID orgs)"
    and "\<And>x i. x \<in> set orgs \<Longrightarrow> i < length (ot_Teams x) \<Longrightarrow> tn_ID (ot_Teams x ! i) = tid \<Longrightarrow> i = ti"
    and "\<And>x y s t. x \<in> set orgs \<Longrightarrow> y \<in> set orgs \<Longrightarrow> s \<in> set (ot_Teams x) \<Longrightarrow> t \<in> set (ot_Teams y) \<Longrightarrow>
      tn_ID s = tid \<Longrightarrow> tn_ID t = tid \<Longrightarrow> ot_ID x = ot_ID y"
  shows "place_project ti tid p orgs =
    update_teams (\<lambda>t. if tn_ID t = tid then t\<lparr>tn_Projects := tn_Projects t @ [p]\<rparr> else t) orgs"
  using assms
proof (induction orgs)
  case (Cons x xs)
  let ?f = "\<lambda>t. if tn_ID t = tid then t\<lparr>tn_Projects := tn_Projects t @ [p]\<rparr> else t"
  have same: "map ?f ts = ts" if "\<And>t. t \<in> set ts \<Longrightarrow> tn_ID t \<noteq> tid" for ts
    using that by (intro map_idI) auto
  show ?case
  proof (cases "ti < length (ot_Teams x) \<and> tn_ID (ot_Teams x ! ti) = tid")
    case True
    have "map ?f (ot_Teams x) = (ot_Teams x)[ti := ?f (ot_Teams x ! ti)]"
      using Cons.prems(2) [of x] True by (intro nth_equalityI) (auto simp: nth_list_update)
    moreover have "update_teams ?f xs = xs"
    proof -
      have "map ?f (ot_Teams y) = ot_Teams y" if "y \<in> set xs" for y
        using Cons.prems(1) Cons.prems(3) [of x y "ot_Teams x ! ti"] True that by (intro same) (auto simp: image_iff)
      then show ?thesis unfolding update_teams_def by (intro map_idI) simp
    qed
    ultimately show ?thesis using True by (simp add: update_teams_def)
  next
    case False
    have "map ?f (ot_Teams x) = ot_Teams x"
      using Cons.prems(2) [of x] False by (intro same) (auto simp: in_set_conv_nth)
    moreover have "place_project ti tid p xs = update_teams ?f xs"
    proof (rule Cons.IH)
      show "distinct (map ot_ID xs)" using Cons.prems(1) by simp
      show "i = ti" if "y \<in> set xs" "i < length (ot_Teams y)" "tn_ID (ot_Teams y ! i) = tid" for y i
        using Cons.prems(2) [of y i] that by simp
      show "ot_ID y = ot_ID z" if "y \<in> set xs" "z \<in> set xs" "s \<in> set (ot_Teams y)" "t \<in> set (ot_Teams z)"
          "tn_ID s = tid" "tn_ID t = tid" for y z s t
        using Cons.prems(3) [of y z s t] that by simp
    qed
    ultimately show ?thesis using False by (auto simp: update_teams_def)
  qed
qed (simp add: update_teams_def)

lemma add_project_update:
  assumes "good_shape (team_shape orgs) idx"
  shows "add_project idx orgs p = (case pj_TeamID p of None \<Rightarrow> orgs | Some tid \<Rightarrow>
    update_teams (\<lambda>t. if tn_ID t = tid then t\<lparr>tn_Projects := tn_Projects t @ [project_node p]\<rparr> else t) orgs)"
proof (cases "pj_TeamID p")
  case (Some tid)
  have pos: "idx (tn_ID (ot_Teams x ! i)) = Some i" if "x \<in> set orgs" "i < length (ot_Teams x)" for x i
    using assms that by (auto simp: good_shape_def team_shape_def)
  obtain owner where "owner (tn_ID t) = ot_ID x" if "x \<in> set orgs" "t \<in> set (ot_Teams x)" for x t
    using assms by (fastforce simp: good_shape_def team_shape_def)
  then have uniq: "ot_ID x = ot_ID y" if "x \<in> set orgs" "y \<in> set orgs" "s \<in> set (ot_Teams x)" "t \<in> set (ot_Teams y)"
      "tn_ID s = tid" "tn_ID t = tid" for x y s t
    using that by metis
  have dist: "distinct (map ot_ID orgs)" using assms by (simp add: good_shape_def team_shape_def comp_def)
  show ?thesis
  proof (cases "idx tid")
    case None
    have "map (\<lambda>t. if tn_ID t = tid then t\<lparr>tn_Projects := tn_Projects t @ [project_node p]\<rparr> else t) (ot_Teams x) = ot_Teams x"
      if "x \<in> set orgs" for x
      using pos [OF that] None by (intro map_idI) (auto simp: in_set_conv_nth)
    then have "update_teams (\<lambda>t. if tn_ID t = tid then t\<lparr>tn_Projects := tn_Projects t @ [project_node p]\<rparr> else t) orgs = orgs"
      unfolding update_teams_def by (intro map_idI) simp
    with None Some show ?thesis by (simp add: add_project_def)
  next
    case (Some ti)
    have "i = ti" if "x \<in> set orgs" "i < length (ot_Teams x)" "tn_ID (ot_Teams x ! i) = tid" for x i
      using pos [OF that(1,2)] that(3) Some by simp
    with place_project_update [OF dist this uniq] Some \<open>pj_TeamID p = Some tid\<close> show ?thesis
      by (simp add: add_project_def)
  qed
qed (simp add: add_project_def)

lemma add_projects:
  assumes "good_shape (team_shape orgs) idx"
  shows "foldl (add_project idx) orgs ps =
    update_teams (\<lambda>t. t\<lparr>tn_Projects := tn_Projects t @ map project_node (filter (\<lambda>p. pj_TeamID p = Some (tn_ID t)) ps)\<rparr>) orgs"
proof -
  let ?step = "\<lambda>orgs p. case pj_TeamID p of None \<Rightarrow> orgs | Some tid \<Rightarrow>
    update_teams (\<lambda>t. if tn_ID t = tid then t\<lparr>tn_Projects := tn_Projects t @ [project_node p]\<rparr> else t) orgs"
  have "foldl (add_project idx) orgs ps = foldl ?step orgs ps"
    using assms
  proof (induction ps arbitrary: orgs)
    case (Cons p ps)
    have "team_shape (?step orgs p) = team_shape orgs" by (simp add: shape_update_teams split: option.split)
    with Cons show ?case by (simp add: add_project_update)
  qed simp
  also have "\<dots> = update_teams (\<lambda>t. foldl (\<lambda>t p. t\<lparr>tn_Projects := tn_Projects t @ [project_node p]\<rparr>) t
      (filter (\<lambda>p. pj_TeamID p = Some (tn_ID t)) ps)) orgs"
    by (rule fold_children) (simp_all add: update_teams_comp)
  finally show ?thesis by (simp add: foldl_app_projects)
qed

text \<open>Teams: the index of a team is its place among the teams of its organisation.\<close>

definition with_teams :: "OrgNode list \<Rightarrow> Team list \<Rightarrow> OrgNode list" where
  "with_teams orgs ts = map (\<lambda>x. x\<lparr>ot_Teams := ot_Teams x @ map team_node (filter (\<lambda>t. tm_OrgID t = Some (ot_ID x)) ts)\<rparr>) orgs"

lemma add_team_step:
  assumes "distinct (map ot_ID orgs)" and "orgs0 = map (\<lambda>x. x\<lparr>ot_Teams := []\<rparr>) orgs"
  shows "fst (add_team (index_orgs 0 orgs0 (\<lambda>_. None)) (orgs, idx) t) =
    (case tm_OrgID t of None \<Rightarrow> orgs | Some i \<Rightarrow> map (\<lambda>x. if ot_ID x = i then x\<lparr>ot_Teams := ot_Teams x @ [team_node t]\<rparr> else x) orgs)"
proof (cases "tm_OrgID t")
  case (Some i)
  have d0: "distinct (map ot_ID orgs0)" using assms by (simp add: comp_def)
  show ?thesis
  proof (cases "i \<in> ot_ID ` set orgs")
    case True
    then obtain k where k: "k < length orgs" "ot_ID (orgs ! k) = i" by (auto simp: in_set_conv_nth)
    have "index_orgs 0 orgs0 (\<lambda>_. None) i = Some k"
      using index_orgs_nth [OF d0, of k 0 "\<lambda>_. None"] k assms(2) by simp
    moreover have "orgs[k := (orgs ! k)\<lparr>ot_Teams := ot_Teams (orgs ! k) @ [team_node t]\<rparr>] =
        map (\<lambda>x. if ot_ID x = i then x\<lparr>ot_Teams := ot_Teams x @ [team_node t]\<rparr> else x) orgs"
      using assms(1) k by (intro nth_equalityI) (auto simp: nth_list_update distinct_conv_nth)
    ultimately show ?thesis using Some by (simp add: add_team_def)
  next
    case False
    then have "index_orgs 0 orgs0 (\<lambda>_. None) i = None" using assms(2) by (subst index_orgs_other) auto
    moreover have "map (\<lambda>x. if ot_ID x = i then x\<lparr>ot_Teams := ot_Teams x @ [team_node t]\<rparr> else x) orgs = orgs"
      using False by (intro map_idI) auto
    ultimately show ?thesis using Some by (simp add: add_team_def)
  qed
qed (simp add: add_team_def)
lemma shape_with_teams:
  "team_shape (with_teams (map org_node os) ts) =
     map (\<lambda>r. (og_ID r, map tm_ID (filter (\<lambda>t. tm_OrgID t = Some (og_ID r)) ts))) os"
  by (simp add: team_shape_def with_teams_def org_node_def team_node_def comp_def)

lemma with_teams_snoc:
  "with_teams orgs (ts @ [t]) = (case tm_OrgID t of None \<Rightarrow> with_teams orgs ts | Some i \<Rightarrow>
     map (\<lambda>x. if ot_ID x = i then x\<lparr>ot_Teams := ot_Teams x @ [team_node t]\<rparr> else x) (with_teams orgs ts))"
  by (auto simp: with_teams_def split: option.split)

lemma org_ids_with_teams: "map ot_ID (with_teams orgs ts) = map ot_ID orgs"
  by (simp add: with_teams_def)

lemma with_teams_reset: "map (\<lambda>x. x\<lparr>ot_Teams := []\<rparr>) (with_teams (map org_node os) ts) = map org_node os"
  by (simp add: with_teams_def org_node_def)

definition team_index :: "Org list \<Rightarrow> Team list \<Rightarrow> (int \<rightharpoonup> nat) \<Rightarrow> bool" where
  "team_index os ts idx \<longleftrightarrow> (\<forall>r\<in>set os. \<forall>i<length (filter (\<lambda>t. tm_OrgID t = Some (og_ID r)) ts).
     idx (tm_ID (filter (\<lambda>t. tm_OrgID t = Some (og_ID r)) ts ! i)) = Some i)"

lemma team_index_snoc:
  assumes "team_index os ts idx" and "tm_ID t \<notin> tm_ID ` set ts" and "r \<in> set os" and "tm_OrgID t = Some (og_ID r)"
  shows "team_index os (ts @ [t]) (idx(tm_ID t \<mapsto> length (filter (\<lambda>t. tm_OrgID t = Some (og_ID r)) ts)))"
proof -
  have fresh: "tm_ID (filter P ts ! i) \<noteq> tm_ID t" if "i < length (filter P ts)" for P i
    using assms(2) nth_mem [OF that] by (metis filter_is_subset imageI subsetD)
  show ?thesis
    using assms(1,4) fresh by (auto simp: team_index_def nth_append less_Suc_eq)
qed

lemma team_index_skip:
  "team_index os ts idx \<Longrightarrow> \<forall>r\<in>set os. tm_OrgID t \<noteq> Some (og_ID r) \<Longrightarrow> team_index os (ts @ [t]) idx"
  by (simp add: team_index_def)

lemma add_teams:
  assumes "distinct (map og_ID os)" and "distinct (map tm_ID ts)"
    and "foldl (add_team (index_orgs 0 (map org_node os) (\<lambda>_. None))) (map org_node os, \<lambda>_. None) ts = (orgs, idx)"
  shows "orgs = with_teams (map org_node os) ts \<and> team_index os ts idx"
  using assms(2,3)
proof (induction ts arbitrary: orgs idx rule: rev_induct)
  case Nil
  then show ?case by (simp add: with_teams_def team_index_def org_node_def)
next
  case (snoc t ts)
  let ?I = "index_orgs 0 (map org_node os) (\<lambda>_. None)"
  obtain orgs1 idx1 where f: "foldl (add_team ?I) (map org_node os, \<lambda>_. None) ts = (orgs1, idx1)" by fastforce
  with snoc have orgs1: "orgs1 = with_teams (map org_node os) ts" and idx1: "team_index os ts idx1" by simp_all
  have now: "(orgs, idx) = add_team ?I (orgs1, idx1) t" using snoc.prems f by simp
  have ids: "distinct (map ot_ID (map org_node os))" using assms(1) by (simp add: comp_def org_node_def)
  have "orgs = with_teams (map org_node os) (ts @ [t])"
    using add_team_step [OF _ with_teams_reset [symmetric], of os ts idx1 t] ids now
    by (simp add: orgs1 org_ids_with_teams with_teams_snoc prod_eq_iff)
  moreover have "team_index os (ts @ [t]) idx"
  proof (cases "\<exists>k<length os. tm_OrgID t = Some (og_ID (os ! k))")
    case True
    then obtain k where k: "k < length os" "tm_OrgID t = Some (og_ID (os ! k))" by blast
    have "?I (og_ID (os ! k)) = Some k"
      using index_orgs_nth [OF ids, of k 0] k(1) by (simp add: org_node_def)
    moreover have "length (ot_Teams (orgs1 ! k)) = length (filter (\<lambda>t. tm_OrgID t = Some (og_ID (os ! k))) ts)"
      using k(1) by (simp add: orgs1 with_teams_def org_node_def)
    ultimately have "idx = idx1(tm_ID t \<mapsto> length (filter (\<lambda>t. tm_OrgID t = Some (og_ID (os ! k))) ts))"
      using now k(2) by (simp add: add_team_def)
    with team_index_snoc [OF idx1 _ nth_mem [OF k(1)] k(2)] snoc.prems(1) show ?thesis by simp
  next
    case False
    then have none: "\<forall>r\<in>set os. tm_OrgID t \<noteq> Some (og_ID r)" by (metis in_set_conv_nth)
    have "?I i = None" if "tm_OrgID t = Some i" for i
      using none that by (subst index_orgs_other) (auto simp: org_node_def)
    then have "idx = idx1" using now by (auto simp: add_team_def split: option.splits)
    with team_index_skip [OF idx1 none] show ?thesis by simp
  qed
  ultimately show ?case ..
qed

lemma good_shape_teams:
  assumes "distinct (map og_ID os)" and "distinct (map tm_ID ts)" and "team_index os ts idx"
  shows "good_shape (team_shape (with_teams (map org_node os) ts)) idx"
proof -
  have "the (tm_OrgID (the (find (\<lambda>u. tm_ID u = tm_ID t) ts))) = og_ID r" if "t \<in> set ts" "tm_OrgID t = Some (og_ID r)" for t r
  proof -
    have "find (\<lambda>u. tm_ID u = tm_ID t) ts = Some t"
      using assms(2) that(1) by (induction ts) (auto simp: image_iff)
    with that(2) show ?thesis by simp
  qed
  then show ?thesis
    using assms by (auto simp: good_shape_def shape_with_teams team_index_def comp_def
        intro!: exI [of _ "\<lambda>i. the (tm_OrgID (the (find (\<lambda>u. tm_ID u = i) ts)))"])
qed
section \<open>The tree is the hierarchy\<close>

text \<open>The reference: every level is the rows that refer to the level above, by id.\<close>

definition users_of :: "user_row list \<Rightarrow> key_row list \<Rightarrow> Project \<Rightarrow> UserNode list" where
  "users_of us ks p = map (\<lambda>u. (user_node u)\<lparr>un_Keys := map key_node (filter (\<lambda>k. ak_UserID k = us_ID u) ks)\<rparr>)
     (filter (\<lambda>u. us_ProjectID u = Some (pj_ID p)) us)"

definition projects_of :: "Project list \<Rightarrow> user_row list \<Rightarrow> key_row list \<Rightarrow> Team \<Rightarrow> ProjectNode list" where
  "projects_of ps us ks t = map (\<lambda>p. (project_node p)\<lparr>pn_Users := users_of us ks p\<rparr>)
     (filter (\<lambda>p. pj_TeamID p = Some (tm_ID t)) ps)"

definition teams_of :: "Team list \<Rightarrow> Project list \<Rightarrow> user_row list \<Rightarrow> key_row list \<Rightarrow> Org \<Rightarrow> TeamNode list" where
  "teams_of ts ps us ks r = map (\<lambda>t. (team_node t)\<lparr>tn_Projects := projects_of ps us ks t\<rparr>)
     (filter (\<lambda>t. tm_OrgID t = Some (og_ID r)) ts)"

definition tree_spec :: "Org list \<Rightarrow> Team list \<Rightarrow> Project list \<Rightarrow> user_row list \<Rightarrow> key_row list \<Rightarrow> OrgNode list" where
  "tree_spec os ts ps us ks = map (\<lambda>r. (org_node r)\<lparr>ot_Teams := teams_of ts ps us ks r\<rparr>) os"

lemma distinct_sort_key: "distinct (map f xs) \<Longrightarrow> distinct (map f (sort_key f xs))"
  by (metis mset_eq_imp_distinct_iff mset_map mset_sort)

lemma levels_are_filters:
  "update_users (\<lambda>u. u\<lparr>un_Keys := un_Keys u @ map key_node (filter (\<lambda>k. ak_UserID k = un_ID u) ks)\<rparr>)
    (update_projects (\<lambda>p. p\<lparr>pn_Users := pn_Users p @ map user_node (filter (\<lambda>u. us_ProjectID u = Some (pn_ID p)) us)\<rparr>)
     (update_teams (\<lambda>t. t\<lparr>tn_Projects := tn_Projects t @ map project_node (filter (\<lambda>p. pj_TeamID p = Some (tn_ID t)) ps)\<rparr>)
      (with_teams (map org_node os) ts))) = tree_spec os ts ps us ks"
  by (simp add: update_users_def update_projects_def update_teams_def with_teams_def tree_spec_def teams_of_def projects_of_def
      users_of_def org_node_def team_node_def project_node_def user_node_def comp_def)

lemma distinct_scanned: "distinct (map f xs) \<Longrightarrow> distinct (map f (scanned closes parent xs))"
  using map_append [of f "takeWhile (\<lambda>r. parent r \<noteq> None) xs" "dropWhile (\<lambda>r. parent r \<noteq> None) xs"]
  by (auto simp: scanned_def simp del: map_append)

text \<open>Theorem: The tree of the rows that were scanned: the positions the code remembers always lead to the
  right team, and every level lists exactly the scanned rows that refer to it.\<close>

lemma org_tree_of_scanned:
  assumes "auth_ok db"
  shows "OrgTree closes [] db = Inr (tree_spec (sort_key og_ID (ad_orgs db)) (scanned closes tm_OrgID (sort_key tm_ID (ad_teams db)))
    (scanned closes pj_TeamID (sort_key pj_ID (ad_projects db))) (scanned closes us_ProjectID (sort_key us_ID (ad_users db)))
    (sort_key ak_ID (ad_keys db)))"
proof -
  let ?os = "sort_key og_ID (ad_orgs db)" and ?ts = "scanned closes tm_OrgID (sort_key tm_ID (ad_teams db))"
  have os: "distinct (map og_ID ?os)" and ts: "distinct (map tm_ID ?ts)"
    using assms by (auto simp: auth_ok_def ids_ok_def intro!: distinct_sort_key distinct_scanned)
  obtain orgs idx where f: "foldl (add_team (index_orgs 0 (map org_node ?os) (\<lambda>_. None))) (map org_node ?os, \<lambda>_. None) ?ts = (orgs, idx)"
    by fastforce
  from add_teams [OF os ts f] have orgs: "orgs = with_teams (map org_node ?os) ?ts" and idx: "team_index ?os ?ts idx" by simp_all
  show ?thesis
    using add_projects [OF good_shape_teams [OF os ts idx], of "scanned closes pj_TeamID (sort_key pj_ID (ad_projects db))"]
    by (simp add: OrgTree_def f orgs add_users add_keys levels_are_filters)
qed

text \<open>C32: While the database answers and every team, project and user has a parent, the administrator's tree is
  the hierarchy itself: every organisation, team, project and user is listed once, in order of id, with exactly
  the rows that refer to it. With a driver that goes on after a failed scan, rows without a parent do no harm.\<close>

theorem org_tree_is_the_hierarchy:
  assumes "auth_ok db"
    and "closes \<longrightarrow> (\<forall>t\<in>set (ad_teams db). tm_OrgID t \<noteq> None) \<and> (\<forall>p\<in>set (ad_projects db). pj_TeamID p \<noteq> None) \<and>
      (\<forall>u\<in>set (ad_users db). us_ProjectID u \<noteq> None)"
  shows "OrgTree closes [] db = Inr (tree_spec (sort_key og_ID (ad_orgs db)) (sort_key tm_ID (ad_teams db))
    (sort_key pj_ID (ad_projects db)) (sort_key us_ID (ad_users db)) (sort_key ak_ID (ad_keys db)))"
proof -
  have all: "scanned closes parent xs = xs" if "closes \<longrightarrow> (\<forall>x\<in>set xs. parent x \<noteq> None)" for parent :: "'a \<Rightarrow> int option" and xs
    using that by (auto simp: scanned_def takeWhile_eq_all_conv)
  show ?thesis using assms(2) by (simp add: org_tree_of_scanned [OF assms(1)] all)
qed

theorem org_tree_is_the_hierarchy_witness:
  "\<exists>tree. OrgTree True [] demo_auth = Inr tree \<and> map ot_Name tree = [''acme''] \<and>
     map (\<lambda>t. map (\<lambda>p. map un_Username (pn_Users p)) (tn_Projects t)) (ot_Teams (hd tree)) = [[[''ann'']]]"
proof -
  have "(\<forall>t\<in>set (ad_teams demo_auth). tm_OrgID t \<noteq> None) \<and> (\<forall>p\<in>set (ad_projects demo_auth). pj_TeamID p \<noteq> None) \<and>
      (\<forall>u\<in>set (ad_users demo_auth). us_ProjectID u \<noteq> None)" by code_simp
  with org_tree_is_the_hierarchy [OF demo_auth_ok, of True] show ?thesis
    by (intro exI conjI, simp) code_simp+
qed

text \<open>Theorem: With a driver that closes the rows when a scan fails, one user without a project, the state every
  registration leaves, hides all users with a larger id from the administrator's tree, and their keys with them.\<close>

theorem user_without_project_hides_later_users:
  assumes "auth_ok db" and "OrgTree True [] db = Inr tree" and "x \<in> set (ad_users db)" and "us_ProjectID x = None"
    and "n \<in> set tree" and "t \<in> set (ot_Teams n)" and "p \<in> set (tn_Projects t)" and "v \<in> set (pn_Users p)"
  shows "un_ID v < us_ID x"
proof -
  let ?us = "sort_key us_ID (ad_users db)"
  obtain u where u: "u \<in> set (takeWhile (\<lambda>r. us_ProjectID r \<noteq> None) ?us)" "un_ID v = us_ID u"
    using assms(5-) org_tree_of_scanned [OF assms(1), of True] assms(2)
    by (auto simp: tree_spec_def teams_of_def projects_of_def users_of_def scanned_def user_node_def)
  have split: "?us = takeWhile (\<lambda>r. us_ProjectID r \<noteq> None) ?us @ dropWhile (\<lambda>r. us_ProjectID r \<noteq> None) ?us" by simp
  have "x \<in> set ?us" using assms(3) by simp
  then have x: "x \<in> set (dropWhile (\<lambda>r. us_ProjectID r \<noteq> None) ?us)"
    using assms(4) split by (metis (mono_tags, lifting) Un_iff set_append set_takeWhileD)
  have "sorted (map us_ID ?us)" "distinct (map us_ID ?us)"
    using assms(1) distinct_sort_key [of us_ID "ad_users db"] by (simp_all add: auth_ok_def ids_ok_def)
  with u x show ?thesis
    by (subst (asm) split, subst (asm) (2) split) (auto simp: sorted_append order_less_le simp del: takeWhile_dropWhile_id)
qed

definition demo_unassigned :: authdb where
  "demo_unassigned = foldl (auth_exec Some id) demo_auth (map (Pair NoFault)
     [OpRegister ''bob'' ''password2'', OpRegister ''eve'' ''password3'', OpSetUserProject 3 1])"

theorem user_without_project_hides_later_users_witness:
  "\<exists>tree. OrgTree True [] demo_unassigned = Inr tree \<and> un_ID (hd (pn_Users (hd (tn_Projects (hd (ot_Teams (hd tree))))))) < 2"
proof -
  have ok: "auth_ok demo_unassigned" unfolding demo_unassigned_def by (rule auth_ok_run [OF demo_auth_ok])
  let ?x = "ad_users demo_unassigned ! 1" and ?tree = "case OrgTree True [] demo_unassigned of Inr t \<Rightarrow> t | Inl _ \<Rightarrow> []"
  have "?x \<in> set (ad_users demo_unassigned)" "us_ProjectID ?x = None" "us_ID ?x = 2" "?tree \<noteq> []" "ot_Teams (hd ?tree) \<noteq> []"
    "tn_Projects (hd (ot_Teams (hd ?tree))) \<noteq> []" "pn_Users (hd (tn_Projects (hd (ot_Teams (hd ?tree))))) \<noteq> []" by code_simp+
  then show ?thesis
    using user_without_project_hides_later_users [where tree = ?tree and x = ?x and n = "hd ?tree" and t = "hd (ot_Teams (hd ?tree))" and
        p = "hd (tn_Projects (hd (ot_Teams (hd ?tree))))" and v = "hd (pn_Users (hd (tn_Projects (hd (ot_Teams (hd ?tree))))))", OF ok]
    by (auto split: sum.splits)
qed

lemma collect_scopes_ok:
  "collect_scopes [] db ls = Inr (concat (map (\<lambda>l. filter (\<lambda>r. sw_RPM r > 0 \<or> sw_TPM r > 0) (layer_rows db l)) ls))"
  by (induction ls) simp_all

text \<open>Theorem: Whatever order the map of queries is visited in, the monitor samples the same scopes:
  every organisation, team, project and user with a quota, once.\<close>

theorem quota_scopes_any_order:
  "\<exists>rs. QuotaScopes prio [] db = Inr rs \<and>
     mset rs = mset (filter (\<lambda>r. sw_RPM r > 0 \<or> sw_TPM r > 0) (concat (map (layer_rows db) scope_layers)))"
proof -
  let ?g = "\<lambda>i. filter (\<lambda>r. sw_RPM r > 0 \<or> sw_TPM r > 0) (layer_rows db (scope_layers ! i))"
  have "mset (map_range prio [0..<4]) = mset [0..<4]"
    by (intro set_eq_iff_mset_eq_distinct [THEN iffD1] map_range_distinct map_range_set distinct_upt)
  then have "image_mset ?g (mset (map_range prio [0..<4])) = image_mset ?g (mset [0..<4])" by simp
  then have "mset (map ?g (map_range prio [0..<4])) = mset (map ?g [0..<4])" by (simp only: mset_map)
  then have "sum_mset (image_mset mset (mset (map ?g (map_range prio [0..<4])))) = sum_mset (image_mset mset (mset (map ?g [0..<4])))"
    by simp
  then have "mset (concat (map ?g (map_range prio [0..<4]))) = mset (concat (map ?g [0..<4]))"
    by (simp only: mset_concat mset_map [symmetric] sum_mset_sum_list)
  then show ?thesis
    by (simp add: QuotaScopes_def collect_scopes_ok comp_def scope_layers_def upt_rec filter_concat)
qed

end
