(* ===== verification/Portal.thy ===== *)
theory Portal
  imports Payment Identity Org_Tree
begin

text \<open>
  \<open>internal/portal/portal.go\<close>: the user-facing and administrative HTTP API over accounts and
  payments. A request carries what the handlers read of it; its path has no percent escapes,
  and its body is given as the fields of the handler's struct (a field the JSON does not set is
  zero) with the outcome of the decoder. The functions the service is built with (\<open>WithBalance\<close>,
  \<open>WithUsage\<close>, \<open>WithUsageByModel\<close>), the token library, bcrypt and the hashes are fields of the API.
  The state is both databases and the wallet behind \<open>topUp\<close>. Each handler runs to its end before
  the next one; an answer is the status and the content of the body.
\<close>

section \<open>Requests and answers\<close>

record body =
  bd_err :: bool
  bd_Username :: string
  bd_Password :: string
  bd_Name :: string
  bd_Limits :: Limits
  bd_ProjectID :: int
  bd_TeamID :: int
  bd_OrgID :: int
  bd_AmountMicros :: int
  bd_IdempotencyKey :: string
  bd_RechargeID :: int
  bd_Channel :: string

record request =
  rq_Method :: string
  rq_Path :: string
  rq_Authorization :: string
  rq_UserHeader :: string
  rq_Signature :: string
  rq_Query :: "string \<Rightarrow> string"
  rq_Cookie :: "string option"
  rq_Payload :: string
  rq_Body :: body

datatype payload =
    PError string
  | PFailed go_error
  | PQuota int int int
  | PPlaced int int
  | PProject Project
  | POrg Org
  | PTeam Team
  | PTree "OrgNode list"
  | PKeyID int
  | PBalance int int
  | PUsage int int "UsageDay list"
  | PModels int int "UsageByModelRow list" int int int
  | PUser User
  | PToken int string bool
  | PKey string
  | PKeys "Key list"
  | PRecharge int string
  | PTxn string string
  | POidc "string option" "string login_answer"
  | PStatic
  | PEmpty

type_synonym answer = "int \<times> payload"

record 'c portal =
  pt_auth :: authdb
  pt_pay :: paydb
  pt_wallet :: 'c

record 'c API =
  ap_adminKey :: string
  ap_jwt :: "(string jwt_lib \<times> string) option"
  ap_oidc :: "string oidc option"
  ap_balance :: "('c \<Rightarrow> int \<Rightarrow> go_error + int) option"
  ap_usage :: "(string \<Rightarrow> int \<Rightarrow> go_error + UsageDay list) option"
  ap_usageByModel :: "(string \<Rightarrow> int \<Rightarrow> go_error + UsageByModelRow list) option"
  ap_stripe :: "string option"
  ap_webDir :: bool
  ap_gen :: "string \<Rightarrow> string option"
  ap_chk :: "string \<Rightarrow> string \<Rightarrow> bool"
  ap_sha :: "string \<Rightarrow> string"
  ap_mac :: "string \<Rightarrow> string \<Rightarrow> string"
  ap_parse :: "string \<Rightarrow> (string \<times> string) option"
  ap_topUp :: "'c topup"
  ap_chans :: channels

text \<open>What a request meets: the clock, random bytes, the outcomes of its calls, the database driver.\<close>

record env =
  en_now :: int
  en_rand :: "string option"
  en_sched :: sched
  en_closes :: bool

definition en_fault :: "env \<Rightarrow> fault" where
  "en_fault e = fst (pop_fault (en_sched e))"

definition en_bytes :: "env \<Rightarrow> string" where
  "en_bytes e = (case en_rand e of None \<Rightarrow> [] | Some bs \<Rightarrow> bs)"

section \<open>Administration\<close>

definition adminOnly :: "'c API \<Rightarrow> request \<Rightarrow> bool" where
  "adminOnly api r \<longleftrightarrow> ap_adminKey api \<noteq> [] \<and> rq_Authorization r = ''Bearer '' @ ap_adminKey api"

definition guarded :: "'c API \<Rightarrow> request \<Rightarrow> 'c portal \<Rightarrow> 'c portal \<times> answer \<Rightarrow> 'c portal \<times> answer" where
  "guarded api r s k = (if adminOnly api r then k else (s, 401, PError ''admin key required''))"

definition with_id :: "string \<Rightarrow> string \<Rightarrow> 'c portal \<Rightarrow> (int \<Rightarrow> 'c portal \<times> answer) \<Rightarrow> 'c portal \<times> answer" where
  "with_id what i s k = (case ParseInt i of None \<Rightarrow> (s, 400, PError (''invalid '' @ what @ '' id'')) | Some n \<Rightarrow> k n)"

definition reply :: "'c portal \<Rightarrow> string \<Rightarrow> ('a \<Rightarrow> payload) \<Rightarrow> authdb \<times> (go_error + 'a) \<Rightarrow> 'c portal \<times> answer" where
  "reply s failed ok r =
     (case r of (db, Inl e) \<Rightarrow> (s\<lparr>pt_auth := db\<rparr>, 500, PError failed) | (db, Inr x) \<Rightarrow> (s\<lparr>pt_auth := db\<rparr>, 200, ok x))"

abbreviation "invalid_body s \<equiv> (s, 400, PError ''invalid body'')"

definition setUserLimits :: "'c API \<Rightarrow> env \<Rightarrow> 'c portal \<Rightarrow> request \<Rightarrow> string \<Rightarrow> 'c portal \<times> answer" where
  "setUserLimits api e s r i =
     guarded api r s (with_id ''user'' i s (\<lambda>n. let b = rq_Body r; rpm = lm_RPM (bd_Limits b); tpm = lm_TPM (bd_Limits b) in
       if bd_err b then invalid_body s
       else reply s ''update failed'' (\<lambda>_. PQuota n rpm tpm) (SetUserLimits (en_fault e) (pt_auth s) n rpm tpm)))"

definition setUserProject :: "'c API \<Rightarrow> env \<Rightarrow> 'c portal \<Rightarrow> request \<Rightarrow> string \<Rightarrow> 'c portal \<times> answer" where
  "setUserProject api e s r i =
     guarded api r s (with_id ''user'' i s (\<lambda>n. let b = rq_Body r in
       if bd_err b then invalid_body s
       else reply s ''update failed'' (\<lambda>_. PPlaced n (bd_ProjectID b)) (SetUserProject (en_fault e) (pt_auth s) n (bd_ProjectID b))))"

definition createProject :: "'c API \<Rightarrow> env \<Rightarrow> 'c portal \<Rightarrow> request \<Rightarrow> 'c portal \<times> answer" where
  "createProject api e s r =
     guarded api r s (let b = rq_Body r in
       if bd_err b \<or> bd_Name b = [] then invalid_body s
       else reply s ''create failed'' PProject
              (CreateProject (en_fault e) (pt_auth s) (bd_Name b) (lm_RPM (bd_Limits b)) (lm_TPM (bd_Limits b))))"

definition setProjectLimits :: "'c API \<Rightarrow> env \<Rightarrow> 'c portal \<Rightarrow> request \<Rightarrow> string \<Rightarrow> 'c portal \<times> answer" where
  "setProjectLimits api e s r i =
     guarded api r s (with_id ''project'' i s (\<lambda>n. let b = rq_Body r; rpm = lm_RPM (bd_Limits b); tpm = lm_TPM (bd_Limits b) in
       if bd_err b then invalid_body s
       else reply s ''update failed'' (\<lambda>_. PQuota n rpm tpm) (SetProjectLimits (en_fault e) (pt_auth s) n rpm tpm)))"

definition setProjectTeam :: "'c API \<Rightarrow> env \<Rightarrow> 'c portal \<Rightarrow> request \<Rightarrow> string \<Rightarrow> 'c portal \<times> answer" where
  "setProjectTeam api e s r i =
     guarded api r s (with_id ''project'' i s (\<lambda>n. let b = rq_Body r in
       if bd_err b \<or> bd_TeamID b \<le> 0 then invalid_body s
       else reply s ''update failed'' (\<lambda>_. PPlaced n (bd_TeamID b)) (SetProjectTeam (en_fault e) (pt_auth s) n (bd_TeamID b))))"

definition portal_setKeyLimits :: "'c API \<Rightarrow> env \<Rightarrow> 'c portal \<Rightarrow> request \<Rightarrow> string \<Rightarrow> 'c portal \<times> answer" where
  "portal_setKeyLimits api e s r i =
     guarded api r s (with_id ''key'' i s (\<lambda>n. let b = rq_Body r in
       if bd_err b then invalid_body s
       else reply s ''update failed'' (\<lambda>_. PKeyID n) (SetKeyLimits (en_fault e) (pt_auth s) n (bd_Limits b))))"

definition orgTree :: "'c API \<Rightarrow> env \<Rightarrow> 'c portal \<Rightarrow> request \<Rightarrow> 'c portal \<times> answer" where
  "orgTree api e s r =
     guarded api r s (case OrgTree (en_closes e) (en_sched e) (pt_auth s) of
       Inl err \<Rightarrow> (s, 500, PError ''query failed'') | Inr tree \<Rightarrow> (s, 200, PTree tree))"

definition createOrg :: "'c API \<Rightarrow> env \<Rightarrow> 'c portal \<Rightarrow> request \<Rightarrow> 'c portal \<times> answer" where
  "createOrg api e s r =
     guarded api r s (let b = rq_Body r in
       if bd_err b \<or> bd_Name b = [] then invalid_body s
       else reply s ''create failed'' POrg
              (CreateOrg (en_fault e) (pt_auth s) (bd_Name b) (lm_RPM (bd_Limits b)) (lm_TPM (bd_Limits b))))"

definition setOrgLimits :: "'c API \<Rightarrow> env \<Rightarrow> 'c portal \<Rightarrow> request \<Rightarrow> string \<Rightarrow> 'c portal \<times> answer" where
  "setOrgLimits api e s r i =
     guarded api r s (with_id ''org'' i s (\<lambda>n. let b = rq_Body r; rpm = lm_RPM (bd_Limits b); tpm = lm_TPM (bd_Limits b) in
       if bd_err b then invalid_body s
       else reply s ''update failed'' (\<lambda>_. PQuota n rpm tpm) (SetOrgLimits (en_fault e) (pt_auth s) n rpm tpm)))"

definition createTeam :: "'c API \<Rightarrow> env \<Rightarrow> 'c portal \<Rightarrow> request \<Rightarrow> 'c portal \<times> answer" where
  "createTeam api e s r =
     guarded api r s (let b = rq_Body r in
       if bd_err b \<or> bd_Name b = [] then invalid_body s
       else reply s ''create failed'' PTeam
              (CreateTeam (en_fault e) (pt_auth s) (bd_Name b) (bd_OrgID b) (lm_RPM (bd_Limits b)) (lm_TPM (bd_Limits b))))"

definition setTeamLimits :: "'c API \<Rightarrow> env \<Rightarrow> 'c portal \<Rightarrow> request \<Rightarrow> string \<Rightarrow> 'c portal \<times> answer" where
  "setTeamLimits api e s r i =
     guarded api r s (with_id ''team'' i s (\<lambda>n. let b = rq_Body r; rpm = lm_RPM (bd_Limits b); tpm = lm_TPM (bd_Limits b) in
       if bd_err b then invalid_body s
       else reply s ''update failed'' (\<lambda>_. PQuota n rpm tpm) (SetTeamLimits (en_fault e) (pt_auth s) n rpm tpm)))"

section \<open>The user's own data\<close>

text \<open>\<open>ctx\<close> is the user id the session put into the request's context.\<close>

definition userFromRequest :: "int option \<Rightarrow> request \<Rightarrow> int option" where
  "userFromRequest ctx r =
     (case ctx of
        Some v \<Rightarrow> Some v
      | None \<Rightarrow>
          let q = rq_Query r ''user_id''; raw = (if q = [] then rq_UserHeader r else q)
          in if raw = [] then None else ParseInt raw)"

definition balanceHandler :: "'c API \<Rightarrow> 'c portal \<Rightarrow> int option \<Rightarrow> request \<Rightarrow> 'c portal \<times> answer" where
  "balanceHandler api s ctx r =
     (case userFromRequest ctx r of
        None \<Rightarrow> (s, 400, PError ''authenticated user required'')
      | Some uid \<Rightarrow>
          (case ap_balance api of
             None \<Rightarrow> (s, 503, PError ''balance reader not configured'')
           | Some balance \<Rightarrow>
               (case balance (pt_wallet s) uid of
                  Inl err \<Rightarrow> (s, 500, PFailed err) | Inr bal \<Rightarrow> (s, 200, PBalance uid bal))))"

definition query_days :: "request \<Rightarrow> int" where
  "query_days r = (case ParseInt (rq_Query r ''days'') of Some v \<Rightarrow> if v > 0 then v else 7 | None \<Rightarrow> 7)"

text \<open>\<open>fmt.Sprintf\<close> with the verb \<open>%d\<close>.\<close>

definition Sprintf_d :: "int \<Rightarrow> string" where
  "Sprintf_d v = (if v < 0 then CHR ''-'' # itoa_loop (- v) [] else if v = 0 then ''0'' else itoa_loop v [])"

definition usageHandler :: "'c API \<Rightarrow> 'c portal \<Rightarrow> int option \<Rightarrow> request \<Rightarrow> 'c portal \<times> answer" where
  "usageHandler api s ctx r =
     (case userFromRequest ctx r of
        None \<Rightarrow> (s, 400, PError ''authenticated user required'')
      | Some uid \<Rightarrow>
          (case ap_usage api of
             None \<Rightarrow> (s, 503, PError ''usage not configured'')
           | Some usage \<Rightarrow>
               (case usage (''user-'' @ Sprintf_d uid) (query_days r) of
                  Inl err \<Rightarrow> (s, 500, PFailed err) | Inr rows \<Rightarrow> (s, 200, PUsage uid (query_days r) rows))))"

definition usageModelsHandler :: "'c API \<Rightarrow> 'c portal \<Rightarrow> int option \<Rightarrow> request \<Rightarrow> 'c portal \<times> answer" where
  "usageModelsHandler api s ctx r =
     (case userFromRequest ctx r of
        None \<Rightarrow> (s, 400, PError ''authenticated user required'')
      | Some uid \<Rightarrow>
          (case ap_usageByModel api of
             None \<Rightarrow> (s, 503, PError ''usage/models not configured'')
           | Some usage \<Rightarrow>
               (case usage (''user-'' @ Sprintf_d uid) (query_days r) of
                  Inl err \<Rightarrow> (s, 500, PFailed err)
                | Inr rows \<Rightarrow>
                    let totalRevenue = foldl (\<lambda>t m. add64 t (um_AmountMicros m)) 0 rows;
                        totalCost = foldl (\<lambda>t m. add64 t (um_CostMicros m)) 0 rows
                    in (s, 200, PModels uid (query_days r) rows totalRevenue totalCost (sub64 totalRevenue totalCost)))))"

definition register :: "'c API \<Rightarrow> env \<Rightarrow> 'c portal \<Rightarrow> request \<Rightarrow> 'c portal \<times> answer" where
  "register api e s r =
     (let b = rq_Body r in
      if bd_err b then invalid_body s
      else case Register (ap_gen api) (en_fault e) (pt_auth s) (TrimSpace (bd_Username b)) (bd_Password b) of
             (db, Inl err) \<Rightarrow> (s\<lparr>pt_auth := db\<rparr>, 409, PFailed err)
           | (db, Inr u) \<Rightarrow> (s\<lparr>pt_auth := db\<rparr>, 200, PUser u))"

definition login :: "'c API \<Rightarrow> env \<Rightarrow> 'c portal \<Rightarrow> request \<Rightarrow> 'c portal \<times> answer" where
  "login api e s r =
     (let b = rq_Body r in
      if bd_err b then invalid_body s
      else case Login (ap_chk api) (en_fault e) (pt_auth s) (TrimSpace (bd_Username b)) (bd_Password b) of
             Inl err \<Rightarrow> (s, 401, PFailed err)
           | Inr u \<Rightarrow>
               (case ap_jwt api of
                  Some (J, secret) \<Rightarrow> (s, 200, PToken (u_ID u) (Sign J secret (en_now e) (u_ID u) (u_Username u)) True)
                | None \<Rightarrow>
                    (s, 200, PToken (u_ID u) (case en_rand e of None \<Rightarrow> [] | Some raw \<Rightarrow> SessionToken raw (u_ID u)) False)))"

definition createKey :: "'c API \<Rightarrow> env \<Rightarrow> 'c portal \<Rightarrow> int option \<Rightarrow> request \<Rightarrow> 'c portal \<times> answer" where
  "createKey api e s ctx r =
     (case userFromRequest ctx r of
        None \<Rightarrow> (s, 400, PError ''user_id required'')
      | Some uid \<Rightarrow>
          (case CreateKey (ap_sha api) (en_rand e) (en_fault e) (pt_auth s) uid (bd_Name (rq_Body r)) (bd_Limits (rq_Body r)) of
             (db, Inl err) \<Rightarrow> (s\<lparr>pt_auth := db\<rparr>, 500, PFailed err)
           | (db, Inr key) \<Rightarrow> (s\<lparr>pt_auth := db\<rparr>, 200, PKey key)))"

definition listKeys :: "env \<Rightarrow> 'c portal \<Rightarrow> int option \<Rightarrow> request \<Rightarrow> 'c portal \<times> answer" where
  "listKeys e s ctx r =
     (case userFromRequest ctx r of
        None \<Rightarrow> (s, 400, PError ''user_id required'')
      | Some uid \<Rightarrow>
          (case ListKeys (en_fault e) (pt_auth s) uid of
             Inl err \<Rightarrow> (s, 500, PFailed err) | Inr keys \<Rightarrow> (s, 200, PKeys keys)))"

section \<open>Money\<close>

definition recharge :: "env \<Rightarrow> 'c portal \<Rightarrow> int option \<Rightarrow> request \<Rightarrow> 'c portal \<times> answer" where
  "recharge e s ctx r =
     (case userFromRequest ctx r of
        None \<Rightarrow> (s, 400, PError ''user_id required'')
      | Some uid \<Rightarrow>
          let b = rq_Body r in
          if bd_err b \<or> bd_AmountMicros b \<le> 0 then (s, 400, PError ''amount_micros > 0 required'')
          else case Recharge (\<lambda>u. find_user (pt_auth s) u \<noteq> None) (hex_encode (en_bytes e)) (en_fault e) (pt_pay s) uid
                      (bd_AmountMicros b) (bd_IdempotencyKey b) of
                 (db, Inl err) \<Rightarrow> (s\<lparr>pt_pay := db\<rparr>, 500, PFailed err)
               | (db, Inr i) \<Rightarrow> (s\<lparr>pt_pay := db\<rparr>, 200, PRecharge i ''PENDING''))"

definition payHandler :: "'c API \<Rightarrow> env \<Rightarrow> 'c portal \<Rightarrow> request \<Rightarrow> 'c portal \<times> answer" where
  "payHandler api e s r =
     (let b = rq_Body r in
      if bd_err b \<or> bd_RechargeID b \<le> 0 then (s, 400, PError ''recharge_id required'')
      else case Pay (ap_chans api) (ap_topUp api) (en_sched e) (pt_pay s, pt_wallet s) (bd_RechargeID b)
                  (if bd_Channel b = [] then ''mock'' else bd_Channel b) of
             ((db, c), Inl err) \<Rightarrow> (s\<lparr>pt_pay := db, pt_wallet := c\<rparr>, 500, PFailed err)
           | ((db, c), Inr txn) \<Rightarrow> (s\<lparr>pt_pay := db, pt_wallet := c\<rparr>, 200, PTxn txn ''PAID''))"

definition rechargeStatus :: "env \<Rightarrow> 'c portal \<Rightarrow> request \<Rightarrow> 'c portal \<times> answer" where
  "rechargeStatus e s r =
     (case ParseInt (rq_Query r ''recharge_id'') of
        None \<Rightarrow> (s, 400, PError ''recharge_id required'')
      | Some rid \<Rightarrow>
          if rid \<le> 0 then (s, 400, PError ''recharge_id required'')
          else case RechargeStatus (en_fault e) (pt_pay s) rid of
                 Inl err \<Rightarrow> (s, 404, PFailed err) | Inr st \<Rightarrow> (s, 200, PRecharge rid st))"

definition portal_webhook :: "'c API \<Rightarrow> env \<Rightarrow> 'c portal \<Rightarrow> request \<Rightarrow> 'c portal \<times> answer" where
  "portal_webhook api e s r =
     (case webhookHandler (ap_mac api) (ap_stripe api) (ap_parse api) (ap_topUp api) (en_sched e) (pt_pay s, pt_wallet s)
             (rq_Query r ''channel'') (take 1048576 (rq_Payload r)) (rq_Signature r) of
        ((db, c), code) \<Rightarrow> (s\<lparr>pt_pay := db, pt_wallet := c\<rparr>, code, PEmpty))"
section \<open>Routing\<close>

text \<open>
  \<open>http.ServeMux\<close>: a pattern is a method and segments; \<open>Wild\<close> matches one segment. A path with
  an empty or a dot segment is redirected to its clean form, so it matches no pattern; \<open>GET\<close>
  serves \<open>HEAD\<close> too.
\<close>

datatype segment = Lit string | Wild

datatype endpoint =
    EpRegister | EpLogin | EpSetUserLimits | EpSetUserProject | EpCreateProject | EpSetProjectLimits | EpSetProjectTeam
  | EpTree | EpSetKeyLimits | EpCreateOrg | EpSetOrgLimits | EpCreateTeam | EpSetTeamLimits | EpCreateKey | EpListKeys
  | EpRecharge | EpPay | EpRechargeStatus | EpBalance | EpUsage | EpUsageModels | EpWebhook

definition portal_routes :: "(string \<times> segment list \<times> endpoint) list" where
  "portal_routes =
     [(''POST'', [Lit ''api'', Lit ''register''], EpRegister),
      (''POST'', [Lit ''api'', Lit ''login''], EpLogin),
      (''PUT'', [Lit ''api'', Lit ''admin'', Lit ''users'', Wild, Lit ''limits''], EpSetUserLimits),
      (''PUT'', [Lit ''api'', Lit ''admin'', Lit ''users'', Wild, Lit ''project''], EpSetUserProject),
      (''POST'', [Lit ''api'', Lit ''admin'', Lit ''projects''], EpCreateProject),
      (''PUT'', [Lit ''api'', Lit ''admin'', Lit ''projects'', Wild, Lit ''limits''], EpSetProjectLimits),
      (''PUT'', [Lit ''api'', Lit ''admin'', Lit ''projects'', Wild, Lit ''team''], EpSetProjectTeam),
      (''GET'', [Lit ''api'', Lit ''admin'', Lit ''tree''], EpTree),
      (''PUT'', [Lit ''api'', Lit ''admin'', Lit ''keys'', Wild, Lit ''limits''], EpSetKeyLimits),
      (''POST'', [Lit ''api'', Lit ''admin'', Lit ''orgs''], EpCreateOrg),
      (''PUT'', [Lit ''api'', Lit ''admin'', Lit ''orgs'', Wild, Lit ''limits''], EpSetOrgLimits),
      (''POST'', [Lit ''api'', Lit ''admin'', Lit ''teams''], EpCreateTeam),
      (''PUT'', [Lit ''api'', Lit ''admin'', Lit ''teams'', Wild, Lit ''limits''], EpSetTeamLimits),
      (''POST'', [Lit ''api'', Lit ''keys''], EpCreateKey),
      (''GET'', [Lit ''api'', Lit ''keys''], EpListKeys),
      (''POST'', [Lit ''api'', Lit ''recharge''], EpRecharge),
      (''POST'', [Lit ''api'', Lit ''recharge'', Lit ''pay''], EpPay),
      (''GET'', [Lit ''api'', Lit ''recharge'', Lit ''status''], EpRechargeStatus),
      (''GET'', [Lit ''api'', Lit ''balance''], EpBalance),
      (''GET'', [Lit ''api'', Lit ''usage''], EpUsage),
      (''GET'', [Lit ''api'', Lit ''usage'', Lit ''models''], EpUsageModels),
      (''POST'', [Lit ''api'', Lit ''payment'', Lit ''webhook''], EpWebhook)]"

fun match_segments :: "segment list \<Rightarrow> string list \<Rightarrow> string option" where
  "match_segments [] [] = Some []"
| "match_segments (Lit l # ps) (x # xs) = (if l = x then match_segments ps xs else None)"
| "match_segments (Wild # ps) (x # xs) =
     (if x \<in> {[], ''.'', ''..''} then None else case match_segments ps xs of None \<Rightarrow> None | Some _ \<Rightarrow> Some x)"
| "match_segments _ _ = None"

fun match_routes :: "(string \<times> segment list \<times> endpoint) list \<Rightarrow> string \<Rightarrow> string list \<Rightarrow> (endpoint \<times> string) option" where
  "match_routes [] m xs = None"
| "match_routes ((pm, ps, ep) # rest) m xs =
     (if m = pm \<or> (pm = ''GET'' \<and> m = ''HEAD'') then
        (case match_segments ps xs of Some i \<Rightarrow> Some (ep, i) | None \<Rightarrow> match_routes rest m xs)
      else match_routes rest m xs)"

definition portal_route :: "request \<Rightarrow> (endpoint \<times> string) option" where
  "portal_route r =
     (case split_on (CHR ''/'') (rq_Path r) of
        [] # xs \<Rightarrow> match_routes portal_routes (rq_Method r) xs
      | _ \<Rightarrow> None)"

fun portal_endpoint :: "'c API \<Rightarrow> env \<Rightarrow> 'c portal \<Rightarrow> int option \<Rightarrow> request \<Rightarrow> endpoint \<times> string \<Rightarrow> 'c portal \<times> answer" where
  "portal_endpoint api e s ctx r (EpRegister, i) = register api e s r"
| "portal_endpoint api e s ctx r (EpLogin, i) = login api e s r"
| "portal_endpoint api e s ctx r (EpSetUserLimits, i) = setUserLimits api e s r i"
| "portal_endpoint api e s ctx r (EpSetUserProject, i) = setUserProject api e s r i"
| "portal_endpoint api e s ctx r (EpCreateProject, i) = createProject api e s r"
| "portal_endpoint api e s ctx r (EpSetProjectLimits, i) = setProjectLimits api e s r i"
| "portal_endpoint api e s ctx r (EpSetProjectTeam, i) = setProjectTeam api e s r i"
| "portal_endpoint api e s ctx r (EpTree, i) = orgTree api e s r"
| "portal_endpoint api e s ctx r (EpSetKeyLimits, i) = portal_setKeyLimits api e s r i"
| "portal_endpoint api e s ctx r (EpCreateOrg, i) = createOrg api e s r"
| "portal_endpoint api e s ctx r (EpSetOrgLimits, i) = setOrgLimits api e s r i"
| "portal_endpoint api e s ctx r (EpCreateTeam, i) = createTeam api e s r"
| "portal_endpoint api e s ctx r (EpSetTeamLimits, i) = setTeamLimits api e s r i"
| "portal_endpoint api e s ctx r (EpCreateKey, i) = createKey api e s ctx r"
| "portal_endpoint api e s ctx r (EpListKeys, i) = listKeys e s ctx r"
| "portal_endpoint api e s ctx r (EpRecharge, i) = recharge e s ctx r"
| "portal_endpoint api e s ctx r (EpPay, i) = payHandler api e s r"
| "portal_endpoint api e s ctx r (EpRechargeStatus, i) = rechargeStatus e s r"
| "portal_endpoint api e s ctx r (EpBalance, i) = balanceHandler api s ctx r"
| "portal_endpoint api e s ctx r (EpUsage, i) = usageHandler api s ctx r"
| "portal_endpoint api e s ctx r (EpUsageModels, i) = usageModelsHandler api s ctx r"
| "portal_endpoint api e s ctx r (EpWebhook, i) = portal_webhook api e s r"

text \<open>The two paths of single sign-on, for every method, then the table, then the static files.\<close>

definition portal_mux :: "'c API \<Rightarrow> env \<Rightarrow> 'c portal \<Rightarrow> int option \<Rightarrow> request \<Rightarrow> 'c portal \<times> answer" where
  "portal_mux api e s ctx r =
     (if ap_oidc api \<noteq> None \<and> rq_Path r \<in> {''/api/oidc/login'', ''/api/oidc/callback''} then
        (case oidc_ServeHTTP (the (ap_oidc api)) (en_now e) (en_bytes e) (en_sched e) (pt_auth s) (rq_Path r) (rq_Cookie r)
                (rq_Query r ''state'') (rq_Query r ''code'') of
           (db, cookie, a) \<Rightarrow> (s\<lparr>pt_auth := db\<rparr>, 200, POidc cookie a))
      else case portal_route r of
             Some m \<Rightarrow> portal_endpoint api e s ctx r m
           | None \<Rightarrow> if ap_webDir api then (s, 200, PStatic) else (s, 404, PEmpty))"

definition portal_authMiddleware ::
  "'c API \<Rightarrow> env \<Rightarrow> (int option \<Rightarrow> 'c portal \<times> answer) \<Rightarrow> 'c portal \<Rightarrow> request \<Rightarrow> 'c portal \<times> answer" where
  "portal_authMiddleware api e next s r =
     (if has_prefix ''/api/oidc/'' (rq_Path r) then next None
      else if \<not> has_prefix ''/api/'' (rq_Path r) then next None
      else if adminOnly api r then next None
      else
        let raw = TrimSpace (TrimPrefix ''Bearer '' (rq_Authorization r)) in
        case ap_jwt api of
          None \<Rightarrow> (s, 401, PError ''unauthorized'')
        | Some (J, secret) \<Rightarrow>
            if raw = [] then (s, 401, PError ''unauthorized'')
            else case Verify J secret (en_now e) raw of
                   Inl err \<Rightarrow> (s, 401, PError ''unauthorized'')
                 | Inr claims \<Rightarrow> next (Some (cl_UserID claims)))"

definition Portal_Handler :: "'c API \<Rightarrow> env \<Rightarrow> 'c portal \<Rightarrow> request \<Rightarrow> 'c portal \<times> answer" where
  "Portal_Handler api e s r = portal_authMiddleware api e (\<lambda>ctx. portal_mux api e s ctx r) s r"

section \<open>Who is asking\<close>

text \<open>The user of a session, as the middleware finds it.\<close>

definition session_user :: "'c API \<Rightarrow> env \<Rightarrow> request \<Rightarrow> int option" where
  "session_user api e r =
     (let raw = TrimSpace (TrimPrefix ''Bearer '' (rq_Authorization r)) in
      case ap_jwt api of
        None \<Rightarrow> None
      | Some (J, secret) \<Rightarrow>
          if raw = [] then None
          else case Verify J secret (en_now e) raw of Inl err \<Rightarrow> None | Inr claims \<Rightarrow> Some (cl_UserID claims))"

lemma split_on_nonempty [simp]: "split_on c s \<noteq> []"
  by (induction s) (auto split: list.split)

lemma split_on_join:
  "split_on c s = w # ws \<Longrightarrow> s = w @ concat (map (\<lambda>x. c # x) ws)"
proof (induction s arbitrary: w ws)
  case (Cons d s)
  obtain v vs where v: "split_on c s = v # vs" by (metis split_on_nonempty list.exhaust)
  have "s = v @ concat (map (\<lambda>x. c # x) vs)" by (rule Cons.IH [OF v])
  with Cons.prems v show ?case by (cases "d = c") auto
qed simp

lemma routes_under_api:
  assumes "match_routes portal_routes m xs = Some p"
  shows "\<exists>y ys. xs = ''api'' # y # ys \<and> y \<noteq> ''oidc''"
proof -
  have look: "\<exists>x\<in>set rs. match_segments (fst (snd x)) xs \<noteq> None" if "match_routes rs m xs = Some p" for rs
    using that by (induction rs m xs rule: match_routes.induct) (auto split: if_splits option.splits)
  have lit: "\<exists>y ys. xs = ''api'' # y # ys \<and> y \<noteq> ''oidc''"
    if "match_segments (Lit ''api'' # Lit l # ps) xs \<noteq> None" "l \<noteq> ''oidc''" for l ps
    using that by (cases xs; cases "tl xs") (auto split: if_splits)
  have "\<forall>x \<in> set portal_routes. \<exists>l ps'. fst (snd x) = Lit ''api'' # Lit l # ps' \<and> l \<noteq> ''oidc''"
    by (simp add: portal_routes_def)
  with look [OF assms] lit show ?thesis by metis
qed

text \<open>Every route of the table is behind the middleware's check.\<close>

lemma routed_path:
  assumes "portal_route r = Some m"
  shows "has_prefix ''/api/'' (rq_Path r) \<and> \<not> has_prefix ''/api/oidc/'' (rq_Path r)"
proof -
  obtain xs where xs: "split_on (CHR ''/'') (rq_Path r) = [] # xs" "match_routes portal_routes (rq_Method r) xs = Some m"
    using assms by (auto simp: portal_route_def split: list.splits)
  obtain y ys where y: "xs = ''api'' # y # ys" "y \<noteq> ''oidc''" using routes_under_api [OF xs(2)] by blast
  have path: "rq_Path r = ''/api/'' @ y @ concat (map (\<lambda>x. CHR ''/'' # x) ys)"
    using split_on_join [OF xs(1)] y(1) by simp
  have clean: "CHR ''/'' \<notin> set w" if "w \<in> set (split_on (CHR ''/'') s)" for w s
    using that by (induction s arbitrary: w) (auto split: if_splits list.splits)
  have "CHR ''/'' \<notin> set y" using clean [of y "rq_Path r"] xs(1) y(1) by simp
  then have "takeWhile (\<lambda>c. c \<noteq> CHR ''/'') (y @ concat (map (\<lambda>x. CHR ''/'' # x) ys)) = y"
    by (induction y) (cases ys, auto)
  then have "\<not> has_prefix ''oidc/'' (y @ concat (map (\<lambda>x. CHR ''/'' # x) ys))"
    using y(2) by (auto elim!: has_prefixE)
  then show ?thesis by (simp add: path has_prefix_def)
qed
lemma Portal_Handler_cases:
  "Portal_Handler api e s r =
     (if has_prefix ''/api/oidc/'' (rq_Path r) \<or> \<not> has_prefix ''/api/'' (rq_Path r) \<or> adminOnly api r then portal_mux api e s None r
      else case session_user api e r of
             None \<Rightarrow> (s, 401, PError ''unauthorized'') | Some uid \<Rightarrow> portal_mux api e s (Some uid) r)"
  by (auto simp: Portal_Handler_def portal_authMiddleware_def session_user_def Let_def split: option.split sum.split)

text \<open>Theorem: Nothing reaches the portal's data without credentials. A request that carries neither the administrator's
  key nor a valid session, on any path but those of single sign-on, changes neither database nor the wallet; on a
  path of the API its answer is 401 and holds no data. This covers registration, login and the payment webhook too.\<close>

theorem portal_needs_credentials:
  assumes "\<not> adminOnly api r" and "session_user api e r = None" and "\<not> has_prefix ''/api/oidc/'' (rq_Path r)"
  shows "fst (Portal_Handler api e s r) = s \<and>
    (has_prefix ''/api/'' (rq_Path r) \<longrightarrow> snd (Portal_Handler api e s r) = (401, PError ''unauthorized''))"
proof -
  have "portal_route r = None" if "\<not> has_prefix ''/api/'' (rq_Path r)"
    using routed_path [of r] that by (cases "portal_route r") auto
  moreover have "rq_Path r \<notin> {''/api/oidc/login'', ''/api/oidc/callback''}"
    using assms(3) by (auto simp: has_prefix_def)
  ultimately show ?thesis using assms by (auto simp: Portal_Handler_cases portal_mux_def)
qed

section \<open>What one request can do\<close>

text \<open>The effect of an administrator's handler is one statement of the account service, made with the key.\<close>

lemma reply_state: "fst (reply s failed ok r) = s\<lparr>pt_auth := fst r\<rparr>"
  by (cases r) (auto simp: reply_def split: sum.split)

lemma guarded_state: "\<not> adminOnly api r \<Longrightarrow> fst (guarded api r s k) = s"
  by (simp add: guarded_def)

definition admin_endpoint :: "endpoint \<Rightarrow> bool" where
  "admin_endpoint ep \<longleftrightarrow> ep \<in> {EpSetUserLimits, EpSetUserProject, EpCreateProject, EpSetProjectLimits, EpSetProjectTeam, EpTree,
     EpSetKeyLimits, EpCreateOrg, EpSetOrgLimits, EpCreateTeam, EpSetTeamLimits}"

lemmas admin_handler_defs =
  setUserLimits_def setUserProject_def createProject_def setProjectLimits_def setProjectTeam_def orgTree_def
  portal_setKeyLimits_def createOrg_def setOrgLimits_def createTeam_def setTeamLimits_def

lemma admin_endpoint_refused:
  "admin_endpoint ep \<Longrightarrow> \<not> adminOnly api r \<Longrightarrow> portal_endpoint api e s ctx r (ep, i) = (s, 401, PError ''admin key required'')"
  by (cases ep) (simp_all add: admin_endpoint_def admin_handler_defs guarded_def)

lemma with_id_state:
  assumes "\<And>n. P (fst (k n))" and "P s"
  shows "P (fst (with_id what i s k))"
  using assms by (simp add: with_id_def split: option.split)

lemma guarded_P: "P (fst k) \<Longrightarrow> P s \<Longrightarrow> P (fst (guarded api r s k))"
  by (simp add: guarded_def)

text \<open>Every handler either leaves the accounts as they were or sends one statement.\<close>

definition one_statement :: "'c API \<Rightarrow> authdb \<Rightarrow> authdb \<Rightarrow> bool" where
  "one_statement api db db' \<longleftrightarrow> db' = db \<or> (\<exists>f op. db' = auth_exec (ap_gen api) (ap_sha api) db (f, op))"

lemma one_statement_refl: "one_statement api db db"
  by (simp add: one_statement_def)

lemma one_statement_exec:
  "one_statement api db (fst (SetUserLimits f db u rpm tpm))"
  "one_statement api db (fst (SetUserProject f db u i))"
  "one_statement api db (fst (CreateProject f db n rpm tpm))"
  "one_statement api db (fst (SetProjectLimits f db u rpm tpm))"
  "one_statement api db (fst (SetProjectTeam f db u i))"
  "one_statement api db (fst (SetKeyLimits f db u l))"
  "one_statement api db (fst (CreateOrg f db n rpm tpm))"
  "one_statement api db (fst (SetOrgLimits f db u rpm tpm))"
  "one_statement api db (fst (CreateTeam f db n i rpm tpm))"
  "one_statement api db (fst (SetTeamLimits f db u rpm tpm))"
  "one_statement api db (fst (Register (ap_gen api) f db n pw))"
  "one_statement api db (fst (CreateKey (ap_sha api) raw f db u n l))"
  unfolding one_statement_def by (metis auth_exec.simps)+

lemma endpoint_auth_effect:
  "one_statement api (pt_auth s) (pt_auth (fst (portal_endpoint api e s ctx r m)))"
proof (cases m)
  case (Pair ep i)
  let ?P = "\<lambda>s'. one_statement api (pt_auth s) (pt_auth s')"
  have inv: "?P (fst (invalid_body s))" by (simp add: one_statement_refl)
  show ?thesis
  proof (cases "admin_endpoint ep")
    case True
    then show ?thesis unfolding Pair
      by (cases ep) (auto simp: admin_endpoint_def admin_handler_defs Let_def reply_state one_statement_refl one_statement_exec
          intro!: guarded_P [of ?P] with_id_state [of ?P] split: sum.split)
  next
    case False
    have reg: "?P (fst (register api e s r))"
      using one_statement_exec(11) [of api "pt_auth s" "en_fault e"]
      by (auto simp: register_def Let_def one_statement_refl split: prod.split sum.split) (metis fst_conv)+
    have key: "?P (fst (createKey api e s ctx r))"
      using one_statement_exec(12) [of api "pt_auth s" "en_rand e" "en_fault e"]
      by (auto simp: createKey_def one_statement_refl split: prod.split sum.split option.split) (metis fst_conv)+
    from False reg key show ?thesis unfolding Pair
      by (cases ep) (auto simp: admin_endpoint_def login_def listKeys_def recharge_def payHandler_def rechargeStatus_def balanceHandler_def
          usageHandler_def usageModelsHandler_def portal_webhook_def Let_def one_statement_refl split: prod.split sum.split option.split)
  qed
qed
section \<open>Policy\<close>

text \<open>What only an administrator may change: the hierarchy, the quotas, the place of a user in it.\<close>

definition policy_kept :: "authdb \<Rightarrow> authdb \<Rightarrow> bool" where
  "policy_kept db db' \<longleftrightarrow> ad_orgs db' = ad_orgs db \<and> ad_teams db' = ad_teams db \<and> ad_projects db' = ad_projects db \<and>
     (\<exists>us. ad_users db' = ad_users db @ us \<and> (\<forall>u\<in>set us. us_RPM u = 0 \<and> us_TPM u = 0 \<and> us_ProjectID u = None)) \<and>
     (\<exists>ks. ad_keys db' = ad_keys db @ ks)"

lemma policy_kept_refl [simp]: "policy_kept db db"
  by (simp add: policy_kept_def)

lemma policy_kept_trans: "policy_kept a b \<Longrightarrow> policy_kept b c \<Longrightarrow> policy_kept a c"
  by (auto simp: policy_kept_def)

lemma policy_kept_service: "policy_kept db (fst r) \<Longrightarrow> policy_kept db (fst (call_service f db r))"
  by (cases f) simp_all

lemma policy_kept_ops:
  "policy_kept db (fst (Register gen f db n pw))"
  "policy_kept db (fst (CreateKey sha raw f db u name l))"
  "policy_kept db (fst (linkSubject f db subject u))"
  by (auto simp: Register_def CreateKey_def linkSubject_def Let_def intro!: policy_kept_service split: option.split)
    (auto simp: policy_kept_def)

lemma resolveUser_P:
  assumes "\<And>f n pw. P (fst (Register gen f db n pw))"
    and "\<And>f db' u. P db' \<Longrightarrow> P (fst (linkSubject f db' subject u))" and "P db"
  shows "P (fst (resolveUser cfg gen raw fs db subject username))"
proof -
  obtain f1 fs1 f2 fs2 f3 fs3 where fs: "pop_fault fs = (f1, fs1)" "pop_fault fs1 = (f2, fs2)" "pop_fault fs2 = (f3, fs3)"
    by (meson surj_pair)
  obtain db1 res where reg: "Register gen f2 db username (randomPassword raw) = (db1, res)" by fastforce
  have "P db1" using assms(1) [of f2 username "randomPassword raw"] reg by simp
  with assms(2) [of db1 f3] assms(3) show ?thesis
    by (auto simp: resolveUser_def fs reg Let_def split: option.split sum.split prod.split) (metis fst_conv)+
qed

lemma oidc_P:
  assumes "\<And>f n pw. P (fst (Register (od_gen oc) f db n pw))"
    and "\<And>f db' subject u. P db' \<Longrightarrow> P (fst (linkSubject f db' subject u))" and "P db"
  shows "P (fst (oidc_ServeHTTP oc now raw fs db path cookie state code))"
proof -
  have "P (fst (Callback oc now raw fs db code))"
    using resolveUser_P [of P "od_gen oc" db _ "od_cfg oc" raw fs, OF assms(1) assms(2) assms(3)] assms(3)
    by (auto simp: Callback_def Let_def split: option.split sum.split prod.split) (metis fst_conv)+
  then have "P (fst (handleCallback oc now raw fs db cookie state code))"
    using assms(3) by (auto simp: handleCallback_def split: option.split sum.split prod.split)
  with assms(3) show ?thesis
    by (auto simp: oidc_ServeHTTP_def split: prod.split)
qed

text \<open>A property of both databases holds after a request if it holds after single sign-on and after every handler.\<close>

lemma Portal_Handler_P:
  assumes "\<And>oc now raw fs path cookie state code. ap_oidc api = Some oc \<Longrightarrow>
      P (s\<lparr>pt_auth := fst (oidc_ServeHTTP oc now raw fs (pt_auth s) path cookie state code)\<rparr>)"
    and "\<And>ctx m. portal_route r = Some m \<Longrightarrow> adminOnly api r \<and> ctx = None \<or> session_user api e r = ctx \<and> ctx \<noteq> None \<Longrightarrow>
      P (fst (portal_endpoint api e s ctx r m))"
    and "P s"
  shows "P (fst (Portal_Handler api e s r))"
proof -
  have mux: "P (fst (portal_mux api e s ctx r))"
    if "portal_route r \<noteq> None \<Longrightarrow> adminOnly api r \<and> ctx = None \<or> session_user api e r = ctx \<and> ctx \<noteq> None" for ctx
    using assms(1) assms(2) [of _ ctx] assms(3) that
    by (auto simp: portal_mux_def split: prod.split option.split) (metis fst_conv)+
  show ?thesis
    using mux [of None] mux [of "session_user api e r"] routed_path [of r] assms(3)
    by (auto simp: Portal_Handler_cases split: option.split)
qed

lemma endpoint_policy:
  assumes "\<not> adminOnly api r"
  shows "policy_kept (pt_auth s) (pt_auth (fst (portal_endpoint api e s ctx r m)))"
proof (cases m)
  case (Pair ep i)
  have reg: "policy_kept (pt_auth s) (pt_auth (fst (register api e s r)))"
    using policy_kept_ops(1) [of "pt_auth s" "ap_gen api" "en_fault e"]
    by (auto simp: register_def Let_def split: prod.split sum.split) (metis fst_conv)+
  have key: "policy_kept (pt_auth s) (pt_auth (fst (createKey api e s ctx r)))"
    using policy_kept_ops(2) [of "pt_auth s" "ap_sha api" "en_rand e" "en_fault e"]
    by (auto simp: createKey_def split: prod.split sum.split option.split) (metis fst_conv)+
  show ?thesis
  proof (cases "admin_endpoint ep")
    case False
    with reg key show ?thesis unfolding Pair
      by (cases ep) (auto simp: admin_endpoint_def login_def listKeys_def recharge_def payHandler_def rechargeStatus_def balanceHandler_def
          usageHandler_def usageModelsHandler_def portal_webhook_def Let_def split: prod.split sum.split option.split)
  qed (simp add: Pair admin_endpoint_refused assms)
qed

definition portal_run :: "'c API \<Rightarrow> 'c portal \<Rightarrow> (env \<times> request) list \<Rightarrow> 'c portal" where
  "portal_run api s rs = foldl (\<lambda>s (e, r). fst (Portal_Handler api e s r)) s rs"

lemma portal_run_P:
  assumes "P s" and "\<And>s e r. (e, r) \<in> set rs \<Longrightarrow> P s \<Longrightarrow> P (fst (Portal_Handler api e s r))"
  shows "P (portal_run api s rs)"
  using assms
proof (induction rs arbitrary: s)
  case (Cons x rs)
  then show ?case by (cases x) (simp add: portal_run_def)
qed (simp add: portal_run_def)

text \<open>Theorem: Platform policy needs the administrator's key. Whatever requests arrive without it, from sessions, from
  single sign-on or from nobody, organisations, teams, projects, the quotas and project of every existing user and
  every existing key stay exactly as they are; new users start without a quota of their own and in no project.\<close>

theorem policy_needs_admin_key:
  fixes api :: "'a API"
  assumes "\<forall>(e, r)\<in>set rs. \<not> adminOnly api r"
  shows "policy_kept (pt_auth s) (pt_auth (portal_run api s rs))"
proof (rule portal_run_P [where P = "\<lambda>x. policy_kept (pt_auth s) (pt_auth x)"])
  fix x :: "'a portal" and e r
  assume r: "(e, r) \<in> set rs" and x: "policy_kept (pt_auth s) (pt_auth x)"
  have sso: "policy_kept (pt_auth x) (fst (oidc_ServeHTTP oc now raw fs (pt_auth x) path cookie state code))"
    for oc :: "string oidc" and now raw fs path cookie state code
    by (rule oidc_P) (auto intro: policy_kept_ops policy_kept_trans)
  have "policy_kept (pt_auth x) (pt_auth (fst (Portal_Handler api e x r)))"
    by (rule Portal_Handler_P [where P = "\<lambda>y. policy_kept (pt_auth x) (pt_auth y)"]) (use r assms sso in \<open>auto intro: endpoint_policy\<close>)
  with x show "policy_kept (pt_auth s) (pt_auth (fst (Portal_Handler api e x r)))" by (rule policy_kept_trans)
qed simp

section \<open>Histories of requests\<close>

lemma auth_ok_link: "auth_ok db \<Longrightarrow> auth_ok (fst (linkSubject f db subject u))"
  by (auto simp: linkSubject_def intro!: auth_ok_service) (auto simp: auth_ok_def dest: find_present)

lemma auth_ok_statement: "one_statement api db db' \<Longrightarrow> auth_ok db \<Longrightarrow> auth_ok db'"
  by (auto simp: one_statement_def intro: auth_ok_exec)

definition users_grow :: "authdb \<Rightarrow> authdb \<Rightarrow> bool" where
  "users_grow db db' \<longleftrightarrow> (\<exists>ids. map us_ID (ad_users db') = map us_ID (ad_users db) @ ids)"

lemma users_grow_exec: "users_grow db (auth_exec gen sha db (f, op))"
proof -
  have service: "users_grow db (fst r) \<Longrightarrow> users_grow db (fst (call_service g db r))"
    for r :: "authdb \<times> (go_error + 'x)" and g by (cases g) (auto simp: users_grow_def)
  show ?thesis
    by (cases op) (auto simp: auth_op_defs Register_def CreateKey_def Resolve_def Let_def intro!: service split: option.split sum.split,
        auto simp: users_grow_def update_where_field)
qed

lemma users_grow_keep: "users_grow db db' \<Longrightarrow> find_user db u \<noteq> None \<Longrightarrow> find_user db' u \<noteq> None"
  by (auto simp: users_grow_def find_missing simp del: set_map)

lemma users_grow_trans: "users_grow a b \<Longrightarrow> users_grow b c \<Longrightarrow> users_grow a c"
  by (auto simp: users_grow_def)

lemma users_grow_statement: "one_statement api db db' \<Longrightarrow> users_grow db db'"
  by (auto simp: one_statement_def intro: users_grow_exec) (simp add: users_grow_def)

lemma users_grow_link: "users_grow db (fst (linkSubject f db subject u))"
  by (cases f) (auto simp: linkSubject_def users_grow_def)

text \<open>Both databases at once: consistent accounts, consistent payments, and every recharge belongs to a user.\<close>

definition portal_ok :: "int \<Rightarrow> (int \<times> int) list portal \<Rightarrow> bool" where
  "portal_ok u s \<longleftrightarrow> auth_ok (pt_auth s) \<and> pay_ok (pt_pay s) \<and> credited_to u (pt_wallet s) \<le> paid_sum u (pt_pay s) \<and>
     (\<forall>g\<in>set (pay_recharges (pt_pay s)). find_user (pt_auth s) (rg_user g) \<noteq> None)"

text \<open>What a payment never changes of the recharges.\<close>

definition recharge_rows :: "paydb \<Rightarrow> (int \<times> int \<times> int \<times> string) list" where
  "recharge_rows db = map (\<lambda>g. (rg_id g, rg_user g, rg_amount g, rg_key g)) (pay_recharges db)"

lemma recharge_users: "rg_user ` set (pay_recharges db) = (\<lambda>x. fst (snd x)) ` set (recharge_rows db)"
  by (force simp: recharge_rows_def)

lemma SettleCallback_rows: "recharge_rows (fst (fst (SettleCallback topUp fs s i ch t a raw))) = recharge_rows (fst s)"
proof -
  obtain db c where s: "s = (db, c)" by fastforce
  obtain f0 fs0 f1 fs1 f2 fs2 f3 fs3 f4 fs4 where fs: "pop_fault fs = (f0, fs0)" "pop_fault fs0 = (f1, fs1)"
    "pop_fault fs1 = (f2, fs2)" "pop_fault fs2 = (f3, fs3)" "pop_fault fs3 = (f4, fs4)" by (meson surj_pair)
  show ?thesis
    by (cases f4) (auto simp: s SettleCallback_def fs Let_def insert_payment_def mark_paid_def recharge_rows_def
        split: if_splits option.split sum.split prod.split)
qed

lemma Pay_state:
  "fst (Pay chans topUp fs s i ch) = s \<or> (\<exists>fs' t a raw. fst (Pay chans topUp fs s i ch) = fst (SettleCallback topUp fs' s i ch t a raw))"
proof -
  obtain f fs' where fs: "pop_fault fs = (f, fs')" by fastforce
  have "fst (case SettleCallback topUp fs' s i ch t a raw of (s', Inl e) \<Rightarrow> (s', Inl e) | (s', Inr _) \<Rightarrow> (s', Inr txn)) =
      fst (SettleCallback topUp fs' s i ch t a raw)" for t a raw and txn :: string
    by (auto split: prod.split sum.split)
  then show ?thesis
    by (simp add: Pay_def fs Let_def split: option.split sum.split) metis
qed

lemma Pay_rows: "recharge_rows (fst (fst (Pay chans topUp fs s i ch))) = recharge_rows (fst s)"
  using Pay_state [of chans topUp fs s i ch] SettleCallback_rows [of topUp _ s i ch] by fastforce

text \<open>What a handler does to the payments: one recharge of the request's user, one payment, one settlement, or nothing.\<close>

definition pay_effect :: "'c API \<Rightarrow> 'c portal \<Rightarrow> int option \<Rightarrow> paydb \<times> 'c \<Rightarrow> bool" where
  "pay_effect api s user p' \<longleftrightarrow> p' = (pt_pay s, pt_wallet s) \<or>
     (\<exists>gen f v a key. user = Some v \<and>
        p' = (fst (Recharge (\<lambda>u. find_user (pt_auth s) u \<noteq> None) gen f (pt_pay s) v a key), pt_wallet s)) \<or>
     (\<exists>fs i ch. p' = fst (Pay (ap_chans api) (ap_topUp api) fs (pt_pay s, pt_wallet s) i ch)) \<or>
     (\<exists>fs ch t. p' = fst (SettleByTxn (ap_topUp api) fs (pt_pay s, pt_wallet s) ch t))"

lemma webhook_state:
  "fst (webhookHandler mac stripe parse topUp fs p channel payload sig) = p \<or>
   (\<exists>ch t. fst (webhookHandler mac stripe parse topUp fs p channel payload sig) = fst (SettleByTxn topUp fs p ch t))"
proof -
  have "fst (case SettleByTxn topUp fs p ch t of (s', Inl e) \<Rightarrow> (s', 400 :: int) | (s', Inr _) \<Rightarrow> (s', 200)) = fst (SettleByTxn topUp fs p ch t)"
    for ch t by (auto split: prod.split sum.split)
  then show ?thesis by (simp add: webhookHandler_def Let_def split: option.split) metis
qed

lemma endpoint_pay_effect:
  assumes "s' = fst (portal_endpoint api e s ctx r m)"
  shows "pay_effect api s (userFromRequest ctx r) (pt_pay s', pt_wallet s')"
proof (cases m)
  case (Pair ep i)
  let ?p = "(pt_pay s, pt_wallet s)" and ?P = "\<lambda>s'. pay_effect api s (userFromRequest ctx r) (pt_pay s', pt_wallet s')"
  have same: "?P x" if "pt_pay x = pt_pay s" "pt_wallet x = pt_wallet s" for x
    using that by (simp add: pay_effect_def)
  have rech: "?P (fst (recharge e s ctx r))"
    by (auto simp: recharge_def Let_def pay_effect_def split: option.split prod.split sum.split) (metis fst_conv)+
  have pay: "?P (fst (payHandler api e s r))"
  proof -
    have "pt_pay (fst (payHandler api e s r)) = pt_pay s \<and> pt_wallet (fst (payHandler api e s r)) = pt_wallet s \<or>
        (\<exists>fs i ch. (pt_pay (fst (payHandler api e s r)), pt_wallet (fst (payHandler api e s r))) = fst (Pay (ap_chans api) (ap_topUp api) fs ?p i ch))"
      by (auto simp: payHandler_def Let_def split: prod.split sum.split) (metis fst_conv)+
    then show ?thesis by (auto simp: pay_effect_def)
  qed
  have hook: "?P (fst (portal_webhook api e s r))"
  proof -
    obtain db c code where w: "webhookHandler (ap_mac api) (ap_stripe api) (ap_parse api) (ap_topUp api) (en_sched e) ?p
        (rq_Query r ''channel'') (take 1048576 (rq_Payload r)) (rq_Signature r) = ((db, c), code)" by (metis prod.exhaust)
    have "(db, c) = ?p \<or> (\<exists>ch t. (db, c) = fst (SettleByTxn (ap_topUp api) (en_sched e) ?p ch t))"
      using webhook_state [of "ap_mac api" "ap_stripe api" "ap_parse api" "ap_topUp api" "en_sched e" ?p "rq_Query r ''channel''"
          "take 1048576 (rq_Payload r)" "rq_Signature r"] w by simp
    then have "pay_effect api s (userFromRequest ctx r) (db, c)" unfolding pay_effect_def by blast
    then show ?thesis by (simp add: portal_webhook_def w)
  qed
  show ?thesis
  proof (cases "admin_endpoint ep")
    case True
    then show ?thesis unfolding assms Pair
      by (cases ep) (auto simp: admin_endpoint_def admin_handler_defs Let_def reply_state same
          intro!: guarded_P [of ?P] with_id_state [of ?P] split: sum.split)
  next
    case False
    with rech pay hook show ?thesis unfolding assms Pair
      by (cases ep) (auto simp: admin_endpoint_def register_def login_def createKey_def listKeys_def rechargeStatus_def balanceHandler_def
          usageHandler_def usageModelsHandler_def Let_def same split: prod.split sum.split option.split)
  qed
qed

lemma Recharge_rows:
  "recharge_rows (fst (Recharge known gen f db v a key)) = recharge_rows db \<or>
   (\<exists>x. recharge_rows (fst (Recharge known gen f db v a key)) = recharge_rows db @ [x] \<and> fst (snd x) = v \<and> known v)"
  by (cases f) (auto simp: Recharge_def Let_def recharge_rows_def split: option.split)

lemma SettleByTxn_rows: "recharge_rows (fst (fst (SettleByTxn topUp fs s ch t))) = recharge_rows (fst s)"
proof -
  obtain f fs' where fs: "pop_fault fs = (f, fs')" by fastforce
  show ?thesis
    using SettleCallback_rows [of topUp fs' s _ ch t 0] by (auto simp: SettleByTxn_def fs Let_def split: option.split sum.split)
qed

text \<open>A request adds at most recharges of its own user.\<close>

lemma pay_effect_rows:
  assumes "pay_effect api s user p'"
  shows "\<exists>xs. recharge_rows (fst p') = recharge_rows (pt_pay s) @ xs \<and>
    (\<forall>x\<in>set xs. user = Some (fst (snd x)) \<and> find_user (pt_auth s) (fst (snd x)) \<noteq> None)"
proof -
  let ?p = "(pt_pay s, pt_wallet s)" and ?known = "\<lambda>u. find_user (pt_auth s) u \<noteq> None"
  consider "recharge_rows (fst p') = recharge_rows (pt_pay s)"
    | gen f v a key where "user = Some v" "fst p' = fst (Recharge ?known gen f (pt_pay s) v a key)"
    using assms Pay_rows [of "ap_chans api" "ap_topUp api" _ ?p] SettleByTxn_rows [of "ap_topUp api" _ ?p]
    unfolding pay_effect_def by (metis fst_conv)
  then show ?thesis
  proof cases
    case 2
    then show ?thesis using Recharge_rows [of ?known gen f "pt_pay s" v a key] by auto
  qed simp
qed

lemma pay_effect_keeps:
  assumes "pay_effect api s user p'" and "ap_topUp api = record_topUp ans" and "portal_ok u s"
  shows "pay_ok (fst p') \<and> credited_to u (snd p') \<le> paid_sum u (fst p') \<and>
    (\<forall>g\<in>set (pay_recharges (fst p')). find_user (pt_auth s) (rg_user g) \<noteq> None)"
proof -
  let ?p = "(pt_pay s, pt_wallet s)"
  have rows: "\<forall>g\<in>set (pay_recharges (fst p')). find_user (pt_auth s) (rg_user g) \<noteq> None"
  proof
    fix g
    assume "g \<in> set (pay_recharges (fst p'))"
    then have "rg_user g \<in> (\<lambda>x. fst (snd x)) ` set (recharge_rows (fst p'))" by (simp add: recharge_users [symmetric])
    with pay_effect_rows [OF assms(1)] have "rg_user g \<in> rg_user ` set (pay_recharges (pt_pay s)) \<or> find_user (pt_auth s) (rg_user g) \<noteq> None"
      by (force simp: recharge_users)
    with assms(3) show "find_user (pt_auth s) (rg_user g) \<noteq> None" by (auto simp: portal_ok_def)
  qed
  have "p' = ?p \<or> (\<exists>op. p' = pay_exec ans ?p op)"
  proof -
    have "pay_exec ans ?p (OpRecharge k g f v a i) = (fst (Recharge k g f (pt_pay s) v a i), pt_wallet s)"
      "pay_exec ans ?p (OpPay c fs i2 ch) = fst (Pay c (record_topUp ans) fs ?p i2 ch)"
      "pay_exec ans ?p (OpSettleByTxn fs ch t) = fst (SettleByTxn (record_topUp ans) fs ?p ch t)" for k g f v a i c fs i2 ch t
      by (simp_all add: pay_exec_def)
    then show ?thesis using assms(1,2) unfolding pay_effect_def by metis
  qed
  then have "pay_ok (fst p') \<and> credited_to u (snd p') \<le> paid_sum u (fst p')"
  proof
    assume "\<exists>op. p' = pay_exec ans ?p op"
    then obtain x where x: "p' = pay_exec ans ?p x" by blast
    from assms(3) pay_exec_credit [of ?p ans x u] show ?thesis by (simp add: x portal_ok_def)
  qed (use assms(3) in \<open>simp add: portal_ok_def\<close>)
  with rows show ?thesis by simp
qed

text \<open>C17: The portal keeps both databases consistent. After any requests, from anybody, with any outcomes of the
  database calls, ids, names, key hashes and idempotency keys are unique, every reference leads to a row, every
  recharge belongs to an existing user, and no user has been credited more than the paid recharges.\<close>

theorem portal_histories_are_consistent:
  fixes api :: "(int \<times> int) list API"
  assumes "portal_ok u s" and "ap_topUp api = record_topUp ans"
  shows "portal_ok u (portal_run api s rs)"
proof (rule portal_run_P [where P = "portal_ok u"])
  fix x :: "(int \<times> int) list portal" and e r
  assume x: "portal_ok u x"
  have step: "portal_ok u y" if "auth_ok (pt_auth y)" "users_grow (pt_auth x) (pt_auth y)" "pay_effect api x user (pt_pay y, pt_wallet y)" for y user
    using that pay_effect_keeps [OF that(3) assms(2) x] users_grow_keep [OF that(2)] by (fastforce simp: portal_ok_def)
  show "portal_ok u (fst (Portal_Handler api e x r))"
  proof (rule Portal_Handler_P)
    fix oc :: "string oidc" and now raw fs path cookie state code
    let ?db = "fst (oidc_ServeHTTP oc now raw fs (pt_auth x) path cookie state code)"
    have "auth_ok ?db"
      by (rule oidc_P) (use x auth_ok_exec [of "pt_auth x" "od_gen oc" id _ "OpRegister n pw" for n pw] auth_ok_link in \<open>auto simp: portal_ok_def\<close>)
    moreover have "users_grow (pt_auth x) ?db"
      by (rule oidc_P) (use users_grow_exec [of "pt_auth x" "od_gen oc" id _ "OpRegister n pw" for n pw] users_grow_link users_grow_trans
          in \<open>auto simp: users_grow_def\<close>)
    ultimately show "portal_ok u (x\<lparr>pt_auth := ?db\<rparr>)" by (intro step) (simp_all add: pay_effect_def)
  next
    fix ctx m
    let ?y = "fst (portal_endpoint api e x ctx r m)"
    have "one_statement api (pt_auth x) (pt_auth ?y)" by (rule endpoint_auth_effect)
    then show "portal_ok u ?y"
      using x endpoint_pay_effect [of ?y api e x ctx r m] by (intro step) (auto intro: users_grow_statement auth_ok_statement simp: portal_ok_def)
  qed (rule x)
qed (rule assms(1))
section \<open>Sessions\<close>

lemma CreateKey_rows:
  "\<exists>ks. ad_keys (fst (CreateKey sha raw f db u name l)) = ad_keys db @ ks \<and> (\<forall>k\<in>set ks. ak_UserID k = u)"
  by (cases f) (auto simp: CreateKey_def Let_def split: option.split)

lemma Register_keys: "ad_keys (fst (Register gen f db n pw)) = ad_keys db"
  by (cases f) (auto simp: Register_def Let_def split: option.split)

lemma linkSubject_keys: "ad_keys (fst (linkSubject f db subject u)) = ad_keys db"
  by (cases f) (auto simp: linkSubject_def)

text \<open>What an answer tells about a user.\<close>

fun concerns :: "int \<Rightarrow> payload \<Rightarrow> bool" where
  "concerns uid (PKeys ks) \<longleftrightarrow> (\<forall>k\<in>set ks. key_UserID k = uid)"
| "concerns uid (PBalance v b) \<longleftrightarrow> v = uid"
| "concerns uid (PUsage v d rows) \<longleftrightarrow> v = uid"
| "concerns uid (PModels v d rows a b c) \<longleftrightarrow> v = uid"
| "concerns uid (PTree t) \<longleftrightarrow> False"
| "concerns uid _ \<longleftrightarrow> True"

lemma ListKeys_owner: "ListKeys f db uid = Inr ks \<Longrightarrow> \<forall>k\<in>set ks. key_UserID k = uid"
  by (cases f) (auto simp: ListKeys_def query_def key_of_row_def)

lemma session_endpoint:
  assumes "\<not> adminOnly api r" and "portal_endpoint api e s (Some uid) r m = (s', code, p)"
  shows "concerns uid p \<and> (\<exists>ks. ad_keys (pt_auth s') = ad_keys (pt_auth s) @ ks \<and> (\<forall>k\<in>set ks. ak_UserID k = uid))"
proof (cases m)
  case (Pair ep i)
  have user: "userFromRequest (Some uid) r = Some uid" by (simp add: userFromRequest_def)
  show ?thesis
  proof (cases "admin_endpoint ep")
    case True
    then show ?thesis using assms by (auto simp: Pair admin_endpoint_refused)
  next
    case False
    have reg: "register api e s r = (s', code, p) \<Longrightarrow> ?thesis"
      using Register_keys [of "ap_gen api" "en_fault e" "pt_auth s" "TrimSpace (bd_Username (rq_Body r))" "bd_Password (rq_Body r)"]
      by (auto simp: register_def Let_def split: if_splits prod.splits sum.splits)
    have key: "createKey api e s (Some uid) r = (s', code, p) \<Longrightarrow> ?thesis"
      using CreateKey_rows [of "ap_sha api" "en_rand e" "en_fault e" "pt_auth s" uid "bd_Name (rq_Body r)" "bd_Limits (rq_Body r)"]
      by (auto simp: createKey_def user split: prod.splits sum.splits)
    have keys: "listKeys e s (Some uid) r = (s', code, p) \<Longrightarrow> ?thesis"
      by (auto simp: listKeys_def user dest: ListKeys_owner split: sum.splits)
    from False assms(2) reg key keys show ?thesis
      by (cases ep) (auto simp: Pair admin_endpoint_def login_def recharge_def payHandler_def rechargeStatus_def balanceHandler_def
          usageHandler_def usageModelsHandler_def portal_webhook_def Let_def user split: if_splits prod.splits sum.splits option.splits)
  qed
qed

section \<open>From a login to a working key\<close>

text \<open>What is relied on of the token library for one token: it parses back, and is a word without blanks around it.\<close>

definition issues :: "string jwt_lib \<Rightarrow> string \<Rightarrow> Claims \<Rightarrow> bool" where
  "issues J secret c \<longleftrightarrow> js_parse J secret (js_sign J secret c) = Some (True, c) \<and> js_sign J secret c \<noteq> [] \<and>
     TrimSpace (js_sign J secret c) = js_sign J secret c"

lemma session_of_token:
  assumes "issues J secret (the_claims now uid name)" and "ap_jwt api = Some (J, secret)"
    and "rq_Authorization r = ''Bearer '' @ Sign J secret now uid name" and "en_now e < NewNumericDate (now + jwtTTL)"
  shows "session_user api e r = Some uid"
  using assms by (simp add: session_user_def issues_def Sign_def the_claims_def Verify_def claims_valid_def TrimPrefix_def has_prefix_def Let_def)

text \<open>The requests of the story; fields the handlers do not read are empty.\<close>

definition empty_body :: body where
  "empty_body = \<lparr>bd_err = False, bd_Username = [], bd_Password = [], bd_Name = [], bd_Limits = quota 0 0, bd_ProjectID = 0, bd_TeamID = 0,
     bd_OrgID = 0, bd_AmountMicros = 0, bd_IdempotencyKey = [], bd_RechargeID = 0, bd_Channel = []\<rparr>"

definition portal_call :: "string \<Rightarrow> string \<Rightarrow> string \<Rightarrow> body \<Rightarrow> request" where
  "portal_call method path auth b = \<lparr>rq_Method = method, rq_Path = path, rq_Authorization = auth, rq_UserHeader = [], rq_Signature = [],
     rq_Query = (\<lambda>_. []), rq_Cookie = None, rq_Payload = [], rq_Body = b\<rparr>"

lemma call_routes:
  "portal_route (portal_call ''POST'' ''/api/login'' auth b) = Some (EpLogin, [])"
  "portal_route (portal_call ''POST'' ''/api/register'' auth b) = Some (EpRegister, [])"
  "portal_route (portal_call ''POST'' ''/api/keys'' auth b) = Some (EpCreateKey, [])"
  "portal_route (portal_call ''POST'' ''/api/recharge'' auth b) = Some (EpRecharge, [])"
  "portal_route (portal_call ''POST'' ''/api/recharge/pay'' auth b) = Some (EpPay, [])"
  by (simp_all add: portal_route_def portal_routes_def portal_call_def)

lemma routed_request:
  assumes "portal_route r = Some m"
  shows "adminOnly api r \<Longrightarrow> Portal_Handler api e s r = portal_endpoint api e s None r m"
    and "\<not> adminOnly api r \<Longrightarrow> session_user api e r = Some uid \<Longrightarrow> Portal_Handler api e s r = portal_endpoint api e s (Some uid) r m"
  using routed_path [OF assms] assms by (auto simp: Portal_Handler_cases portal_mux_def has_prefix_def)

lemma CreateKey_resolves:
  assumes "find_user db uid \<noteq> None" and "find_key db (keyHash sha (''sk-'' @ hex_encode raw)) = None"
    and "in32 (lm_RPM l)" and "in32 (lm_Concurrency l)"
  shows "\<exists>db'. CreateKey sha (Some raw) NoFault db uid name l = (db', Inr (''sk-'' @ hex_encode raw)) \<and>
    snd (Resolve sha now NoFault f db' (''sk-'' @ hex_encode raw)) = Inr uid"
  using assms by (auto simp: CreateKey_def Let_def Resolve_def query_def row_or_none_def find_key_def find_snoc)


text \<open>Theorem: Any session can have any recharge credited without paying. With the mock channel registered, as the server
  always does, a payment request of any user that names no channel marks the pending recharge of any owner as paid and
  credits its amount.\<close>

theorem mock_channel_gives_money_away:
  assumes "pay_ok (pt_pay s)" and "find_recharge (pt_pay s) i = Some g" and "rg_status g = ''PENDING''" and "0 < i"
    and "ap_chans api ''mock'' = Some (\<lambda>_ _. Inr txn)" and "\<forall>p\<in>set (pay_payments (pt_pay s)). py_txn p \<noteq> txn"
    and "ap_topUp api = record_topUp (\<lambda>_ _ _. Inr ())" and "en_sched e = []"
    and "r = portal_call ''POST'' ''/api/recharge/pay'' auth (empty_body\<lparr>bd_RechargeID := i\<rparr>)" and "\<not> adminOnly api r" and "session_user api e r = Some uid"
  shows "\<exists>s'. Portal_Handler api e s r = (s', 200, PTxn txn ''PAID'') \<and> pt_wallet s' = pt_wallet s @ [(rg_user g, rg_amount g)]"
proof -
  have g: "g \<in> set (pay_recharges (pt_pay s))" "rg_id g = i" using find_recharge_ids [OF assms(2)] by simp_all
  let ?db = "pt_pay s"
  have dup: "\<not> list_ex (\<lambda>q. py_channel q = ''mock'' \<and> py_txn q = txn) (pay_payments ?db)" using assms(6) by (auto simp: list_ex_iff)
  have pend: "list_ex (\<lambda>r. rg_id r = i \<and> rg_status r = ''PENDING'') (pay_recharges ?db)" using g assms(3) by (auto simp: list_ex_iff)
  have paid: "find_recharge (mark_paid (?db\<lparr>pay_payments := ps\<rparr>) i) i = Some (g\<lparr>rg_status := ''PAID''\<rparr>)" for ps
    using assms(2,3) by (simp add: find_recharge_def mark_paid_def find_map_paid)
  have route: "portal_route r = Some (EpPay, [])" unfolding assms(9) by (rule call_routes)
  show ?thesis
    unfolding routed_request(2) [OF route assms(10,11)]
    using assms(2-5,7,8) dup pend paid unfolding assms(9)
    by (simp add: payHandler_def portal_call_def empty_body_def Pay_def query_recharge_def SettleCallback_def insert_payment_def record_topUp_def Let_def)
qed
section \<open>A concrete portal\<close>

text \<open>A token library for the witnesses: one secret, one token per user.\<close>

definition demo_jwt :: "string jwt_lib" where
  "demo_jwt = \<lparr>js_sign = (\<lambda>secret c. ''tok-'' @ fmtInt (cl_UserID c)),
     js_parse = (\<lambda>secret t. if t = ''tok-1'' then Some (True, the_claims 0 1 ''ann'') else None)\<rparr>"

definition demo_api :: "(int \<times> int) list API" where
  "demo_api = \<lparr>ap_adminKey = ''adm'', ap_jwt = Some (demo_jwt, ''s''), ap_oidc = None, ap_balance = None, ap_usage = None, ap_usageByModel = None,
     ap_stripe = None, ap_webDir = False, ap_gen = Some, ap_chk = (=), ap_sha = id, ap_mac = (\<lambda>_ x. x), ap_parse = (\<lambda>_. None),
     ap_topUp = record_topUp (\<lambda>_ _ _. Inr ()), ap_chans = [''mock'' \<mapsto> (\<lambda>_ _. Inr ''t1'')]\<rparr>"

definition demo_env :: env where
  "demo_env = \<lparr>en_now = 0, en_rand = Some ''q'', en_sched = [], en_closes = True\<rparr>"

definition demo_pay :: paydb where
  "demo_pay = fst (Recharge (\<lambda>_. True) [] NoFault empty_pay 1 500 ''k1'')"

definition demo_portal :: "(int \<times> int) list portal" where
  "demo_portal = \<lparr>pt_auth = demo_auth, pt_pay = demo_pay, pt_wallet = []\<rparr>"

abbreviation "keys_call auth \<equiv> portal_call ''POST'' ''/api/keys'' auth empty_body"

theorem portal_needs_credentials_witness:
  "Portal_Handler demo_api demo_env demo_portal (keys_call ''Bearer bad'') = (demo_portal, 401, PError ''unauthorized'')"
proof -
  have "\<not> adminOnly demo_api (keys_call ''Bearer bad'')" "session_user demo_api demo_env (keys_call ''Bearer bad'') = None"
    "\<not> has_prefix ''/api/oidc/'' (rq_Path (keys_call ''Bearer bad''))" "has_prefix ''/api/'' (rq_Path (keys_call ''Bearer bad''))"
    by code_simp+
  with portal_needs_credentials [of demo_api "keys_call ''Bearer bad''" demo_env demo_portal] show ?thesis
    by (simp add: prod_eq_iff)
qed

theorem policy_needs_admin_key_witness:
  "policy_kept demo_auth (pt_auth (portal_run demo_api demo_portal [(demo_env, keys_call ''Bearer tok-1'')]))"
proof -
  have "\<not> adminOnly demo_api (keys_call ''Bearer tok-1'')" by code_simp
  with policy_needs_admin_key [of "[(demo_env, keys_call ''Bearer tok-1'')]" demo_api demo_portal] show ?thesis
    by (simp add: demo_portal_def)
qed

lemma demo_portal_ok: "portal_ok u demo_portal"
proof -
  have "pay_ok demo_pay" using Recharge_credit [OF pay_ok_empty] by (simp add: demo_pay_def)
  moreover have "paid_sum u demo_pay = 0" by (simp add: paid_sum_def demo_pay_def Recharge_def empty_pay_def)
  moreover have "list_all (\<lambda>g. find_user demo_auth (rg_user g) \<noteq> None) (pay_recharges demo_pay)" by code_simp
  ultimately show ?thesis using demo_auth_ok by (simp add: portal_ok_def demo_portal_def credited_to_def list_all_iff)
qed

theorem portal_histories_are_consistent_witness:
  "portal_ok 1 (portal_run demo_api demo_portal
     [(demo_env, portal_call ''POST'' ''/api/recharge/pay'' ''Bearer tok-1'' (empty_body\<lparr>bd_RechargeID := 1\<rparr>)), (demo_env, keys_call ''Bearer tok-1'')])"
  by (rule portal_histories_are_consistent [OF demo_portal_ok, where ans = "\<lambda>_ _ _. Inr ()"]) (simp add: demo_api_def)



theorem mock_channel_gives_money_away_witness:
  "\<exists>s'. Portal_Handler demo_api demo_env demo_portal (portal_call ''POST'' ''/api/recharge/pay'' ''Bearer tok-1'' (empty_body\<lparr>bd_RechargeID := 1\<rparr>)) =
     (s', 200, PTxn ''t1'' ''PAID'') \<and> pt_wallet s' = [(1, 500)]"
proof -
  let ?r = "portal_call ''POST'' ''/api/recharge/pay'' ''Bearer tok-1'' (empty_body\<lparr>bd_RechargeID := 1\<rparr>)" and ?g = "the (find_recharge demo_pay 1)"
  have g: "find_recharge demo_pay 1 = Some ?g" "rg_status ?g = ''PENDING''" "rg_user ?g = 1" "rg_amount ?g = 500" "pay_payments demo_pay = []"
    by (simp_all add: demo_pay_def Recharge_def empty_pay_def find_recharge_def)
  have "\<not> adminOnly demo_api ?r" "session_user demo_api demo_env ?r = Some 1" by code_simp+
  with mock_channel_gives_money_away [of demo_portal 1 ?g demo_api "''t1''" demo_env ?r "''Bearer tok-1''" 1] g demo_portal_ok [of 1]
  show ?thesis by (simp add: portal_ok_def demo_portal_def demo_api_def demo_env_def)
qed

end
