(* ===== verification/Routing.thy ===== *)
theory Routing
  imports Complex_Main Decimal
begin

text \<open>
  \<open>internal/router\<close>: the circuit breaker (\<open>breaker.go\<close>), the failure window (\<open>health.go\<close>), channel
  selection (\<open>engine.go\<close>), the router (\<open>router.go\<close>) and the failover loop (\<open>upstream.go\<close>). Times
  are microseconds and the clock an argument. Each method runs under its mutex, so it is one
  step. Selection weights are rationals: the rounding of \<open>float64\<close> is not modelled, and the
  random number of a selection is an argument in the unit interval.
\<close>

section \<open>Circuit breaker\<close>

datatype breaker_state = stateClosed | stateOpen | stateHalfOpen

record Breaker =
  br_state :: breaker_state
  br_failures :: int
  br_probes :: int
  br_openAt :: int

definition br_minRequests :: int where "br_minRequests = 20"
definition br_openFor :: int where "br_openFor = 30000000"
definition br_maxProbes :: int where "br_maxProbes = 3"

definition NewBreaker :: Breaker where
  "NewBreaker = \<lparr>br_state = stateClosed, br_failures = 0, br_probes = 0, br_openAt = 0\<rparr>"

definition Allow :: "int \<Rightarrow> Breaker \<Rightarrow> Breaker \<times> bool" where
  "Allow now b =
     (case br_state b of
        stateClosed \<Rightarrow> (b, True)
      | stateOpen \<Rightarrow>
          if now - br_openAt b \<ge> br_openFor
          then (b\<lparr>br_state := stateHalfOpen, br_probes := 0\<rparr>, True) else (b, False)
      | stateHalfOpen \<Rightarrow>
          if br_probes b < br_maxProbes then (b\<lparr>br_probes := br_probes b + 1\<rparr>, True)
          else (b\<lparr>br_state := stateOpen, br_openAt := now\<rparr>, False))"

definition Record :: "int \<Rightarrow> bool \<Rightarrow> Breaker \<Rightarrow> Breaker" where
  "Record now ok b =
     (case br_state b of
        stateClosed \<Rightarrow>
          if ok then b\<lparr>br_failures := 0\<rparr>
          else let b1 = b\<lparr>br_failures := br_failures b + 1\<rparr>
               in if br_failures b1 \<ge> br_minRequests
                  then b1\<lparr>br_state := stateOpen, br_openAt := now\<rparr> else b1
      | stateHalfOpen \<Rightarrow>
          if ok then b\<lparr>br_state := stateClosed, br_failures := 0\<rparr>
          else b\<lparr>br_state := stateOpen, br_openAt := now\<rparr>
      | stateOpen \<Rightarrow> b)"

definition IsOpen :: "int \<Rightarrow> Breaker \<Rightarrow> bool" where
  "IsOpen now b \<longleftrightarrow> br_state b = stateOpen \<and> now - br_openAt b < br_openFor"

section \<open>Failure window\<close>

record bucket =
  bk_fail :: int
  bk_total :: int

record HealthTracker =
  ht_buckets :: "bucket list"
  ht_idx :: nat
  ht_last :: int
  ht_healthy :: "string \<rightharpoonup> bool"

definition NewHealthTracker :: "int \<Rightarrow> int \<Rightarrow> HealthTracker" where
  "NewHealthTracker window now =
     (let window = (if window \<le> 0 then 30000000 else window)
      in \<lparr>ht_buckets = replicate (nat (window div 1000000) + 1) \<lparr>bk_fail = 0, bk_total = 0\<rparr>,
          ht_idx = 0, ht_last = now, ht_healthy = (\<lambda>_. None)\<rparr>)"

fun ring_clear :: "nat \<Rightarrow> nat \<Rightarrow> bucket list \<Rightarrow> nat \<times> bucket list" where
  "ring_clear 0 i bs = (i, bs)"
| "ring_clear (Suc n) i bs =
     (let j = (i + 1) mod length bs in ring_clear n j (bs[j := \<lparr>bk_fail = 0, bk_total = 0\<rparr>]))"

definition advance :: "int \<Rightarrow> HealthTracker \<Rightarrow> HealthTracker" where
  "advance now h =
     (let elapsed = (now - ht_last h) sdiv 1000000
      in if elapsed \<le> 0 then h
         else let n = min (nat elapsed) (length (ht_buckets h));
                  (i, bs) = ring_clear n (ht_idx h) (ht_buckets h)
              in h\<lparr>ht_idx := i, ht_buckets := bs, ht_last := now\<rparr>)"

text \<open>
  The comparison of the quotient with one half is exact for counts below \<open>2^53\<close>. The channel
  is not used: the ring is shared by all channels.
\<close>

definition computeLocked :: "HealthTracker \<Rightarrow> string \<Rightarrow> bool" where
  "computeLocked h channelID =
     (let fl = sum_list (map bk_fail (ht_buckets h)); tot = sum_list (map bk_total (ht_buckets h))
      in if tot = 0 then True else 2 * fl < tot)"

definition Health_Record :: "int \<Rightarrow> string \<Rightarrow> bool \<Rightarrow> HealthTracker \<Rightarrow> HealthTracker" where
  "Health_Record now channelID ok h =
     (let h1 = advance now h; b = ht_buckets h1 ! ht_idx h1;
          b1 = (if ok then b\<lparr>bk_total := bk_total b + 1\<rparr>
                else b\<lparr>bk_total := bk_total b + 1, bk_fail := bk_fail b + 1\<rparr>);
          h2 = h1\<lparr>ht_buckets := (ht_buckets h1)[ht_idx h1 := b1]\<rparr>
      in h2\<lparr>ht_healthy := (ht_healthy h2)(channelID \<mapsto> computeLocked h2 channelID)\<rparr>)"

definition Healthy :: "HealthTracker \<Rightarrow> string \<Rightarrow> bool" where
  "Healthy h channelID = (case ht_healthy h channelID of None \<Rightarrow> True | Some v \<Rightarrow> v)"

section \<open>Selection\<close>

record Channel =
  ch_ID :: string
  ch_Name :: string
  ch_BaseURL :: string
  ch_Key :: string
  ch_InputPer1M :: int
  ch_OutputPer1M :: int
  ch_Weight :: int

record ChannelSpec =
  cs_Channel :: Channel
  cs_Healthy :: bool
  cs_BreakerOpen :: bool

record ModelRoute =
  mr_Model :: string
  mr_Channels :: "ChannelSpec list"

record Decision =
  dc_Primary :: Channel
  dc_Fallbacks :: "Channel list"
  dc_Model :: string

definition PriceWeight :: "int \<Rightarrow> rat" where
  "PriceWeight outputPer1M =
     (let p = (if outputPer1M \<le> 0 then 1 else outputPer1M) in (1000000 / of_int p) ^ 2)"

definition spec_weight :: "ChannelSpec \<Rightarrow> rat" where
  "spec_weight c =
     (let w = PriceWeight (ch_OutputPer1M (cs_Channel c))
      in if ch_Weight (cs_Channel c) > 1 then w * of_int (ch_Weight (cs_Channel c)) else w)"

fun pick_loop :: "nat \<Rightarrow> rat \<Rightarrow> rat list \<Rightarrow> nat option" where
  "pick_loop i x [] = None"
| "pick_loop i x (w # ws) = (if x - w \<le> 0 then Some i else pick_loop (i + 1) (x - w) ws)"

definition weightedPick :: "rat \<Rightarrow> rat list \<Rightarrow> rat \<Rightarrow> nat" where
  "weightedPick rnd weights wsum =
     (if wsum \<le> 0 \<or> weights = [] then 0
      else case pick_loop 0 (rnd * wsum) weights of Some i \<Rightarrow> i | None \<Rightarrow> length weights - 1)"

definition is_stable :: "ChannelSpec \<Rightarrow> bool" where
  "is_stable c \<longleftrightarrow> cs_Healthy c \<and> \<not> cs_BreakerOpen c"

text \<open>An empty route makes the indexing panic.\<close>

definition Select :: "rat \<Rightarrow> ModelRoute \<Rightarrow> go_error + Decision" where
  "Select rnd route =
     (let st = filter is_stable (mr_Channels route);
          (stable, unstable) = (if st = [] then (mr_Channels route, [])
                                else (st, filter (\<lambda>c. \<not> is_stable c) (mr_Channels route)));
          weights = map spec_weight stable;
          idx = weightedPick rnd weights (sum_list weights)
      in if stable = [] then Inl GoPanic
         else Inr \<lparr>dc_Primary = cs_Channel (stable ! idx),
                   dc_Fallbacks = map cs_Channel (take idx stable @ drop (idx + 1) stable @ unstable),
                   dc_Model = mr_Model route\<rparr>)"

definition IsRetryable :: "int \<Rightarrow> bool \<Rightarrow> bool" where
  "IsRetryable statusCode err \<longleftrightarrow> err \<or> statusCode \<ge> 500 \<or> statusCode = 429 \<or> statusCode = 0"

section \<open>The router\<close>

record Router =
  rt_models :: "string \<rightharpoonup> ModelRoute"
  rt_health :: HealthTracker
  rt_breakers :: "string \<rightharpoonup> Breaker"

text \<open>\<open>NewRouterWithAuto\<close> over the routes of a snapshot; its \<open>auto\<close> argument is not stored.\<close>

definition snapshot_ids :: "ModelRoute list \<Rightarrow> string list" where
  "snapshot_ids routes = concat (map (\<lambda>r. map (\<lambda>c. ch_ID (cs_Channel c)) (mr_Channels r)) routes)"

definition NewRouterWithAuto :: "int \<Rightarrow> ModelRoute list \<Rightarrow> Router" where
  "NewRouterWithAuto now routes =
     \<lparr>rt_models = map_of (map (\<lambda>r. (mr_Model r, r)) routes),
      rt_health = (NewHealthTracker 0 now)\<lparr>ht_healthy :=
        (\<lambda>i. if i \<in> set (snapshot_ids routes) then Some True else None)\<rparr>,
      rt_breakers = (\<lambda>i. if i \<in> set (snapshot_ids routes) then Some NewBreaker else None)\<rparr>"

definition live_spec :: "int \<Rightarrow> Router \<Rightarrow> ChannelSpec \<Rightarrow> ChannelSpec" where
  "live_spec now r c =
     \<lparr>cs_Channel = cs_Channel c, cs_Healthy = Healthy (rt_health r) (ch_ID (cs_Channel c)),
      cs_BreakerOpen = (case rt_breakers r (ch_ID (cs_Channel c)) of Some b \<Rightarrow> IsOpen now b | None \<Rightarrow> False)\<rparr>"

definition Route :: "rat \<Rightarrow> int \<Rightarrow> Router \<Rightarrow> string \<Rightarrow> go_error + Decision" where
  "Route rnd now r model =
     (case rt_models r model of
        None \<Rightarrow> Inl ErrModelNotFound
      | Some route \<Rightarrow>
          if list_ex (\<lambda>c. rt_breakers r (ch_ID (cs_Channel c)) = None) (mr_Channels route) then Inl GoPanic
          else Select rnd \<lparr>mr_Model = mr_Model route, mr_Channels = map (live_spec now r) (mr_Channels route)\<rparr>)"

definition RecordOutcome :: "int \<Rightarrow> string \<Rightarrow> bool \<Rightarrow> Router \<Rightarrow> Router" where
  "RecordOutcome now channelID ok r =
     r\<lparr>rt_health := Health_Record now channelID ok (rt_health r),
       rt_breakers := (case rt_breakers r channelID of
                         Some b \<Rightarrow> (rt_breakers r)(channelID \<mapsto> Record now ok b)
                       | None \<Rightarrow> rt_breakers r)\<rparr>"

definition ChannelHealth :: "Router \<Rightarrow> string \<Rightarrow> bool \<times> breaker_state option" where
  "ChannelHealth r channelID = (Healthy (rt_health r) channelID, map_option br_state (rt_breakers r channelID))"

section \<open>Failover\<close>

record ChatResult =
  cr_StatusCode :: int
  cr_Body :: string
  cr_UpstreamUsageRaw :: string

type_synonym 'u client = "'u \<Rightarrow> Channel \<Rightarrow> 'u \<times> (go_error + ChatResult)"

definition ok_status :: "int \<Rightarrow> bool" where
  "ok_status st \<longleftrightarrow> 200 \<le> st \<and> st < 300"

text \<open>
  The outcome of the loop: the result with the provider that served it; or the error, with
  the result that came with it when the request was refused for good. Printing a status of
  more than three digits panics (\<open>itoaStatus\<close>).
\<close>

datatype chat_outcome = Served ChatResult string | Failed "ChatResult option" go_error

fun Chat_loop :: "'u client \<Rightarrow> int \<Rightarrow> Router \<Rightarrow> 'u \<Rightarrow> Channel list \<Rightarrow> go_error option \<Rightarrow> Router \<times> 'u \<times> chat_outcome" where
  "Chat_loop client now r u [] lastErr =
     (r, u, Failed None (case lastErr of None \<Rightarrow> ErrAllChannelsFailed | Some e \<Rightarrow> e))"
| "Chat_loop client now r u (ch # chain) lastErr =
     (let (allowed, r1) = (case rt_breakers r (ch_ID ch) of
            None \<Rightarrow> (True, r)
          | Some b \<Rightarrow> let (b', a) = Allow now b in (a, r\<lparr>rt_breakers := (rt_breakers r)(ch_ID ch \<mapsto> b')\<rparr>))
      in if \<not> allowed
         then Chat_loop client now (RecordOutcome now (ch_ID ch) False r1) u chain (Some ErrAllChannelsFailed)
         else case client u ch of
           (u', Inr res) \<Rightarrow>
             if ok_status (cr_StatusCode res)
             then (RecordOutcome now (ch_ID ch) True r1, u', Served res (ch_ID ch))
             else
               let r2 = RecordOutcome now (ch_ID ch) False r1;
                   err = (case itoaStatus (cr_StatusCode res) of
                            Some _ \<Rightarrow> ErrUpstreamStatus (cr_StatusCode res) | None \<Rightarrow> GoPanic)
               in if IsRetryable (cr_StatusCode res) False \<and> err \<noteq> GoPanic
                  then Chat_loop client now r2 u' chain (Some err)
                  else (r2, u', Failed (Some res) err)
         | (u', Inl e) \<Rightarrow>
             Chat_loop client now (RecordOutcome now (ch_ID ch) False r1) u' chain (Some e))"

definition Chat :: "'u client \<Rightarrow> rat \<Rightarrow> int \<Rightarrow> Router \<Rightarrow> 'u \<Rightarrow> string \<Rightarrow> Router \<times> 'u \<times> chat_outcome" where
  "Chat client rnd now r u model =
     (case Route rnd now r model of
        Inl e \<Rightarrow> (r, u, Failed None e)
      | Inr dec \<Rightarrow> Chat_loop client now r u (dc_Primary dec # dc_Fallbacks dec) None)"

section \<open>Breaker\<close>

text \<open>The failures since the last success, for outcomes recorded while closed.\<close>

lemma Record_closed_fail:
  "br_state b = stateClosed \<Longrightarrow> br_failures b + 1 < br_minRequests \<Longrightarrow>
     Record now False b = b\<lparr>br_failures := br_failures b + 1\<rparr>"
  "br_state b = stateClosed \<Longrightarrow> \<not> br_failures b + 1 < br_minRequests \<Longrightarrow>
     br_state (Record now False b) = stateOpen"
  by (simp_all add: Record_def Let_def)

lemma Record_open_stays: "br_state b = stateOpen \<Longrightarrow> foldl (\<lambda>b ok. Record now ok b) b oks = b"
  by (induction oks) (simp_all add: Record_def)

fun fail_run :: "nat \<Rightarrow> bool list \<Rightarrow> bool" where
  "fail_run k [] \<longleftrightarrow> False"
| "fail_run k (ok # oks) \<longleftrightarrow> (if ok then fail_run 20 oks else k \<le> 1 \<or> fail_run (k - 1) oks)"

lemma fail_run_iff:
  "1 \<le> k \<Longrightarrow> k \<le> 20 \<Longrightarrow> fail_run k oks \<longleftrightarrow>
     (\<exists>ys. oks = replicate k False @ ys) \<or> (\<exists>xs ys. oks = xs @ replicate 20 False @ ys)"
proof (induction k oks rule: fail_run.induct)
  case (2 k ok oks)
  have shift: "(\<exists>xs ys. ok # oks = xs @ replicate 20 False @ ys) \<longleftrightarrow>
      (\<exists>ys. ok # oks = replicate 20 False @ ys) \<or> (\<exists>xs ys. oks = xs @ replicate 20 False @ ys)"
    by (auto simp: Cons_eq_append_conv)
  have r20: "replicate 20 False = False # replicate 19 False"
    by (simp add: numeral_eq_Suc)
  show ?case
  proof (cases ok)
    case True
    then have "(\<exists>xs ys. oks = xs @ replicate 20 False @ ys) \<longleftrightarrow> fail_run 20 oks"
      using 2 by auto
    moreover have "\<not> (\<exists>ys. ok # oks = replicate k False @ ys)" "\<not> (\<exists>ys. ok # oks = replicate 20 False @ ys)"
      using True "2.prems" r20 by (cases k; auto)+
    ultimately show ?thesis using True shift by simp
  next
    case False
    show ?thesis
    proof (cases "k = 1")
      case True
      then show ?thesis using False by (auto simp: Cons_eq_append_conv)
    next
      case k: False
      then obtain j where j: "k = Suc j" "1 \<le> j" "j \<le> 20" using "2.prems" by (cases k) auto
      have ih: "fail_run j oks \<longleftrightarrow> (\<exists>ys. oks = replicate j False @ ys) \<or> (\<exists>xs ys. oks = xs @ replicate 20 False @ ys)"
        using 2 False k j by simp
      have "(\<exists>ys. ok # oks = replicate k False @ ys) \<longleftrightarrow> (\<exists>ys. oks = replicate j False @ ys)"
        using False j by auto
      moreover have "(\<exists>ys. ok # oks = replicate 20 False @ ys) \<Longrightarrow> (\<exists>ys. oks = replicate j False @ ys)"
      proof -
        assume "\<exists>ys. ok # oks = replicate 20 False @ ys"
        then obtain ys where "oks = replicate 19 False @ ys" using r20 by auto
        moreover have "replicate 19 False = replicate j False @ replicate (19 - j) False"
          using j "2.prems" by (simp add: replicate_add [symmetric])
        ultimately show ?thesis by auto
      qed
      ultimately show ?thesis using False j ih shift by auto
    qed
  qed
qed auto

lemma Record_run:
  "br_state b = stateClosed \<Longrightarrow> br_failures b = 20 - int k \<Longrightarrow> 1 \<le> k \<Longrightarrow> k \<le> 20 \<Longrightarrow>
     br_state (foldl (\<lambda>b ok. Record now ok b) b oks) = stateOpen \<longleftrightarrow> fail_run k oks"
proof (induction k oks arbitrary: b rule: fail_run.induct)
  case (2 k ok oks)
  show ?case
  proof (cases ok)
    case True
    with 2 show ?thesis by (simp add: Record_def)
  next
    case False
    show ?thesis
    proof (cases "k = 1")
      case True
      with 2 False have "br_state (Record now ok b) = stateOpen"
        by (simp add: Record_closed_fail(2) br_minRequests_def)
      then show ?thesis using True False by (simp add: Record_open_stays)
    next
      case k: False
      with 2 False show ?thesis
        by (simp add: Record_closed_fail(1) br_minRequests_def of_nat_diff)
    qed
  qed
qed simp

section \<open>Selection\<close>

lemma pick_loop_bound: "pick_loop i x ws = Some j \<Longrightarrow> i \<le> j \<and> j < i + length ws"
  by (induction i x ws rule: pick_loop.induct) (auto split: if_splits)

lemma weightedPick_bound: "ws \<noteq> [] \<Longrightarrow> weightedPick rnd ws wsum < length ws"
  using pick_loop_bound [of 0 "rnd * wsum" ws] by (auto simp: weightedPick_def split: option.splits)

lemma mset_pick: "i < length xs \<Longrightarrow> mset (xs ! i # take i xs @ drop (i + 1) xs) = mset xs"
proof -
  assume i: "i < length xs"
  then have "mset xs = mset (take i xs @ xs ! i # drop (i + 1) xs)"
    by (simp add: id_take_nth_drop [symmetric])
  then show ?thesis by simp
qed

lemma mset_filter_split: "mset (filter P xs @ filter (\<lambda>x. \<not> P x) xs) = mset xs"
  by (induction xs) simp_all

text \<open>\<open>pick_loop\<close> finds the interval of the running sums that contains \<open>x\<close>.\<close>

lemma pick_loop_interval:
  "list_all (\<lambda>w. 0 < w) ws \<Longrightarrow> 0 < x \<Longrightarrow>
     pick_loop i x ws = Some (i + j) \<longleftrightarrow>
       j < length ws \<and> sum_list (take j ws) < x \<and> x \<le> sum_list (take (Suc j) ws)"
proof (induction ws arbitrary: i x j)
  case (Cons w ws)
  show ?case
  proof (cases "x \<le> w")
    case True
    have "0 \<le> sum_list (take m ws)" for m
      using Cons.prems(1) by (intro sum_list_nonneg) (auto simp: list_all_iff dest!: in_set_takeD intro: less_imp_le)
    then have "j \<noteq> 0 \<Longrightarrow> \<not> sum_list (take j (w # ws)) < x"
      using True by (cases j) (auto simp: not_less add_increasing2)
    with True Cons.prems show ?thesis by (cases j) auto
  next
    case False
    show ?thesis
    proof (cases j)
      case 0
      then show ?thesis using False pick_loop_bound [of "i + 1" "x - w" ws i] by auto
    next
      case (Suc m)
      have "pick_loop i x (w # ws) = pick_loop (i + 1) (x - w) ws" using False by simp
      then show ?thesis
        using Cons.IH [of "x - w" "i + 1" m] Cons.prems False Suc by (auto simp: algebra_simps)
    qed
  qed
qed simp

section \<open>Failover\<close>

text \<open>Answers after which the loop stops: a success, or a refusal that is not retried.\<close>

definition final_answer :: "go_error + ChatResult \<Rightarrow> bool" where
  "final_answer a =
     (case a of Inl e \<Rightarrow> False
      | Inr res \<Rightarrow> ok_status (cr_StatusCode res) \<or> \<not> IsRetryable (cr_StatusCode res) False)"

definition outcome_of :: "Channel \<Rightarrow> go_error + ChatResult \<Rightarrow> chat_outcome" where
  "outcome_of ch a =
     (case a of
        Inl e \<Rightarrow> Failed None e
      | Inr res \<Rightarrow> if ok_status (cr_StatusCode res) then Served res (ch_ID ch)
                   else Failed (Some res) (ErrUpstreamStatus (cr_StatusCode res)))"

text \<open>A client that records the channels it is sent to, with three-digit statuses.\<close>

definition record_client :: "(Channel \<Rightarrow> go_error + ChatResult) \<Rightarrow> Channel list client" where
  "record_client ans u ch = (u @ [ch], ans ch)"

definition plain_status :: "go_error + ChatResult \<Rightarrow> bool" where
  "plain_status a = (case a of Inl e \<Rightarrow> True | Inr res \<Rightarrow> 0 \<le> cr_StatusCode res \<and> cr_StatusCode res < 1000)"

definition all_closed :: "Router \<Rightarrow> Channel list \<Rightarrow> bool" where
  "all_closed r chain \<longleftrightarrow>
     (\<forall>ch\<in>set chain. \<exists>b. rt_breakers r (ch_ID ch) = Some b \<and> br_state b = stateClosed)"

lemma RecordOutcome_other:
  "i \<noteq> j \<Longrightarrow> rt_breakers (RecordOutcome now i ok r) j = rt_breakers r j"
  by (simp add: RecordOutcome_def split: option.splits)

lemma Allow_closed: "br_state b = stateClosed \<Longrightarrow> Allow now b = (b, True)"
  by (simp add: Allow_def)

lemma Chat_loop_first_final:
  assumes "all_closed r chain" and "distinct (map ch_ID chain)" and "\<forall>ch\<in>set chain. plain_status (ans ch)"
  shows "\<exists>r'. Chat_loop (record_client ans) now r u chain lastErr =
    (r', u @ (case find (\<lambda>ch. final_answer (ans ch)) chain of
                None \<Rightarrow> chain | Some ch \<Rightarrow> takeWhile (\<lambda>ch. \<not> final_answer (ans ch)) chain @ [ch]),
     case find (\<lambda>ch. final_answer (ans ch)) chain of
       Some ch \<Rightarrow> outcome_of ch (ans ch)
     | None \<Rightarrow> Failed None (if chain = [] then (case lastErr of None \<Rightarrow> ErrAllChannelsFailed | Some e \<Rightarrow> e)
         else (case ans (last chain) of Inl e \<Rightarrow> e | Inr res \<Rightarrow> ErrUpstreamStatus (cr_StatusCode res))))"
  using assms
proof (induction chain arbitrary: r u lastErr)
  case (Cons ch chain)
  obtain b where b: "rt_breakers r (ch_ID ch) = Some b" "br_state b = stateClosed"
    using Cons.prems(1) by (auto simp: all_closed_def)
  have r1: "r\<lparr>rt_breakers := (rt_breakers r)(ch_ID ch \<mapsto> b)\<rparr> = r"
    using b(1) by (simp add: fun_upd_idem)
  let ?r = "RecordOutcome now (ch_ID ch) False r"
  have "all_closed ?r chain"
    using Cons.prems(1,2) by (auto simp: all_closed_def RecordOutcome_other image_iff)
  then have ih: "\<exists>r'. Chat_loop (record_client ans) now ?r (u @ [ch]) chain le =
    (r', (u @ [ch]) @ (case find (\<lambda>ch. final_answer (ans ch)) chain of
                None \<Rightarrow> chain | Some ch \<Rightarrow> takeWhile (\<lambda>ch. \<not> final_answer (ans ch)) chain @ [ch]),
     case find (\<lambda>ch. final_answer (ans ch)) chain of
       Some ch \<Rightarrow> outcome_of ch (ans ch)
     | None \<Rightarrow> Failed None (if chain = [] then (case le of None \<Rightarrow> ErrAllChannelsFailed | Some e \<Rightarrow> e)
         else (case ans (last chain) of Inl e \<Rightarrow> e | Inr res \<Rightarrow> ErrUpstreamStatus (cr_StatusCode res))))" for le
    using Cons.IH [of ?r "u @ [ch]" le] Cons.prems by simp
  have st: "itoaStatus (cr_StatusCode res) \<noteq> None" if "ans ch = Inr res" for res
    using Cons.prems(3) that itoaStatus_small by (fastforce simp: plain_status_def)
  have next_err: "Chat_loop (record_client ans) now r u (ch # chain) lastErr =
      Chat_loop (record_client ans) now ?r (u @ [ch]) chain (Some e)" if "ans ch = Inl e" for e
    using that b r1 by (simp add: record_client_def Allow_closed)
  have next_res: "Chat_loop (record_client ans) now r u (ch # chain) lastErr =
      (if ok_status (cr_StatusCode res) then (RecordOutcome now (ch_ID ch) True r, u @ [ch], Served res (ch_ID ch))
       else if IsRetryable (cr_StatusCode res) False
       then Chat_loop (record_client ans) now ?r (u @ [ch]) chain (Some (ErrUpstreamStatus (cr_StatusCode res)))
       else (?r, u @ [ch], Failed (Some res) (ErrUpstreamStatus (cr_StatusCode res))))" if "ans ch = Inr res" for res
    using that b r1 st [OF that] by (auto simp: record_client_def Allow_closed Let_def)
  show ?case
  proof (cases "final_answer (ans ch)")
    case True
    then obtain res where "ans ch = Inr res" by (auto simp: final_answer_def split: sum.splits)
    with True next_res show ?thesis
      by (auto simp: final_answer_def outcome_of_def)
  next
    case False
    then obtain e where "Chat_loop (record_client ans) now r u (ch # chain) lastErr =
        Chat_loop (record_client ans) now ?r (u @ [ch]) chain (Some e)"
      and "e = (case ans ch of Inl e \<Rightarrow> e | Inr res \<Rightarrow> ErrUpstreamStatus (cr_StatusCode res))"
      using next_err next_res by (cases "ans ch") (auto simp: final_answer_def)
    then show ?thesis
      using ih [of "Some e"] False by (auto split: option.splits)
  qed
qed (simp add: outcome_of_def)

section \<open>Properties\<close>

text \<open>Theorem: A closed breaker trips on twenty failures in a row and on nothing else. For any
sequence of outcomes recorded by a new breaker, it ends open exactly when the sequence
contains twenty consecutive failures; successes in between reset the count, whatever the
failure rate.\<close>

theorem breaker_trips_on_twenty_in_a_row:
  "br_state (foldl (\<lambda>b ok. Record now ok b) NewBreaker oks) = stateOpen \<longleftrightarrow>
     (\<exists>xs ys. oks = xs @ replicate 20 False @ ys)"
proof -
  have "br_state (foldl (\<lambda>b ok. Record now ok b) NewBreaker oks) = stateOpen \<longleftrightarrow> fail_run 20 oks"
    by (rule Record_run) (simp_all add: NewBreaker_def)
  also have "\<dots> \<longleftrightarrow> (\<exists>xs ys. oks = xs @ replicate 20 False @ ys)"
    using fail_run_iff [of 20 oks] by auto
  finally show ?thesis .
qed

text \<open>Theorem: An open breaker fails fast and then probes. Until the open period is over it
rejects every request and changes nothing; after it, with no outcome reported, exactly four
requests are let through (the one that finds the period over and three probes), and the
next one closes the gate for a full period again.\<close>

theorem open_breaker_probes:
  assumes "br_state b = stateOpen"
  shows "(now - br_openAt b < br_openFor \<longrightarrow> Allow now b = (b, False)) \<and>
    (now - br_openAt b \<ge> br_openFor \<longrightarrow>
      (\<exists>b1 b2 b3 b4. Allow now b = (b1, True) \<and> Allow now b1 = (b2, True) \<and> Allow now b2 = (b3, True) \<and>
         Allow now b3 = (b4, True) \<and>
         Allow now b4 = (b4\<lparr>br_state := stateOpen, br_openAt := now\<rparr>, False) \<and>
         (\<forall>ok. br_state (Record now ok b4) = (if ok then stateClosed else stateOpen))))"
  using assms by (simp add: Allow_def Record_def br_maxProbes_def)

theorem open_breaker_probes_witness:
  "Allow 10 (NewBreaker\<lparr>br_state := stateOpen, br_openAt := 5\<rparr>) =
     (NewBreaker\<lparr>br_state := stateOpen, br_openAt := 5\<rparr>, False)"
  using open_breaker_probes [of "NewBreaker\<lparr>br_state := stateOpen, br_openAt := 5\<rparr>" 10]
  by (simp add: br_openFor_def)

text \<open>Theorem: Selection drops no channel. A decision for a non-empty route lists every
candidate exactly once, primary first; when a channel is healthy with its breaker closed,
the primary is one of those, and all of them come before the others, which stay as a last
resort.\<close>

theorem selection_keeps_every_channel:
  assumes "Select rnd route = Inr dec"
  shows "mset (dc_Primary dec # dc_Fallbacks dec) = mset (map cs_Channel (mr_Channels route)) \<and>
    (\<exists>good rest. dc_Primary dec # dc_Fallbacks dec = map cs_Channel (good @ rest) \<and>
       (if list_ex is_stable (mr_Channels route)
        then mset good = mset (filter is_stable (mr_Channels route)) \<and>
             rest = filter (\<lambda>c. \<not> is_stable c) (mr_Channels route) \<and> good \<noteq> []
        else rest = []))"
proof -
  let ?cs = "mr_Channels route"
  define st where "st = filter is_stable ?cs"
  define stable where "stable = (if st = [] then ?cs else st)"
  define unstable where "unstable = (if st = [] then [] else filter (\<lambda>c. \<not> is_stable c) ?cs)"
  define idx where "idx = weightedPick rnd (map spec_weight stable) (sum_list (map spec_weight stable))"
  define good where "good = stable ! idx # take idx stable @ drop (idx + 1) stable"
  have ne: "stable \<noteq> []" and dec: "dc_Primary dec # dc_Fallbacks dec = map cs_Channel (good @ unstable)"
    using assms by (auto simp: Select_def Let_def st_def stable_def unstable_def idx_def good_def split: if_splits)
  have "idx < length stable"
    using weightedPick_bound [of "map spec_weight stable"] ne by (simp add: idx_def)
  then have good: "mset good = mset stable" using mset_pick by (simp add: good_def)
  have all: "mset (stable @ unstable) = mset ?cs"
    using mset_filter_split [of is_stable ?cs] by (simp add: stable_def unstable_def st_def)
  have "mset (map cs_Channel (good @ unstable)) = mset (map cs_Channel ?cs)"
    using good all by (metis mset_append mset_map)
  moreover have "list_ex is_stable ?cs \<longleftrightarrow> st \<noteq> []"
    by (auto simp: st_def list_ex_iff filter_empty_conv)
  then have "if list_ex is_stable ?cs then mset good = mset (filter is_stable ?cs) \<and>
      unstable = filter (\<lambda>c. \<not> is_stable c) ?cs \<and> good \<noteq> [] else unstable = []"
    using good by (cases "st = []") (simp_all add: stable_def unstable_def st_def, simp add: good_def)
  ultimately show ?thesis
    unfolding dec by blast
qed

definition sample_channel :: "string \<Rightarrow> int \<Rightarrow> Channel" where
  "sample_channel i p = \<lparr>ch_ID = i, ch_Name = i, ch_BaseURL = i, ch_Key = [], ch_InputPer1M = p,
     ch_OutputPer1M = p, ch_Weight = 1\<rparr>"

definition sample_spec :: "string \<Rightarrow> int \<Rightarrow> bool \<Rightarrow> ChannelSpec" where
  "sample_spec i p h = \<lparr>cs_Channel = sample_channel i p, cs_Healthy = h, cs_BreakerOpen = False\<rparr>"

definition sample_route :: ModelRoute where
  "sample_route = \<lparr>mr_Model = ''m'', mr_Channels =
     [sample_spec ''a'' 3000000 True, sample_spec ''b'' 1000000 True, sample_spec ''c'' 500000 False]\<rparr>"

theorem selection_keeps_every_channel_witness:
  "\<exists>dec. Select (1 / 2) sample_route = Inr dec \<and>
     mset (dc_Primary dec # dc_Fallbacks dec) = mset (map cs_Channel (mr_Channels sample_route))"
proof -
  obtain dec where d: "Select (1 / 2) sample_route = Inr dec"
    by (auto simp: Select_def sample_route_def sample_spec_def is_stable_def Let_def)
  with selection_keeps_every_channel [OF d] show ?thesis by blast
qed

text \<open>Theorem: Traffic follows the weights. Among positive weights the pick of a random number
\<open>r\<close> in the unit interval is channel \<open>j\<close> exactly when \<open>r\<close> times the total lies between the sums
of the weights before and up to \<open>j\<close>: a share of \<open>r\<close> equal to the channel's part of the
total, and a channel of a third of the price weighs nine times as much.\<close>

theorem traffic_follows_inverse_square_price:
  assumes "list_all (\<lambda>w. 0 < w) ws" and "ws \<noteq> []" and "0 < r" and "r \<le> 1" and "0 < p"
  shows "(weightedPick r ws (sum_list ws) = j \<longleftrightarrow>
      j < length ws \<and> sum_list (take j ws) < r * sum_list ws \<and> r * sum_list ws \<le> sum_list (take (Suc j) ws)) \<and>
    PriceWeight p = 9 * PriceWeight (3 * p)"
proof -
  have pos: "0 < sum_list ws"
  proof (cases ws)
    case (Cons a rest)
    have "0 \<le> sum_list rest"
      using assms(1) Cons by (intro sum_list_nonneg) (auto simp: list_all_iff intro: less_imp_le)
    with assms(1) Cons show ?thesis by simp
  qed (use assms(2) in simp)
  then have x: "0 < r * sum_list ws" "r * sum_list ws \<le> sum_list ws"
    using assms(3,4) by (simp_all add: mult_le_cancel_right1)
  have iv: "pick_loop 0 (r * sum_list ws) ws = Some i \<longleftrightarrow>
      i < length ws \<and> sum_list (take i ws) < r * sum_list ws \<and> r * sum_list ws \<le> sum_list (take (Suc i) ws)" for i
    using pick_loop_interval [OF assms(1) x(1), of 0 i] by simp
  have "pick_loop 0 y ws \<noteq> None" if "y \<le> sum_list ws" for y
    using that assms(2)
  proof -
    have "pick_loop i y ws = None \<Longrightarrow> ws \<noteq> [] \<Longrightarrow> \<not> y \<le> sum_list ws" for i y
      by (induction i y ws rule: pick_loop.induct) (fastforce split: if_splits)+
    with that assms(2) show ?thesis by blast
  qed
  then obtain i where i: "pick_loop 0 (r * sum_list ws) ws = Some i" using x(2) by fastforce
  then have "weightedPick r ws (sum_list ws) = i"
    using pos assms(2) by (simp add: weightedPick_def)
  moreover have "PriceWeight p = 9 * PriceWeight (3 * p)"
    using assms(5) by (simp add: PriceWeight_def power2_eq_square)
  ultimately show ?thesis using iv [of i] iv [of j] i by auto
qed

theorem traffic_follows_inverse_square_price_witness:
  "weightedPick (1 / 20) [1, 9] (sum_list [1, 9]) = 0"
  using traffic_follows_inverse_square_price [of "[1, 9]" "1 / 20" 1 0] by simp

text \<open>C35: Failover tries channels in order until the first final answer. With distinct
channels whose breakers are closed and three-digit statuses, the loop contacts the channels
of the chain in order up to and including the first that succeeds or refuses the request
for good (a 4xx other than 429), and returns that answer with its channel; when there is
none it contacts every channel once and returns the last failure.\<close>

theorem failover_stops_at_first_final_answer:
  assumes "all_closed r chain" and "distinct (map ch_ID chain)" and "\<forall>ch\<in>set chain. plain_status (ans ch)"
    and "chain \<noteq> []"
  shows "\<exists>r' tried outcome. Chat_loop (record_client ans) now r [] chain None = (r', tried, outcome) \<and>
    (case find (\<lambda>ch. final_answer (ans ch)) chain of
       Some ch \<Rightarrow> tried = takeWhile (\<lambda>ch. \<not> final_answer (ans ch)) chain @ [ch] \<and> outcome = outcome_of ch (ans ch)
     | None \<Rightarrow> tried = chain \<and>
         outcome = Failed None (case ans (last chain) of Inl e \<Rightarrow> e | Inr res \<Rightarrow> ErrUpstreamStatus (cr_StatusCode res)))"
  using Chat_loop_first_final [OF assms(1-3), of now "[]" None] assms(4) by (auto split: option.splits)

definition sample_router :: Router where
  "sample_router = NewRouterWithAuto 0 [sample_route]"

theorem failover_stops_at_first_final_answer_witness:
  "\<exists>r'. Chat_loop (record_client (\<lambda>ch. if ch_ID ch = ''a'' then Inl ErrUpstream
       else Inr \<lparr>cr_StatusCode = 200, cr_Body = [], cr_UpstreamUsageRaw = []\<rparr>)) 0 sample_router []
     [sample_channel ''a'' 3, sample_channel ''b'' 4, sample_channel ''c'' 5] None =
   (r', [sample_channel ''a'' 3, sample_channel ''b'' 4],
    Served \<lparr>cr_StatusCode = 200, cr_Body = [], cr_UpstreamUsageRaw = []\<rparr> ''b'')"
proof -
  let ?chain = "[sample_channel ''a'' 3, sample_channel ''b'' 4, sample_channel ''c'' 5]"
  let ?ans = "\<lambda>ch. if ch_ID ch = ''a'' then Inl ErrUpstream
       else Inr \<lparr>cr_StatusCode = 200, cr_Body = [], cr_UpstreamUsageRaw = []\<rparr>"
  have "all_closed sample_router ?chain"
    by (simp add: all_closed_def sample_router_def NewRouterWithAuto_def snapshot_ids_def sample_route_def
        sample_spec_def sample_channel_def NewBreaker_def)
  moreover have "distinct (map ch_ID ?chain)" "\<forall>ch\<in>set ?chain. plain_status (?ans ch)"
    by (simp_all add: sample_channel_def plain_status_def)
  ultimately show ?thesis
    using failover_stops_at_first_final_answer [of sample_router ?chain ?ans 0]
    by (simp add: final_answer_def ok_status_def outcome_of_def sample_channel_def)
qed

text \<open>Theorem: The failure window is not kept per channel. After one failure of a channel, a
channel that has only ever succeeded is marked unhealthy by its own success recorded in the
same second.\<close>

theorem health_window_is_shared:
  assumes "i \<noteq> j"
  shows "Healthy (Health_Record now j True (Health_Record now i False (NewHealthTracker 0 now))) j = False"
proof -
  have "sum_list (map bk_fail (replicate n \<lparr>bk_fail = 0, bk_total = 0\<rparr>)) = 0"
    "sum_list (map bk_total (replicate n \<lparr>bk_fail = 0, bk_total = 0\<rparr>)) = 0" for n
    by (induction n) simp_all
  then show ?thesis
    by (simp add: Healthy_def Health_Record_def NewHealthTracker_def advance_def computeLocked_def Let_def)
qed

theorem health_window_is_shared_witness:
  "Healthy (Health_Record 7 ''b'' True (Health_Record 7 ''a'' False (NewHealthTracker 0 7))) ''b'' = False"
  by (rule health_window_is_shared) simp

end
