(* ===== verification/Gateway.thy ===== *)
theory Gateway
  imports Sse Routing
begin

text \<open>
  The HTTP gateway of \<open>internal/gateway\<close>: key authentication (\<open>middleware.go\<close>), the chat
  handler with its streaming and non-streaming branches (\<open>handler.go\<close>), the server's
  wrapping of handlers (\<open>server.go\<close>), the event fan-out (\<open>composite.go\<close>) and the plain HTTP
  upstream (\<open>httpupstream.go\<close>). The functions a \<open>Server\<close> is configured with are fields of a
  record, each a transformer of a world \<open>'w\<close>: the rest of the system.
\<close>

section \<open>Requests and responses\<close>

record ChatCompletionRequest =
  rq_Model :: string
  rq_Messages :: "ChatMessage list"
  rq_Stream :: bool
  rq_MaxTokens :: "int option"

record ChatCall =
  cc_RequestID :: string
  cc_UserID :: string
  cc_Model :: string
  cc_Stream :: bool
  cc_Body :: string
  cc_UpstreamURL :: string
  cc_Provider :: string
  cc_Pricing :: "PricingSnapshot option"

text \<open>What was written to a client: an error document, or bytes.\<close>

datatype out = ErrorBody string | Raw string

text \<open>
  \<open>w_status\<close> is 0 until the header is sent; the first write sends 200. \<open>w_flusher\<close> says
  whether the writer is an \<open>http.Flusher\<close>, \<open>w_left\<close> how many writes succeed before the
  client is gone (\<open>None\<close>: all).
\<close>

record writer =
  w_status :: int
  w_retry_after :: "int option"
  w_body :: "out list"
  w_flusher :: bool
  w_left :: "nat option"

definition new_writer :: writer where
  "new_writer = \<lparr>w_status = 0, w_retry_after = None, w_body = [], w_flusher = True, w_left = None\<rparr>"

definition WriteHeader :: "int \<Rightarrow> writer \<Rightarrow> writer" where
  "WriteHeader code w = (if w_status w = 0 then w\<lparr>w_status := code\<rparr> else w)"

definition Write :: "out \<Rightarrow> writer \<Rightarrow> writer \<times> (go_error + unit)" where
  "Write x w =
     (let w' = WriteHeader 200 w in
      case w_left w of
        Some 0 \<Rightarrow> (w', Inl ErrService)
      | Some (Suc n) \<Rightarrow> (w'\<lparr>w_body := w_body w' @ [x], w_left := Some n\<rparr>, Inr ())
      | None \<Rightarrow> (w'\<lparr>w_body := w_body w' @ [x]\<rparr>, Inr ()))"

definition writeError :: "int \<Rightarrow> string \<Rightarrow> writer \<Rightarrow> writer" where
  "writeError code msg w = fst (Write (ErrorBody msg) (WriteHeader code w))"

section \<open>The server\<close>

type_synonym on_chunk = "Accumulator \<times> writer \<Rightarrow> string \<Rightarrow> (Accumulator \<times> writer) \<times> (go_error + unit)"

text \<open>
  An upstream performs a call. It hands the payloads of a stream to the callback, whose
  state it threads, and may fill in the call's URL and provider.
\<close>

type_synonym 'w upstream =
  "'w \<Rightarrow> ChatCall \<Rightarrow> on_chunk option \<Rightarrow> Accumulator \<times> writer \<Rightarrow>
   'w \<times> (Accumulator \<times> writer) \<times> ChatCall \<times> (go_error + ChatResult)"

record 'w limiter =
  lim_Allow :: "'w \<Rightarrow> string \<Rightarrow> string \<Rightarrow> int \<Rightarrow> 'w \<times> int \<times> bool"
  lim_Done :: "'w \<Rightarrow> string \<Rightarrow> 'w"

record 'w server =
  sv_upstream :: "'w upstream"
  sv_keys :: "string list option"
  sv_sink :: "('w \<Rightarrow> Event \<Rightarrow> 'w \<times> (go_error + unit)) option"
  sv_preCharge :: "('w \<Rightarrow> string \<Rightarrow> string \<Rightarrow> string \<Rightarrow> int \<Rightarrow> int option \<Rightarrow> 'w \<times> (go_error + unit)) option"
  sv_resolver :: "(string \<Rightarrow> ChatCompletionRequest \<Rightarrow> go_error + string) option"
  sv_priceSnap :: "('w \<Rightarrow> string \<Rightarrow> (int \<times> int) option) option"
  sv_metrics :: bool
  sv_keyResolve :: "('w \<Rightarrow> string \<Rightarrow> 'w \<times> string option) option"
  sv_limiter :: "'w limiter option"
  sv_now :: "'w \<Rightarrow> 'w \<times> int"
  sv_requestID :: "'w \<Rightarrow> 'w \<times> string"
  sv_unmarshal :: "string \<Rightarrow> ChatCompletionRequest option"
  sv_usage :: "string \<Rightarrow> Usage option"
  sv_mustJSON :: "Usage \<Rightarrow> string"

text \<open>\<open>sv_unmarshal\<close>, \<open>sv_usage\<close> and \<open>sv_mustJSON\<close> are \<open>encoding/json\<close> at the types of the code.\<close>

definition emit :: "'w server \<Rightarrow> 'w \<Rightarrow> Event \<Rightarrow> 'w" where
  "emit sv w ev =
     (let (w1, ts) = sv_now sv w; ev' = ev\<lparr>ev_Timestamp := Some ts\<rparr> in
      case sv_sink sv of None \<Rightarrow> w1 | Some e \<Rightarrow> fst (e w1 ev'))"

definition providerOf :: "ChatCall \<Rightarrow> string" where
  "providerOf call = (if cc_Provider call \<noteq> [] then cc_Provider call else cc_UpstreamURL call)"

definition since_ms :: "int \<Rightarrow> int \<Rightarrow> int" where
  "since_ms start now = sub64 now start sdiv 1000000"

definition base_event :: "ChatCall \<Rightarrow> EventStatus \<Rightarrow> int \<Rightarrow> int \<Rightarrow> int \<Rightarrow> int \<Rightarrow> string \<Rightarrow> Event" where
  "base_event call status prompt completion ttft dur usageRaw =
     \<lparr>ev_RequestID = cc_RequestID call, ev_UserID = cc_UserID call, ev_Model = cc_Model call,
      ev_Provider = providerOf call, ev_Status = status, ev_PromptTokens = prompt,
      ev_CompletionTokens = completion, ev_CacheTokens = 0, ev_TTFTMs = ttft, ev_DurationMs = dur,
      ev_UpstreamUsageRaw = usageRaw, ev_Pricing = cc_Pricing call, ev_Timestamp = None\<rparr>"

definition handleNonStream :: "'w server \<Rightarrow> 'w \<Rightarrow> writer \<Rightarrow> ChatCall \<Rightarrow> int \<Rightarrow> 'w \<times> writer" where
  "handleNonStream sv w wr call promptTokens =
     (let (w1, start) = sv_now sv w;
          (w2, _, call', r) = sv_upstream sv w1 call None (NewAccumulator promptTokens, wr)
      in case r of
           Inl e \<Rightarrow>
             let (w3, t) = sv_now sv w2;
                 w4 = emit sv w3 (base_event call' StatusFailed promptTokens 0 0 (since_ms start t) [])
             in (w4, writeError 502 ''upstream error'' wr)
         | Inr result \<Rightarrow>
             let ok = 200 \<le> cr_StatusCode result \<and> cr_StatusCode result < 300;
                 usage = (if ok then sv_usage sv (cr_Body result) else None);
                 status = (if ok then StatusCompleted else StatusFailed);
                 completion = (case usage of None \<Rightarrow> 0 | Some u \<Rightarrow> u_CompletionTokens u);
                 wr' = fst (Write (Raw (cr_Body result)) (WriteHeader (cr_StatusCode result) wr));
                 usageRaw = (case usage of None \<Rightarrow> [] | Some u \<Rightarrow> sv_mustJSON sv u);
                 (w3, t) = sv_now sv w2
             in (emit sv w3 (base_event call' status promptTokens completion 0 (since_ms start t) usageRaw), wr'))"

definition OnChunk :: "(string \<Rightarrow> int) \<Rightarrow> on_chunk" where
  "OnChunk est st data =
     (let (acc, wr) = st;
          content = fastDeltaContent data;
          acc' = (if content \<noteq> [] then AddDelta est acc content else acc);
          (wr', r) = Write (Raw (''data: '' @ data @ [NL, NL])) wr
      in ((acc', wr'), r))"

definition handleStream :: "'w server \<Rightarrow> 'w \<Rightarrow> writer \<Rightarrow> ChatCall \<Rightarrow> int \<Rightarrow> (string \<Rightarrow> int) \<Rightarrow> 'w \<times> writer" where
  "handleStream sv w wr call promptTokens est =
     (let acc = NewAccumulator promptTokens; (w1, start) = sv_now sv w in
      if \<not> w_flusher wr then (w1, writeError 500 ''streaming unsupported'' wr)
      else
        let (w2, (acc1, wr1), call', r) = sv_upstream sv w1 call (Some (OnChunk est)) (acc, wr);
            failed = (case r of Inl e \<Rightarrow> True | Inr _ \<Rightarrow> False);
            status = (if failed then StatusFailed else StatusCompleted);
            acc2 = (if failed then MarkAborted acc1 else acc1);
            wr2 = (if failed then fst (Write (Raw (frame ''[DONE]'')) wr1) else wr1);
            u = Snapshot acc2;
            (w3, t1) = sv_now sv w2;
            (w4, t2) = sv_now sv w3
        in (emit sv w4 (base_event call' status (u_PromptTokens u) (u_CompletionTokens u)
              (since_ms start t1) (since_ms start t2) []), wr2))"

text \<open>The part of \<open>handleChat\<close> after the request id is drawn: budget, reservation, forwarding.\<close>

definition forward :: "'w server \<Rightarrow> 'w \<Rightarrow> writer \<Rightarrow> ChatCall \<Rightarrow> int \<Rightarrow> 'w \<times> writer" where
  "forward sv w wr call promptTokens =
     (if cc_Stream call then handleStream sv w wr call promptTokens CountText
      else handleNonStream sv w wr call promptTokens)"

definition precharged ::
  "'w server \<Rightarrow> 'w \<Rightarrow> writer \<Rightarrow> ChatCall \<Rightarrow> int \<Rightarrow> int option \<Rightarrow>
   ('w \<Rightarrow> string \<Rightarrow> string \<Rightarrow> string \<Rightarrow> int \<Rightarrow> int option \<Rightarrow> 'w \<times> (go_error + unit)) \<Rightarrow> 'w \<times> writer" where
  "precharged sv w wr call promptTokens maxTokens pre =
     (case pre w (cc_UserID call) (cc_RequestID call) (cc_Model call) promptTokens maxTokens of
        (w1, Inl e) \<Rightarrow> (w1, writeError 402 ''insufficient balance or pre-charge rejected'' wr)
      | (w1, Inr _) \<Rightarrow> forward sv w1 wr call promptTokens)"

definition admitted ::
  "'w server \<Rightarrow> 'w \<Rightarrow> writer \<Rightarrow> ChatCall \<Rightarrow> string \<Rightarrow> string \<Rightarrow> int \<Rightarrow> int option \<Rightarrow> 'w \<times> writer" where
  "admitted sv w wr call rawKey endUser promptTokens maxTokens =
     (case sv_preCharge sv of
        None \<Rightarrow> forward sv w wr call promptTokens
      | Some pre \<Rightarrow>
          (case sv_limiter sv of
             None \<Rightarrow> precharged sv w wr call promptTokens maxTokens pre
           | Some lmt \<Rightarrow>
               (case lim_Allow lmt w rawKey endUser promptTokens of
                  (w1, retryAfter, False) \<Rightarrow>
                    (w1, writeError 429 ''rate limit exceeded'' (wr\<lparr>w_retry_after := Some retryAfter\<rparr>))
                | (w1, _, True) \<Rightarrow>
                    let (w2, wr') = precharged sv w1 wr call promptTokens maxTokens pre
                    in (lim_Done lmt w2 rawKey, wr'))))"

definition handleChat :: "'w server \<Rightarrow> 'w \<Rightarrow> writer \<Rightarrow> string \<Rightarrow> string \<Rightarrow> string \<Rightarrow> go_error + string \<Rightarrow> 'w \<times> writer" where
  "handleChat sv w wr userID rawKey endUser rbody =
     (case rbody of
        Inl e \<Rightarrow> (w, writeError 400 ''failed to read request body'' wr)
      | Inr body \<Rightarrow>
          (case sv_unmarshal sv body of
             None \<Rightarrow> (w, writeError 400 ''invalid JSON body'' wr)
           | Some req \<Rightarrow>
               if rq_Model req = [] then (w, writeError 400 ''model is required'' wr)
               else case (case sv_resolver sv of None \<Rightarrow> Inr (rq_Model req) | Some f \<Rightarrow> f (rq_Model req) req) of
                      Inl e \<Rightarrow> (w, writeError 400 ''model resolution failed'' wr)
                    | Inr model \<Rightarrow>
                        let (w1, snap) = (case sv_priceSnap sv of
                               None \<Rightarrow> (w, None)
                             | Some f \<Rightarrow>
                                 (case f w model of
                                    None \<Rightarrow> (w, None)
                                  | Some (i, p) \<Rightarrow>
                                      let (w1, t) = sv_now sv w
                                      in (w1, Some \<lparr>sn_InputPer1M = i, sn_OutputPer1M = p, sn_EffectiveAt = t\<rparr>)));
                            (w2, rid) = sv_requestID sv w1;
                            call = \<lparr>cc_RequestID = rid, cc_UserID = userID, cc_Model = model,
                                    cc_Stream = rq_Stream req, cc_Body = body, cc_UpstreamURL = [],
                                    cc_Provider = [], cc_Pricing = snap\<rparr>
                        in admitted sv w2 wr call rawKey endUser
                             (EstimatePromptTokens CountText (rq_Messages req)) (rq_MaxTokens req)))"
section \<open>Authentication and routes\<close>

record http_request =
  hq_method :: string
  hq_path :: string
  hq_Authorization :: string
  hq_EndUser :: string
  hq_body :: "go_error + string"

definition presented_key :: "string \<Rightarrow> string" where
  "presented_key auth = TrimSpace (TrimPrefix ''Bearer '' auth)"

text \<open>The identity of a request: \<open>None\<close> when it is refused.\<close>

definition authenticate :: "'w server \<Rightarrow> 'w \<Rightarrow> string \<Rightarrow> 'w \<times> string option" where
  "authenticate sv w key =
     (if key = [] then (w, None)
      else case sv_keys sv of
             None \<Rightarrow> (w, Some key)
           | Some ks \<Rightarrow>
               if key \<in> set ks then (w, Some key)
               else case sv_keyResolve sv of None \<Rightarrow> (w, None) | Some f \<Rightarrow> f w key)"

definition authMiddleware ::
  "'w server \<Rightarrow> ('w \<Rightarrow> writer \<Rightarrow> string \<Rightarrow> string \<Rightarrow> string \<Rightarrow> 'w \<times> writer) \<Rightarrow> 'w \<Rightarrow> writer \<Rightarrow> http_request \<Rightarrow> 'w \<times> writer" where
  "authMiddleware sv next w wr r =
     (let key = presented_key (hq_Authorization r) in
      case authenticate sv w key of
        (w1, None) \<Rightarrow> (w1, writeError 401 ''invalid or missing API key'' wr)
      | (w1, Some userID) \<Rightarrow> next w1 wr userID key (hq_EndUser r))"

text \<open>
  With metrics the handler gets a \<open>statusRecorder\<close>, which embeds the \<open>ResponseWriter\<close>
  interface and so has no \<open>Flush\<close> method.
\<close>

definition instrument :: "'w server \<Rightarrow> ('w \<Rightarrow> writer \<Rightarrow> 'w \<times> writer) \<Rightarrow> 'w \<Rightarrow> writer \<Rightarrow> 'w \<times> writer" where
  "instrument sv next w wr = (if sv_metrics sv then next w (wr\<lparr>w_flusher := False\<rparr>) else next w wr)"

text \<open>The API's own mux: one route, else 405 for its path and 404.\<close>

definition api_mux :: "'w server \<Rightarrow> http_request \<Rightarrow> 'w \<Rightarrow> writer \<Rightarrow> string \<Rightarrow> string \<Rightarrow> string \<Rightarrow> 'w \<times> writer" where
  "api_mux sv r w wr userID rawKey endUser =
     (if hq_path r = ''/v1/chat/completions'' then
        if hq_method r = ''POST'' then handleChat sv w wr userID rawKey endUser (hq_body r)
        else (w, writeError 405 ''Method Not Allowed'' wr)
      else (w, writeError 404 ''404 page not found'' wr))"

definition Handler :: "'w server \<Rightarrow> 'w \<Rightarrow> writer \<Rightarrow> http_request \<Rightarrow> 'w \<times> writer" where
  "Handler sv w wr r =
     (if hq_path r = ''/healthz'' \<and> hq_method r \<in> {''GET'', ''HEAD''} then (w, fst (Write (Raw ''ok'') (WriteHeader 200 wr)))
      else if sv_metrics sv \<and> hq_path r = ''/metrics'' then (w, WriteHeader 200 wr)
      else instrument sv (\<lambda>w wr. authMiddleware sv (api_mux sv r) w wr r) w wr)"

section \<open>The event fan-out\<close>

fun CompositeSink_Emit :: "('w \<Rightarrow> Event \<Rightarrow> 'w \<times> (go_error + unit)) list \<Rightarrow> 'w \<Rightarrow> Event \<Rightarrow> 'w \<times> (go_error + unit)" where
  "CompositeSink_Emit [] w ev = (w, Inr ())"
| "CompositeSink_Emit (s # ss) w ev = CompositeSink_Emit ss (fst (s w ev)) ev"

section \<open>The plain HTTP upstream\<close>

text \<open>An exchange answers a status, a body and how the body ends (\<open>None\<close>: end of file).\<close>

record http_response =
  hr_status :: int
  hr_body :: string
  hr_fin :: "go_error option"

type_synonym 'w http = "'w \<Rightarrow> string \<Rightarrow> string \<Rightarrow> string \<Rightarrow> 'w \<times> (go_error + http_response)"

definition ReadAll :: "nat \<Rightarrow> http_response \<Rightarrow> go_error + string" where
  "ReadAll limit resp =
     (if limit \<le> length (hr_body resp) then Inr (take limit (hr_body resp))
      else case hr_fin resp of None \<Rightarrow> Inr (hr_body resp) | Some e \<Rightarrow> Inl e)"

definition read_partial :: "nat \<Rightarrow> http_response \<Rightarrow> string" where
  "read_partial limit resp = take limit (hr_body resp)"

definition HTTPUpstream_Chat :: "'w server \<Rightarrow> 'w http \<Rightarrow> string \<Rightarrow> string \<Rightarrow> 'w upstream" where
  "HTTPUpstream_Chat sv http endpoint key w call onChunk st =
     (case http w endpoint key (cc_Body call) of
        (w1, Inl e) \<Rightarrow> (w1, st, call, Inl e)
      | (w1, Inr resp) \<Rightarrow>
          if cc_Stream call then
            if hr_status resp \<noteq> 200 then
              (w1, st, call, Inr \<lparr>cr_StatusCode = hr_status resp, cr_Body = read_partial (2 ^ 20) resp, cr_UpstreamUsageRaw = []\<rparr>)
            else (case scanSSELines (\<lambda>s p. case onChunk of None \<Rightarrow> (s, Inr ()) | Some f \<Rightarrow> f s p) st (hr_body resp) (hr_fin resp) of
                    (st', Inl e) \<Rightarrow> (w1, st', call, Inl e)
                  | (st', Inr _) \<Rightarrow> (w1, st', call, Inr \<lparr>cr_StatusCode = 200, cr_Body = [], cr_UpstreamUsageRaw = []\<rparr>))
          else
            (case ReadAll (64 * 2 ^ 20) resp of
               Inl e \<Rightarrow> (w1, st, call, Inl e)
             | Inr body \<Rightarrow>
                 let raw = (if 200 \<le> hr_status resp \<and> hr_status resp < 300
                            then case sv_usage sv body of None \<Rightarrow> [] | Some u \<Rightarrow> sv_mustJSON sv u else [])
                 in (w1, st, call\<lparr>cc_UpstreamURL := endpoint\<rparr>,
                     Inr \<lparr>cr_StatusCode = hr_status resp, cr_Body = body, cr_UpstreamUsageRaw = raw\<rparr>)))"

section \<open>Routed upstream\<close>

text \<open>
  \<open>NewRoutingUpstream\<close>: one HTTP client (endpoint and key) per channel id, of the first channel
  with that id in the order the routes are visited.
\<close>

definition NewRoutingUpstream :: "ModelRoute list \<Rightarrow> string \<rightharpoonup> string \<times> string" where
  "NewRoutingUpstream routes =
     map_of (concat (map (\<lambda>r. map (\<lambda>c. (ch_ID (cs_Channel c), ch_BaseURL (cs_Channel c), ch_Key (cs_Channel c)))
                                 (mr_Channels r)) routes))"

text \<open>
  \<open>RoutingUpstream.Chat\<close>: the failover loop of the router over clients that set the call's
  URL and perform it. A channel of the decision always has a client, both being built from
  the snapshot's routes.
\<close>

definition channel_client ::
  "'w server \<Rightarrow> 'w http \<Rightarrow> (string \<rightharpoonup> string \<times> string) \<Rightarrow> on_chunk option \<Rightarrow>
   ('w \<times> (Accumulator \<times> writer) \<times> ChatCall) client" where
  "channel_client sv http clients onChunk u ch =
     (case clients (ch_ID ch) of
        None \<Rightarrow> (u, Inl GoPanic)
      | Some (endpoint, key) \<Rightarrow>
          let (w, st, call) = u;
              (w', st', call', r) = HTTPUpstream_Chat sv http endpoint key w (call\<lparr>cc_UpstreamURL := ch_BaseURL ch\<rparr>) onChunk st
          in ((w', st', call'), r))"

definition RoutingUpstream_Chat ::
  "'w server \<Rightarrow> 'w http \<Rightarrow> (string \<rightharpoonup> string \<times> string) \<Rightarrow> rat \<Rightarrow> int \<Rightarrow>
   ('w \<Rightarrow> Router) \<Rightarrow> (Router \<Rightarrow> 'w \<Rightarrow> 'w) \<Rightarrow> 'w upstream" where
  "RoutingUpstream_Chat sv http clients rnd now get_router set_router w call onChunk st =
     (let (r', (w', st', call'), res) =
            Chat (channel_client sv http clients onChunk) rnd now (get_router w) (w, st, call) (cc_Model call);
          w'' = set_router r' w'
      in case res of
           Served result provider \<Rightarrow> (w'', st', call'\<lparr>cc_Provider := provider\<rparr>, Inr result)
         | Failed _ e \<Rightarrow> (w'', st', call', Inl e))"
section \<open>What the handler relies on of an upstream\<close>

definition same_call :: "ChatCall \<Rightarrow> ChatCall \<Rightarrow> bool" where
  "same_call c d \<longleftrightarrow> cc_RequestID c = cc_RequestID d \<and> cc_UserID c = cc_UserID d \<and> cc_Model c = cc_Model d \<and>
     cc_Stream c = cc_Stream d \<and> cc_Body c = cc_Body d \<and> cc_Pricing c = cc_Pricing d"

lemma same_call_refl [simp]: "same_call c c" and same_call_url [simp]: "same_call c (d\<lparr>cc_UpstreamURL := x\<rparr>) = same_call c d"
  and same_call_provider [simp]: "same_call c (d\<lparr>cc_Provider := y\<rparr>) = same_call c d"
  by (simp_all add: same_call_def)

text \<open>An upstream may name the channel that served a call, nothing else of it.\<close>

locale upstream_contract =
  fixes up :: "'w upstream"
  assumes keeps_call: "up w call f st = (w', st', call', r) \<Longrightarrow> same_call call call'"
begin

lemma keeps_fields:
  assumes "up w call f st = (w', st', call', r)"
  shows "cc_RequestID call' = cc_RequestID call \<and> cc_UserID call' = cc_UserID call \<and>
    cc_Model call' = cc_Model call \<and> cc_Pricing call' = cc_Pricing call"
  using keeps_call [OF assms] by (simp add: same_call_def)

end

lemma HTTPUpstream_keeps_call:
  "HTTPUpstream_Chat sv http endpoint key w call f st = (w', st', call', r) \<Longrightarrow> same_call call call'"
  by (auto simp: HTTPUpstream_Chat_def Let_def split: prod.splits sum.splits if_splits)

interpretation http_up: upstream_contract "HTTPUpstream_Chat sv http endpoint key" for sv http endpoint key
  by unfold_locales (rule HTTPUpstream_keeps_call)

lemma Chat_loop_keeps:
  assumes "\<And>u ch. P u \<Longrightarrow> P (fst (client u ch))" and "P u"
  shows "P (fst (snd (Chat_loop client now r u chain lastErr)))"
  using assms(2)
proof (induction chain arbitrary: r u lastErr)
  case (Cons ch chain)
  obtain u' res where c: "client u ch = (u', res)" by fastforce
  then have "P u'" using assms(1) [OF Cons.prems, of ch] by simp
  with Cons c show ?case
    by (cases res) (auto simp: Let_def split: option.splits prod.splits if_splits)
qed simp

lemma RoutingUpstream_keeps_call:
  assumes "RoutingUpstream_Chat sv http clients rnd now get_router set_router w call f st = (w', st', call', r)"
  shows "same_call call call'"
proof -
  let ?client = "channel_client sv http clients f"
  define P where "P u \<longleftrightarrow> same_call call (snd (snd u))" for u :: "'a \<times> (Accumulator \<times> writer) \<times> ChatCall"
  have step: "P (fst (?client u ch))" if "P u" for u ch
  proof -
    obtain w0 st0 c0 where u: "u = (w0, st0, c0)" by (metis prod_cases3)
    have trans: "same_call call c1" if "same_call (c0\<lparr>cc_UpstreamURL := x\<rparr>) c1" for c1 x
      using that \<open>P u\<close> by (simp add: P_def u same_call_def)
    show ?thesis
      using that
      by (auto simp: channel_client_def P_def u Let_def split: option.splits prod.splits
          intro: trans [OF HTTPUpstream_keeps_call])
  qed
  obtain r' u' res where c: "Chat ?client rnd now (get_router w) (w, st, call) (cc_Model call) = (r', u', res)"
    by (metis prod_cases3)
  have "P (fst (snd (Chat ?client rnd now (get_router w) (w, st, call) (cc_Model call))))"
  proof (cases "Route rnd now (get_router w) (cc_Model call)")
    case (Inr dec)
    have "P (w, st, call)" by (simp add: P_def)
    then show ?thesis
      unfolding Chat_def Inr sum.case by (intro Chat_loop_keeps [of P] step)
  qed (simp add: Chat_def P_def)
  with c assms show ?thesis
    by (cases u') (auto simp: RoutingUpstream_Chat_def P_def Let_def split: chat_outcome.splits prod.splits)
qed

interpretation routed_up: upstream_contract "RoutingUpstream_Chat sv http clients rnd now get_router set_router"
  for sv http clients rnd now get_router set_router
  by unfold_locales (rule RoutingUpstream_keeps_call)
section \<open>Traces\<close>

text \<open>The calls a request makes to the rest of the system, in order.\<close>

datatype act = AAllow bool | APreCharge string bool | AUpstream ChatCall | AEmit Event | ADone

fun is_ok :: "'e + 'a \<Rightarrow> bool" where
  "is_ok (Inl e) = False"
| "is_ok (Inr x) = True"

definition logged_limiter :: "'w limiter \<Rightarrow> ('w \<times> act list) limiter" where
  "logged_limiter l =
     \<lparr>lim_Allow = (\<lambda>(w, tr) k eu n. case lim_Allow l w k eu n of (w', r, ok) \<Rightarrow> ((w', tr @ [AAllow ok]), r, ok)),
      lim_Done = (\<lambda>(w, tr) k. (lim_Done l w k, tr @ [ADone]))\<rparr>"

text \<open>A server that does what \<open>sv\<close> does and records these calls.\<close>

definition logged :: "'w server \<Rightarrow> ('w \<times> act list) server" where
  "logged sv =
     \<lparr>sv_upstream = (\<lambda>(w, tr) call f st. case sv_upstream sv w call f st of
        (w', st', call', r) \<Rightarrow> ((w', tr @ [AUpstream call]), st', call', r)),
      sv_keys = sv_keys sv,
      sv_sink = map_option (\<lambda>e (w, tr) ev. case e w ev of (w', r) \<Rightarrow> ((w', tr @ [AEmit ev]), r)) (sv_sink sv),
      sv_preCharge = map_option (\<lambda>p (w, tr) u rid m n mx. case p w u rid m n mx of
        (w', r) \<Rightarrow> ((w', tr @ [APreCharge rid (is_ok r)]), r)) (sv_preCharge sv),
      sv_resolver = sv_resolver sv,
      sv_priceSnap = map_option (\<lambda>f (w, tr) m. f w m) (sv_priceSnap sv),
      sv_metrics = sv_metrics sv,
      sv_keyResolve = map_option (\<lambda>f (w, tr) k. case f w k of (w', r) \<Rightarrow> ((w', tr), r)) (sv_keyResolve sv),
      sv_limiter = map_option logged_limiter (sv_limiter sv),
      sv_now = (\<lambda>(w, tr). case sv_now sv w of (w', t) \<Rightarrow> ((w', tr), t)),
      sv_requestID = (\<lambda>(w, tr). case sv_requestID sv w of (w', t) \<Rightarrow> ((w', tr), t)),
      sv_unmarshal = sv_unmarshal sv, sv_usage = sv_usage sv, sv_mustJSON = sv_mustJSON sv\<rparr>"

definition event_of :: "ChatCall \<Rightarrow> Event \<Rightarrow> bool" where
  "event_of call ev \<longleftrightarrow> ev_RequestID ev = cc_RequestID call \<and> ev_UserID ev = cc_UserID call \<and>
     ev_Model ev = cc_Model call \<and> ev_Pricing ev = cc_Pricing call"

lemma event_of_base [simp]:
  "event_of call (base_event c st p n t d u \<lparr>ev_Timestamp := ts\<rparr>) \<longleftrightarrow>
     cc_RequestID c = cc_RequestID call \<and> cc_UserID c = cc_UserID call \<and> cc_Model c = cc_Model call \<and> cc_Pricing c = cc_Pricing call"
  by (auto simp: event_of_def base_event_def)

lemma logged_now: "sv_now (logged sv) (w, tr) = ((fst (sv_now sv w), tr), snd (sv_now sv w))"
  by (simp add: logged_def split: prod.splits)

lemma emit_logged:
  "sv_sink sv = Some e \<Longrightarrow> emit (logged sv) (w, tr) ev =
     (let ev' = ev\<lparr>ev_Timestamp := Some (snd (sv_now sv w))\<rparr> in (fst (e (fst (sv_now sv w)) ev'), tr @ [AEmit ev']))"
  by (simp add: emit_def logged_now Let_def) (simp add: logged_def split: prod.splits)

lemma logged_upstream:
  "sv_upstream (logged sv) (w, tr) call f st =
     (case sv_upstream sv w call f st of (w', st', call', r) \<Rightarrow> ((w', tr @ [AUpstream call]), st', call', r))"
  by (simp add: logged_def)

lemma logged_fields [simp]:
  "sv_usage (logged sv) = sv_usage sv" "sv_mustJSON (logged sv) = sv_mustJSON sv" "sv_unmarshal (logged sv) = sv_unmarshal sv"
  "sv_resolver (logged sv) = sv_resolver sv" "sv_keys (logged sv) = sv_keys sv" "sv_metrics (logged sv) = sv_metrics sv"
  "sv_keyResolve (logged sv) = map_option (\<lambda>f (w, tr) k. case f w k of (w', r) \<Rightarrow> ((w', tr), r)) (sv_keyResolve sv)"
  by (simp_all add: logged_def)

lemma authenticate_logged:
  "authenticate (logged sv) (w, tr) k = ((fst (authenticate sv w k), tr), snd (authenticate sv w k))"
  by (simp add: authenticate_def split: option.splits prod.splits)

text \<open>Forwarding: one call and one event of it, or the refusal to stream.\<close>

lemma handleNonStream_trace:
  assumes "upstream_contract (sv_upstream sv)" and "sv_sink sv = Some e"
  shows "\<exists>w' ev wr'. handleNonStream (logged sv) (w, tr) wr call n = ((w', tr @ [AUpstream call, AEmit ev]), wr') \<and> event_of call ev"
proof -
  obtain w2 st call' r where up: "sv_upstream sv (fst (sv_now sv w)) call None (NewAccumulator n, wr) = (w2, st, call', r)"
    by (metis prod_cases4)
  from upstream_contract.keeps_fields [OF assms(1) up] show ?thesis
    by (cases r) (simp_all add: handleNonStream_def logged_now logged_upstream up emit_logged [OF assms(2)] Let_def)
qed

lemma handleStream_trace:
  assumes "upstream_contract (sv_upstream sv)" and "sv_sink sv = Some e"
  shows "if w_flusher wr
    then \<exists>w' ev wr'. handleStream (logged sv) (w, tr) wr call n est = ((w', tr @ [AUpstream call, AEmit ev]), wr') \<and> event_of call ev
    else \<exists>w'. handleStream (logged sv) (w, tr) wr call n est = ((w', tr), writeError 500 ''streaming unsupported'' wr)"
proof -
  obtain w2 acc1 wr1 call' r where up:
      "sv_upstream sv (fst (sv_now sv w)) call (Some (OnChunk est)) (NewAccumulator n, wr) = (w2, (acc1, wr1), call', r)"
    by (metis prod_cases4 surj_pair)
  from upstream_contract.keeps_fields [OF assms(1) up] show ?thesis
    by (simp add: handleStream_def logged_now logged_upstream up emit_logged [OF assms(2)] Let_def)
qed

lemma forward_trace:
  assumes "upstream_contract (sv_upstream sv)" and "sv_sink sv = Some e"
  shows "if cc_Stream call \<and> \<not> w_flusher wr
    then \<exists>w'. forward (logged sv) (w, tr) wr call n = ((w', tr), writeError 500 ''streaming unsupported'' wr)
    else \<exists>w' ev wr'. forward (logged sv) (w, tr) wr call n = ((w', tr @ [AUpstream call, AEmit ev]), wr') \<and> event_of call ev"
  using handleStream_trace [OF assms, of wr w tr call n CountText] handleNonStream_trace [OF assms, of w tr wr call n]
  by (auto simp: forward_def split: if_splits)
lemma logged_preCharge:
  "sv_preCharge sv = Some pre \<Longrightarrow> sv_preCharge (logged sv) = Some (\<lambda>(w, tr) u rid m n mx. case pre w u rid m n mx of
     (w', r) \<Rightarrow> ((w', tr @ [APreCharge rid (is_ok r)]), r))"
  "sv_limiter (logged sv) = map_option logged_limiter (sv_limiter sv)"
  by (simp_all add: logged_def)

lemma precharged_trace:
  assumes "upstream_contract (sv_upstream sv)" and "sv_sink sv = Some e" and "sv_preCharge sv = Some pre"
    and "precharged (logged sv) (w, tr) wr call n mx (the (sv_preCharge (logged sv))) = ((w', tr'), wr')"
  shows "tr' = tr @ [APreCharge (cc_RequestID call) False] \<or>
    (cc_Stream call \<and> \<not> w_flusher wr \<and> tr' = tr @ [APreCharge (cc_RequestID call) True] \<and>
       wr' = writeError 500 ''streaming unsupported'' wr) \<or>
    (\<exists>ev. \<not> (cc_Stream call \<and> \<not> w_flusher wr) \<and> tr' = tr @ [APreCharge (cc_RequestID call) True, AUpstream call, AEmit ev] \<and> event_of call ev)"
proof -
  obtain w1 r where p: "pre w (cc_UserID call) (cc_RequestID call) (cc_Model call) n mx = (w1, r)" by fastforce
  show ?thesis
  proof (cases r)
    case (Inr u)
    with assms(4) have "forward (logged sv) (w1, tr @ [APreCharge (cc_RequestID call) True]) wr call n = ((w', tr'), wr')"
      by (simp add: precharged_def logged_preCharge(1) [OF assms(3)] p)
    with forward_trace [OF assms(1,2), of call wr w1 "tr @ [APreCharge (cc_RequestID call) True]" n] show ?thesis
      by (auto split: if_splits)
  qed (use assms(4) in \<open>simp add: precharged_def logged_preCharge(1) [OF assms(3)] p\<close>)
qed

text \<open>The traces of a request to a server with a sink, a limiter and a reservation hook.\<close>

definition request_trace :: "bool \<Rightarrow> string \<Rightarrow> act list \<Rightarrow> bool" where
  "request_trace flushes userID tr \<longleftrightarrow>
     tr = [] \<or> tr = [AAllow False] \<or>
     (\<exists>rid. tr = [AAllow True, APreCharge rid False, ADone]) \<or>
     (\<not> flushes \<and> (\<exists>rid. tr = [AAllow True, APreCharge rid True, ADone])) \<or>
     (\<exists>rid call ev. tr = [AAllow True, APreCharge rid True, AUpstream call, AEmit ev, ADone] \<and>
        cc_RequestID call = rid \<and> cc_UserID call = userID \<and> event_of call ev)"

lemma admitted_shape:
  assumes "upstream_contract (sv_upstream sv)" and "sv_sink sv = Some e" and "sv_preCharge sv = Some pre"
    and "sv_limiter sv = Some l"
    and "admitted (logged sv) (w, []) wr call rawKey eu n mx = ((w', tr), wr')"
  shows "tr = [AAllow False] \<or> tr = [AAllow True, APreCharge (cc_RequestID call) False, ADone] \<or>
    (cc_Stream call \<and> \<not> w_flusher wr \<and> tr = [AAllow True, APreCharge (cc_RequestID call) True, ADone] \<and>
       wr' = writeError 500 ''streaming unsupported'' wr) \<or>
    (\<not> (cc_Stream call \<and> \<not> w_flusher wr) \<and> (\<exists>ev. event_of call ev \<and>
       tr = [AAllow True, APreCharge (cc_RequestID call) True, AUpstream call, AEmit ev, ADone]))"
proof -
  obtain w1 ra ok where al: "lim_Allow l w rawKey eu n = (w1, ra, ok)" by (metis prod_cases3)
  have lg: "sv_limiter (logged sv) = Some (logged_limiter l)" by (simp add: logged_preCharge(2) assms(4))
  have pg: "sv_preCharge (logged sv) = Some (the (sv_preCharge (logged sv)))" by (simp add: logged_preCharge(1) [OF assms(3)])
  show ?thesis
  proof (cases ok)
    case True
    obtain w2 tr2 wr2 where p: "precharged (logged sv) (w1, [AAllow True]) wr call n mx (the (sv_preCharge (logged sv))) = ((w2, tr2), wr2)"
      by (metis prod_cases3 surj_pair)
    have "tr = tr2 @ [ADone]" "wr' = wr2"
      using assms(5) p unfolding admitted_def lg option.case
      by (subst (asm) pg; simp add: logged_limiter_def al True)+
    with precharged_trace [OF assms(1-3) p] show ?thesis by auto
  next
    case False
    then show ?thesis
      using assms(5) unfolding admitted_def lg option.case
      by (subst (asm) pg) (simp add: logged_limiter_def al)
  qed
qed

lemma admitted_trace:
  assumes "upstream_contract (sv_upstream sv)" and "sv_sink sv = Some e" and "sv_preCharge sv = Some pre"
    and "sv_limiter sv = Some l"
    and "admitted (logged sv) (w, []) wr call rawKey eu n mx = ((w', tr), wr')"
  shows "request_trace (w_flusher wr) (cc_UserID call) tr"
  using admitted_shape [OF assms] by (auto simp: request_trace_def)

lemma logged_requestID: "sv_requestID (logged sv) (w, tr) = ((fst (sv_requestID sv w), tr), snd (sv_requestID sv w))"
  and logged_priceSnap: "sv_priceSnap (logged sv) = map_option (\<lambda>f (w, tr) m. f w m) (sv_priceSnap sv)"
  by (simp_all add: logged_def split: prod.splits)

text \<open>\<open>handleChat\<close> either answers 400 without a call, or admits a call for the user.\<close>

lemma handleChat_cases:
  obtains (refused) msg where "handleChat (logged sv) (w, tr) wr userID rawKey eu body = ((w, tr), writeError 400 msg wr)"
    | (admitted) w1 call n mx where
        "handleChat (logged sv) (w, tr) wr userID rawKey eu body = admitted (logged sv) (w1, tr) wr call rawKey eu n mx" "cc_UserID call = userID"
        "\<And>b req. body = Inr b \<Longrightarrow> sv_unmarshal sv b = Some req \<Longrightarrow> cc_Stream call = rq_Stream req"
proof -
  have now: "\<exists>w1. fst (case sv_priceSnap (logged sv) of None \<Rightarrow> ((w, tr), None)
      | Some f \<Rightarrow> (case f (w, tr) m of None \<Rightarrow> ((w, tr), None)
          | Some (i, p) \<Rightarrow> let (w1, t) = sv_now (logged sv) (w, tr)
              in (w1, Some \<lparr>sn_InputPer1M = i, sn_OutputPer1M = p, sn_EffectiveAt = t\<rparr>))) = (w1, tr)" for m
    by (auto simp: logged_priceSnap logged_now split: option.splits)
  show thesis
  proof (cases body)
    case Inl
    then show ?thesis by (intro that(1)) (simp add: handleChat_def)
  next
    case body: (Inr b)
    show ?thesis
    proof (cases "sv_unmarshal sv b")
      case None
      with body show ?thesis by (intro that(1)) (simp add: handleChat_def)
    next
      case req: (Some req)
      show ?thesis
      proof (cases "rq_Model req = []")
        case True
        with body req show ?thesis by (intro that(1)) (simp add: handleChat_def)
      next
        case named: False
        show ?thesis
        proof (cases "case sv_resolver sv of None \<Rightarrow> Inr (rq_Model req) | Some f \<Rightarrow> f (rq_Model req) req")
          case Inl
          with body req named show ?thesis by (intro that(1)) (simp add: handleChat_def)
        next
          case m: (Inr model)
        from now [of model] obtain w1 snap where "(case sv_priceSnap (logged sv) of None \<Rightarrow> ((w, tr), None)
            | Some f \<Rightarrow> (case f (w, tr) model of None \<Rightarrow> ((w, tr), None)
                | Some (i, p) \<Rightarrow> let (w1, t) = sv_now (logged sv) (w, tr)
                    in (w1, Some \<lparr>sn_InputPer1M = i, sn_OutputPer1M = p, sn_EffectiveAt = t\<rparr>))) = ((w1, tr), snap)"
          by (metis prod.collapse)
        with body req named m have "handleChat (logged sv) (w, tr) wr userID rawKey eu body =
            admitted (logged sv) (fst (sv_requestID sv w1), tr) wr \<lparr>cc_RequestID = snd (sv_requestID sv w1), cc_UserID = userID,
              cc_Model = model, cc_Stream = rq_Stream req, cc_Body = b, cc_UpstreamURL = [], cc_Provider = [], cc_Pricing = snap\<rparr>
              rawKey eu (EstimatePromptTokens CountText (rq_Messages req)) (rq_MaxTokens req)"
          by (simp add: handleChat_def logged_requestID)
        then show ?thesis by (rule that(2)) (use body req in simp_all)
        qed
      qed
    qed
  qed
qed
section \<open>A concrete server\<close>

definition plain_server :: "nat server" where
  "plain_server =
     \<lparr>sv_upstream = (\<lambda>w call f st. (w, st, call\<lparr>cc_Provider := ''c1''\<rparr>,
        Inr \<lparr>cr_StatusCode = 200, cr_Body = ''hi'', cr_UpstreamUsageRaw = []\<rparr>)),
      sv_keys = Some [''k''], sv_sink = Some (\<lambda>w ev. (w, Inr ())),
      sv_preCharge = Some (\<lambda>w u rid m n mx. (w, Inr ())), sv_resolver = None, sv_priceSnap = None,
      sv_metrics = False, sv_keyResolve = None,
      sv_limiter = Some \<lparr>lim_Allow = (\<lambda>w k eu n. (w, 0, True)), lim_Done = (\<lambda>w k. w)\<rparr>,
      sv_now = (\<lambda>w. (w, 0)), sv_requestID = (\<lambda>w. (Suc w, ''r1'')),
      sv_unmarshal = (\<lambda>b. Some \<lparr>rq_Model = ''m'', rq_Messages = [], rq_Stream = b = ''s'', rq_MaxTokens = None\<rparr>),
      sv_usage = (\<lambda>b. Some \<lparr>u_PromptTokens = 1, u_CompletionTokens = 5, u_TotalTokens = 6\<rparr>), sv_mustJSON = (\<lambda>u. [])\<rparr>"

lemma plain_contract: "upstream_contract (sv_upstream plain_server)"
  by unfold_locales (auto simp: plain_server_def)

section \<open>Properties\<close>

text \<open>C3: Budget, reservation, forwarding, one event, release, in this order. A request to a
  server with a limiter, a reservation hook and a sink makes one of five sequences of
  calls: none (malformed), a refused budget check, a refused reservation, a refusal to
  stream after the reservation, or the full sequence with exactly one upstream call and
  exactly one event for the same request, user, model and price. The upstream is never
  reached without a granted budget and reservation, and a granted slot is always released.\<close>

theorem one_event_per_forwarded_request:
  assumes "upstream_contract (sv_upstream sv)" and "sv_sink sv = Some e" and "sv_preCharge sv = Some pre"
    and "sv_limiter sv = Some l"
    and "handleChat (logged sv) (w, []) wr userID rawKey eu body = ((w', tr), wr')"
  shows "request_trace (w_flusher wr) userID tr"
proof (cases rule: handleChat_cases [of sv w "[]" wr userID rawKey eu body])
  case (refused msg)
  with assms(5) show ?thesis by (simp add: request_trace_def)
next
  case (admitted w1 call n mx)
  with admitted_trace [OF assms(1-4)] assms(5) show ?thesis by metis
qed

theorem one_event_per_forwarded_request_witness:
  "\<exists>w' wr' tr. handleChat (logged plain_server) (0, []) new_writer ''u'' ''k'' [] (Inr ''b'') = ((w', tr), wr') \<and>
     request_trace True ''u'' tr \<and> length tr = 5"
proof -
  obtain w' tr wr' where r: "handleChat (logged plain_server) (0, []) new_writer ''u'' ''k'' [] (Inr ''b'') = ((w', tr), wr')"
    by (metis prod.collapse)
  have "length (snd (fst (handleChat (logged plain_server) (0, []) new_writer ''u'' ''k'' [] (Inr ''b'')))) = 5"
    by code_simp
  moreover have "request_trace (w_flusher new_writer) ''u'' tr"
    by (rule one_event_per_forwarded_request [OF plain_contract _ _ _ r]) (simp_all add: plain_server_def)
  ultimately show ?thesis using r by (auto simp: new_writer_def)
qed

text \<open>Theorem: Nothing happens without a key. A request whose key is neither on the static list nor
  known to the resolver is answered 401, and no hook but the resolver is called.\<close>

theorem unauthenticated_requests_stop:
  assumes "hq_path r \<noteq> ''/healthz''" and "hq_path r \<noteq> ''/metrics''" and "sv_keys sv = Some ks"
    and "presented_key (hq_Authorization r) \<notin> set ks"
    and "case sv_keyResolve sv of None \<Rightarrow> w' = w | Some f \<Rightarrow> f w (presented_key (hq_Authorization r)) = (w', None)"
    and "presented_key (hq_Authorization r) \<noteq> []" and "w_status wr = 0"
  shows "fst (Handler sv w wr r) = w' \<and> w_status (snd (Handler sv w wr r)) = 401 \<and>
    fst (Handler (logged sv) (w, tr) wr r) = (w', tr)"
proof -
  have "w_status (writeError 401 msg v) = 401" if "w_status v = 0" for msg v
    using that by (auto simp: writeError_def Write_def WriteHeader_def Let_def split: option.splits nat.splits)
  then show ?thesis
    using assms by (auto simp: Handler_def instrument_def authMiddleware_def authenticate_logged authenticate_def Let_def
        split: option.splits)
qed

definition stranger :: http_request where
  "stranger = \<lparr>hq_method = ''POST'', hq_path = ''/v1/chat/completions'', hq_Authorization = ''Bearer zz'', hq_EndUser = [], hq_body = Inr ''b''\<rparr>"

theorem unauthenticated_requests_stop_witness:
  "w_status (snd (Handler plain_server 0 new_writer stranger)) = 401 \<and> fst (Handler (logged plain_server) (0, []) new_writer stranger) = (0, [])"
proof -
  have "presented_key (hq_Authorization stranger) = ''zz''" by code_simp
  then show ?thesis
    using unauthenticated_requests_stop [of stranger plain_server "[''k'']" 0 0 new_writer "[]"]
    by (simp add: stranger_def plain_server_def new_writer_def)
qed

text \<open>Theorem: With metrics enabled no request can stream. The metrics wrapper hides the flusher of
  the response writer, so every streaming request that passes budget and reservation is
  answered 500 after its funds were reserved; the upstream is not called and no event is
  emitted that would release the reservation.\<close>

theorem metrics_break_streaming:
  assumes "upstream_contract (sv_upstream sv)" and "sv_sink sv = Some e" and "sv_preCharge sv = Some pre"
    and "sv_limiter sv = Some l" and "sv_metrics sv"
    and "hq_path r = ''/v1/chat/completions''" and "hq_method r = ''POST''" and "w_status wr = 0"
    and "hq_body r = Inr b" and "sv_unmarshal sv b = Some req" and "rq_Stream req"
    and "Handler (logged sv) (w, []) wr r = ((w', tr), wr')"
  shows "(\<forall>call. AUpstream call \<notin> set tr) \<and> (\<forall>ev. AEmit ev \<notin> set tr) \<and>
    ((\<exists>rid. APreCharge rid True \<in> set tr) \<longrightarrow> w_status wr' = 500)"
proof -
  have st: "w_status (writeError 500 msg v) = 500" if "w_status v = 0" for msg v
    using that by (auto simp: writeError_def Write_def WriteHeader_def Let_def split: option.splits nat.splits)
  let ?key = "presented_key (hq_Authorization r)" and ?wr = "wr\<lparr>w_flusher := False\<rparr>"
  obtain w1 who where auth: "authenticate (logged sv) (w, []) ?key = ((w1, []), who)"
    by (simp add: authenticate_logged)
  have run: "(case who of None \<Rightarrow> ((w1, []), writeError 401 ''invalid or missing API key'' ?wr)
      | Some u \<Rightarrow> handleChat (logged sv) (w1, []) ?wr u ?key (hq_EndUser r) (hq_body r)) = ((w', tr), wr')"
    using assms(5-7,12) auth
    by (auto simp: Handler_def instrument_def authMiddleware_def api_mux_def Let_def split: option.splits)
  show ?thesis
  proof (cases who)
    case (Some u)
    then have h: "handleChat (logged sv) (w1, []) ?wr u ?key (hq_EndUser r) (hq_body r) = ((w', tr), wr')" using run by simp
    show ?thesis
    proof (cases rule: handleChat_cases [of sv w1 "[]" ?wr u ?key "hq_EndUser r" "hq_body r"])
      case (refused msg)
      with h show ?thesis by simp
    next
      case (admitted w2 call n mx)
      have "cc_Stream call" using admitted(3) assms(9-11) by simp
      with admitted_shape [OF assms(1-4), of w2 ?wr call ?key "hq_EndUser r" n mx w' tr wr'] admitted(1) h st [of ?wr] assms(8)
      show ?thesis by auto
    qed
  qed (use run in simp)
qed

definition stream_request :: http_request where
  "stream_request = \<lparr>hq_method = ''POST'', hq_path = ''/v1/chat/completions'', hq_Authorization = ''Bearer k'', hq_EndUser = [], hq_body = Inr ''s''\<rparr>"

theorem metrics_break_streaming_witness:
  "\<exists>w' tr wr'. Handler (logged (plain_server\<lparr>sv_metrics := True\<rparr>)) (0, []) new_writer stream_request = ((w', tr), wr') \<and>
     APreCharge ''r1'' True \<in> set tr \<and> w_status wr' = 500 \<and> (\<forall>call. AUpstream call \<notin> set tr)"
proof -
  let ?sv = "plain_server\<lparr>sv_metrics := True\<rparr>"
  obtain w' tr wr' where r: "Handler (logged ?sv) (0, []) new_writer stream_request = ((w', tr), wr')" by (metis prod.collapse)
  have "list_ex (\<lambda>a. case a of APreCharge rid ok \<Rightarrow> rid = ''r1'' \<and> ok | _ \<Rightarrow> False)
      (snd (fst (Handler (logged ?sv) (0, []) new_writer stream_request)))" by code_simp
  then obtain a where "a \<in> set tr" "case a of APreCharge rid ok \<Rightarrow> rid = ''r1'' \<and> ok | _ \<Rightarrow> False"
    by (auto simp: r list_ex_iff)
  moreover from this(2) have "a = APreCharge ''r1'' True" by (simp split: act.splits)
  ultimately have "APreCharge ''r1'' True \<in> set tr" by simp
  moreover have "(\<forall>call. AUpstream call \<notin> set tr) \<and> (\<forall>ev. AEmit ev \<notin> set tr) \<and>
      ((\<exists>rid. APreCharge rid True \<in> set tr) \<longrightarrow> w_status wr' = 500)"
    by (rule metrics_break_streaming [OF _ _ _ _ _ _ _ _ _ _ _ r, where b = "''s''"
          and req = "\<lparr>rq_Model = ''m'', rq_Messages = [], rq_Stream = True, rq_MaxTokens = None\<rparr>"])
      (use plain_contract in \<open>simp_all add: plain_server_def stream_request_def new_writer_def\<close>)
  ultimately show ?thesis using r by auto
qed
section \<open>The event of a call\<close>

text \<open>An answer counts as a completion when it came without error and, unless streamed, with a 2xx status.\<close>

definition succeeded :: "bool \<Rightarrow> go_error + ChatResult \<Rightarrow> bool" where
  "succeeded stream r = (case r of Inl e \<Rightarrow> False
     | Inr res \<Rightarrow> stream \<or> (200 \<le> cr_StatusCode res \<and> cr_StatusCode res < 300))"

lemma handleNonStream_event:
  assumes "sv_sink sv = Some e"
    and "sv_upstream sv (fst (sv_now sv w)) call None (NewAccumulator n, wr) = (w2, st, call', r)"
  shows "\<exists>w' ev wr'. handleNonStream (logged sv) (w, tr) wr call n = ((w', tr @ [AUpstream call, AEmit ev]), wr') \<and>
    ev_Status ev = (if succeeded False r then StatusCompleted else StatusFailed) \<and> ev_PromptTokens ev = n \<and>
    ev_CompletionTokens ev = (if succeeded False r then
      (case sv_usage sv (cr_Body (projr r)) of None \<Rightarrow> 0 | Some u \<Rightarrow> u_CompletionTokens u) else 0)"
  by (cases r) (auto simp: handleNonStream_def logged_now logged_upstream assms(2) emit_logged [OF assms(1)] Let_def
      base_event_def succeeded_def)

lemma handleStream_event:
  assumes "sv_sink sv = Some e" and "w_flusher wr"
    and "sv_upstream sv (fst (sv_now sv w)) call (Some (OnChunk est)) (NewAccumulator n, wr) = (w2, (acc, wr1), call', r)"
  shows "\<exists>w' ev. handleStream (logged sv) (w, tr) wr call n est =
      ((w', tr @ [AUpstream call, AEmit ev]), if succeeded True r then wr1 else fst (Write (Raw (frame ''[DONE]'')) wr1)) \<and>
    ev_Status ev = (if succeeded True r then StatusCompleted else StatusFailed) \<and>
    ev_PromptTokens ev = acc_prompt acc \<and> ev_CompletionTokens ev = acc_completion acc"
  using assms(2) by (cases r) (auto simp: handleStream_def logged_now logged_upstream assms(3) emit_logged [OF assms(1)] Let_def
      base_event_def succeeded_def Snapshot_def MarkAborted_def)

definition meter_chunks :: "(string \<Rightarrow> int) \<Rightarrow> Accumulator \<Rightarrow> string list \<Rightarrow> Accumulator" where
  "meter_chunks est acc ps = foldl (\<lambda>a p. AddDelta est a (fastDeltaContent p)) acc ps"

lemma meter_chunks_prompt: "acc_prompt (meter_chunks est acc ps) = acc_prompt acc"
  unfolding meter_chunks_def by (induction ps arbitrary: acc) (simp_all add: AddDelta_def)

lemma OnChunk_writes:
  "w_left wr = None \<Longrightarrow> OnChunk est (acc, wr) p =
     ((AddDelta est acc (fastDeltaContent p), (WriteHeader 200 wr)\<lparr>w_body := w_body wr @ [Raw (frame p)]\<rparr>), Inr ())"
  by (auto simp: OnChunk_def Write_def Let_def AddDelta_def WriteHeader_def frame_def)

lemma feed_OnChunk:
  assumes "w_left wr = None"
  shows "\<exists>wr'. feed (OnChunk est) (acc, wr) ps = ((meter_chunks est acc ps, wr'), Inr ()) \<and>
    w_body wr' = w_body wr @ map (Raw \<circ> frame) ps \<and> w_left wr' = None"
  using assms
proof (induction ps arbitrary: acc wr)
  case (Cons p ps)
  let ?wr = "(WriteHeader 200 wr)\<lparr>w_body := w_body wr @ [Raw (frame p)]\<rparr>"
  have "w_left ?wr = None" using Cons.prems by (simp add: WriteHeader_def)
  from Cons.IH [OF this] show ?case
    by (auto simp: OnChunk_writes [OF Cons.prems] meter_chunks_def)
qed (simp add: meter_chunks_def)


definition stream_body :: string where
  "stream_body = frame (chunk_with [] ''hello'' []) @ frame ''[DONE]''"

definition http_server :: "nat server" where
  "http_server = plain_server\<lparr>sv_upstream := HTTPUpstream_Chat plain_server
     (\<lambda>w ep k b. (w, Inr \<lparr>hr_status = 200, hr_body = stream_body, hr_fin = None\<rparr>)) ''u'' ''key''\<rparr>"

definition sample_call :: ChatCall where
  "sample_call = \<lparr>cc_RequestID = ''r1'', cc_UserID = ''u1'', cc_Model = ''m'', cc_Stream = True, cc_Body = ''b'',
     cc_UpstreamURL = [], cc_Provider = [], cc_Pricing = None\<rparr>"

lemma HTTPUpstream_server_irrelevant:
  assumes "sv_usage sv = sv_usage sv'" and "sv_mustJSON sv = sv_mustJSON sv'"
  shows "HTTPUpstream_Chat sv http ep k = HTTPUpstream_Chat sv' http ep k"
  unfolding HTTPUpstream_Chat_def assms ..


end
