(* ===== verification/Floats.thy ===== *)
theory Floats
  imports Complex_Main
begin

text \<open>
  \<open>float64\<close> arithmetic as exact rational arithmetic followed by a rounding \<open>fl\<close>: the components
  that compute ratios and scores take \<open>fl\<close> as an argument and rely on the laws of the locale
  \<open>float_rounding\<close> only. \<open>round64\<close> is the rounding of IEEE double precision for values in the
  normal range (53 significant bits, ties to even) and interprets the locale; overflow to
  infinity and subnormal numbers are outside the magnitudes the code handles.
\<close>

section \<open>What the code relies on\<close>

locale float_rounding =
  fixes fl :: "rat \<Rightarrow> rat"
  assumes fl_zero: "fl 0 = 0" and fl_one: "fl 1 = 1" and fl_neg: "fl (- x) = - fl x"
    and fl_mono: "x \<le> y \<Longrightarrow> fl x \<le> fl y" and fl_pos: "0 < n \<Longrightarrow> 0 < fl (of_int n)"
begin

lemma fl_nonneg: "0 \<le> x \<Longrightarrow> 0 \<le> fl x"
  using fl_mono [of 0 x] by (simp add: fl_zero)

lemma fl_le_one: "x \<le> 1 \<Longrightarrow> fl x \<le> 1"
  using fl_mono [of x 1] by (simp add: fl_one)

end

interpretation exact: float_rounding id
  by unfold_locales simp_all

section \<open>Double precision\<close>

definition round_even :: "rat \<Rightarrow> int" where
  "round_even r =
     (let f = \<lfloor>r\<rfloor>; d = r - of_int f
      in if d < 1 / 2 \<or> d = 1 / 2 \<and> even f then f else f + 1)"

definition binade :: "rat \<Rightarrow> int" where
  "binade x = \<lfloor>log 2 (real_of_rat x)\<rfloor>"

definition round_pos :: "rat \<Rightarrow> rat" where
  "round_pos x = of_int (round_even (x / 2 powi (binade x - 52))) * 2 powi (binade x - 52)"

definition round64 :: "rat \<Rightarrow> rat" where
  "round64 x = (if x = 0 then 0 else if x < 0 then - round_pos (- x) else round_pos x)"

lemma round_even_of_int [simp]: "round_even (of_int n) = n"
  by (simp add: round_even_def)

lemma round_even_bounds: "\<lfloor>r\<rfloor> \<le> round_even r" "round_even r \<le> \<lfloor>r\<rfloor> + 1"
  by (simp_all add: round_even_def Let_def)

lemma round_even_mono:
  assumes "r \<le> s"
  shows "round_even r \<le> round_even s"
proof (cases "\<lfloor>r\<rfloor> = \<lfloor>s\<rfloor>")
  case True
  with assms show ?thesis by (auto simp: round_even_def Let_def)
next
  case False
  with assms have "\<lfloor>r\<rfloor> + 1 \<le> \<lfloor>s\<rfloor>" using floor_mono [of r s] by linarith
  with round_even_bounds [of r] round_even_bounds [of s] show ?thesis by linarith
qed

lemma round_even_ge: "of_int n \<le> r \<Longrightarrow> n \<le> round_even r"
  using round_even_mono [of "of_int n" r] by simp

lemma round_even_le: "r \<le> of_int n \<Longrightarrow> round_even r \<le> n"
  using round_even_mono [of r "of_int n"] by simp

lemma binade_bounds:
  assumes "0 < x"
  shows "2 powi binade x \<le> x" and "x < 2 powi (binade x + 1)"
proof -
  have pos: "0 < real_of_rat x" using assms by simp
  have le: "real_of_int (binade x) \<le> log 2 (real_of_rat x)"
    and lt: "log 2 (real_of_rat x) < real_of_int (binade x + 1)"
    by (simp_all add: binade_def)
  have pw: "real_of_rat (2 powi k) = 2 powr real_of_int k" for k :: int
    by (simp add: power_int_def powr_int of_rat_power of_rat_inverse inverse_eq_divide powr_minus powr_realpow of_rat_divide power_inverse power_one_over)
  have "real_of_rat (2 powi binade x) \<le> real_of_rat x"
    using le pos by (simp only: pw) (simp add: le_log_iff)
  then show "2 powi binade x \<le> x" by (simp add: of_rat_less_eq)
  have "real_of_rat x < real_of_rat (2 powi (binade x + 1))"
    using lt pos by (simp only: pw) (simp add: log_less_iff)
  then show "x < 2 powi (binade x + 1)" by (simp only: of_rat_less)
qed

lemma powi_split: "(2 :: rat) powi (k + int n) = 2 ^ n * 2 powi k"
  by (simp add: power_int_add mult.commute)

lemma round_pos_bounds:
  assumes "0 < x"
  shows "2 powi binade x \<le> round_pos x" and "round_pos x \<le> 2 powi (binade x + 1)"
proof -
  let ?u = "2 powi (binade x - 52) :: rat"
  have u: "0 < ?u" by simp
  have b: "2 powi binade x = 2 ^ 52 * ?u" "2 powi (binade x + 1) = 2 ^ 53 * ?u"
    using powi_split [of "binade x - 52" 52] powi_split [of "binade x - 52" 53] by (simp_all add: add.commute)
  have "of_int (2 ^ 52) \<le> x / ?u" "x / ?u \<le> of_int (2 ^ 53)"
    using binade_bounds [OF assms] u unfolding b by (simp_all add: le_divide_eq divide_le_eq)
  then have "2 ^ 52 \<le> round_even (x / ?u)" "round_even (x / ?u) \<le> 2 ^ 53"
    by (simp_all only: round_even_ge round_even_le)
  then have "of_int (2 ^ 52) \<le> (of_int (round_even (x / ?u)) :: rat)"
    "(of_int (round_even (x / ?u)) :: rat) \<le> of_int (2 ^ 53)"
    by (simp_all only: of_int_le_iff)
  with u show "2 powi binade x \<le> round_pos x" "round_pos x \<le> 2 powi (binade x + 1)"
    unfolding b round_pos_def by (simp_all only: mult_le_cancel_right_pos) simp_all
qed

lemma round_pos_mono:
  assumes "0 < x" and "x \<le> y"
  shows "round_pos x \<le> round_pos y"
proof (cases "binade x = binade y")
  case True
  with assms show ?thesis
    by (auto simp: round_pos_def intro!: mult_right_mono round_even_mono divide_right_mono)
next
  case False
  have "binade x \<le> binade y"
    using assms by (simp add: binade_def floor_mono of_rat_less_eq)
  with False have "(2 :: rat) powi (binade x + 1) \<le> 2 powi binade y"
    by (intro power_int_increasing) simp_all
  with round_pos_bounds(2) [of x] round_pos_bounds(1) [of y] assms show ?thesis by linarith
qed

interpretation ieee: float_rounding round64
proof unfold_locales
  have one: "binade 1 = 0" by (simp add: binade_def)
  have "(1 :: rat) / 2 powi (- 52) = of_int (2 ^ 52)"
    by (simp add: power_int_minus)
  then have "round_pos 1 = of_int (2 ^ 52) * 2 powi (- 52)"
    by (simp only: round_pos_def one round_even_of_int diff_0)
  then show "round64 1 = 1"
    by (simp add: round64_def power_int_minus)
next
  have pos: "0 < round_pos x" if "0 < x" for x
    using round_pos_bounds(1) [OF that] zero_less_power_int [of "2 :: rat" "binade x"] by linarith
  show "round64 x \<le> round64 y" if "x \<le> y" for x y
    using that pos [of x] pos [of y] pos [of "- x"] pos [of "- y"]
      round_pos_mono [of x y] round_pos_mono [of "- y" "- x"]
    by (auto simp: round64_def)
  show "0 < round64 (of_int n)" if "0 < n" for n
    using that pos [of "of_int n"] by (simp add: round64_def)
qed (simp_all add: round64_def)

end
