(* ===== verification/Auto_Router.thy ===== *)
theory Auto_Router
  imports Gateway Floats
begin

text \<open>
  The automatic model picker (\<open>internal/router/autorouter.go\<close>) and the part of
  \<open>internal/router/router.go\<close> that turns a configuration into a routing snapshot. The file
  system, the YAML decoder and the environment are arguments. Scores are rationals rounded by
  \<open>fl\<close> after every \<open>float64\<close> operation (\<open>Floats\<close>). A snapshot is the list of its routes, one for
  each model.
\<close>

section \<open>The picker\<close>

record AutoCandidate =
  ac_Model :: string
  ac_InputPer1M :: int
  ac_OutputPer1M :: int

record LocalAutoRouter =
  lr_pool :: "AutoCandidate list"
  lr_costQuality :: int

definition NewLocalAutoRouter :: "AutoCandidate list \<Rightarrow> int \<Rightarrow> LocalAutoRouter" where
  "NewLocalAutoRouter pool costQuality =
     (let cq1 = (if costQuality < 0 then 0 else costQuality);
          cq2 = (if cq1 > 10 then 10 else cq1);
          pool1 = (if pool = [] then [\<lparr>ac_Model = ''gpt-4o-mini'', ac_InputPer1M = 150000, ac_OutputPer1M = 600000\<rparr>]
                   else pool)
      in \<lparr>lr_pool = pool1, lr_costQuality = cq2\<rparr>)"

definition reasoningHints :: "string list" where
  "reasoningHints =
     [''reason'', ''explain'', ''analysis'', ''analyze'', ''debug'', ''optimize'',
      ''refactor'', ''compare'', ''synthesize'', ''evaluate'', ''prove'', ''derive'',
      ''design'', ''architecture'', ''strategy'', ''math'', ''calculus'', ''code'',
      ''algorithm'', ''complex'']"

text \<open>
  \<open>strings.ToLower\<close> as far as a search for ASCII text can tell: upper-case ASCII letters, and
  the two other characters whose lower case is an ASCII letter, the Kelvin sign and the
  capital I with a dot. All other characters have a lower case outside ASCII, and stay.
\<close>

definition lower_char :: "char \<Rightarrow> char" where
  "lower_char c = (let n = (of_char c :: nat) in if 65 \<le> n \<and> n \<le> 90 then char_of (n + 32) else c)"

fun ToLower :: "string \<Rightarrow> string" where
  "ToLower [] = []"
| "ToLower (a # b # c # s) =
     (if map of_char [a, b, c] = [0xE2, 0x84, 0xAA :: nat] then CHR ''k'' # ToLower s
      else if map of_char [a, b] = [0xC4, 0xB0 :: nat] then CHR ''i'' # ToLower (c # s)
      else lower_char a # ToLower (b # c # s))"
| "ToLower [a, b] =
     (if map of_char [a, b] = [0xC4, 0xB0 :: nat] then [CHR ''i''] else [lower_char a, lower_char b])"
| "ToLower [a] = [lower_char a]"

definition hint_hits :: "string \<Rightarrow> nat" where
  "hint_hits c = length (filter (\<lambda>h. Index h (ToLower c) \<noteq> None) reasoningHints)"

definition min_float :: "rat \<Rightarrow> rat \<Rightarrow> rat" where
  "min_float a b = (if a < b then a else b)"

definition text_contents :: "ChatMessage list \<Rightarrow> string list" where
  "text_contents ms = concat (map (\<lambda>m. case msg_Content m of JStr c \<Rightarrow> [c] | _ \<Rightarrow> []) ms)"

definition complexity :: "(rat \<Rightarrow> rat) \<Rightarrow> ChatCompletionRequest \<Rightarrow> rat" where
  "complexity fl req =
     (let texts = text_contents (rq_Messages req);
          chars = sum_list (map length texts);
          hintHits = sum_list (map hint_hits texts);
          hasTool = list_ex (\<lambda>m. msg_Role m = ''tool'' \<or> msg_Role m = ''function'') (rq_Messages req);
          longOutput = (case rq_MaxTokens req of None \<Rightarrow> False | Some n \<Rightarrow> n > 2000);
          s1 = (if chars > 0 then fl (0 + fl (fl (4 / 10) * min_float (fl (fl (of_nat chars) / 10000)) 1)) else 0);
          s2 = fl (s1 + fl (fl (3 / 10) * min_float (fl (fl (of_nat hintHits) / 3)) 1));
          s3 = (if hasTool then fl (s2 + fl (5 / 10)) else s2);
          s4 = (if longOutput then fl (s3 + fl (1 / 10)) else s3)
      in if s4 > 1 then 1 else s4)"

definition cheapest :: "AutoCandidate list \<Rightarrow> AutoCandidate" where
  "cheapest pool = foldl (\<lambda>best c. if ac_OutputPer1M c < ac_OutputPer1M best then c else best) (hd pool) (tl pool)"

definition mostCapable :: "AutoCandidate list \<Rightarrow> AutoCandidate" where
  "mostCapable pool = foldl (\<lambda>best c. if ac_OutputPer1M c > ac_OutputPer1M best then c else best) (hd pool) (tl pool)"

definition auto_threshold :: "(rat \<Rightarrow> rat) \<Rightarrow> int \<Rightarrow> rat" where
  "auto_threshold fl costQuality = fl (fl (fl (of_int (10 - costQuality)) / 10) * fl (9 / 10))"

definition Pick :: "(rat \<Rightarrow> rat) \<Rightarrow> LocalAutoRouter \<Rightarrow> ChatCompletionRequest \<Rightarrow> string" where
  "Pick fl r req =
     (if length (lr_pool r) = 1 then ac_Model (lr_pool r ! 0)
      else if lr_costQuality r = 0 then ac_Model (mostCapable (lr_pool r))
      else if lr_costQuality r = 10 then ac_Model (cheapest (lr_pool r))
      else if complexity fl req \<ge> auto_threshold fl (lr_costQuality r) then ac_Model (mostCapable (lr_pool r))
      else ac_Model (cheapest (lr_pool r)))"

section \<open>Configuration\<close>

record ChannelConfig =
  cf_ID :: string
  cf_Name :: string
  cf_BaseURL :: string
  cf_KeyEnv :: string
  cf_InputPer1M :: int
  cf_OutputPer1M :: int
  cf_Weight :: int

record ModelConfig =
  mc_Model :: string
  mc_Channels :: "string list"

record AutoRouterConfig =
  ar_CostQuality :: int
  ar_Models :: "string list"

record Config =
  cfg_Channels :: "ChannelConfig list"
  cfg_Models :: "ModelConfig list"
  cfg_AutoRouter :: "AutoRouterConfig option"

datatype config_error =
    ReadFailed | DecodeFailed | NoChannels | NoModels
  | EnvNotSet string string | BaseURLRequired string
  | ModelWithoutChannels string | ChannelUndefined string string | AutoModelUndefined string

text \<open>\<open>read_file\<close> and \<open>decode\<close> stand for \<open>os.ReadFile\<close> and \<open>yaml.Unmarshal\<close>.\<close>

definition LoadConfig :: "(string \<Rightarrow> string option) \<Rightarrow> (string \<Rightarrow> Config option) \<Rightarrow> string \<Rightarrow> config_error + Config" where
  "LoadConfig read_file decode path =
     (case read_file path of
        None \<Rightarrow> Inl ReadFailed
      | Some data \<Rightarrow>
          (case decode data of
             None \<Rightarrow> Inl DecodeFailed
           | Some cfg \<Rightarrow>
               if cfg_Channels cfg = [] then Inl NoChannels
               else if cfg_Models cfg = [] then Inl NoModels
               else Inr cfg))"

text \<open>The environment gives the empty string for a variable that is not set.\<close>

fun build_channels ::
  "(string \<Rightarrow> string) \<Rightarrow> ChannelConfig list \<Rightarrow> (string \<rightharpoonup> Channel) \<Rightarrow> config_error + (string \<rightharpoonup> Channel)" where
  "build_channels env [] byID = Inr byID"
| "build_channels env (cc # ccs) byID =
     (let key = env (cf_KeyEnv cc)
      in if key = [] then Inl (EnvNotSet (cf_ID cc) (cf_KeyEnv cc))
         else if cf_BaseURL cc = [] then Inl (BaseURLRequired (cf_ID cc))
         else build_channels env ccs (byID(cf_ID cc \<mapsto>
                \<lparr>ch_ID = cf_ID cc, ch_Name = cf_Name cc, ch_BaseURL = cf_BaseURL cc, ch_Key = key,
                 ch_InputPer1M = cf_InputPer1M cc, ch_OutputPer1M = cf_OutputPer1M cc, ch_Weight = cf_Weight cc\<rparr>)))"

fun build_specs ::
  "string \<Rightarrow> (string \<rightharpoonup> Channel) \<Rightarrow> string list \<Rightarrow> config_error + ChannelSpec list" where
  "build_specs model byID [] = Inr []"
| "build_specs model byID (cid # cids) =
     (case byID cid of
        None \<Rightarrow> Inl (ChannelUndefined model cid)
      | Some ch \<Rightarrow>
          (case build_specs model byID cids of
             Inl e \<Rightarrow> Inl e
           | Inr specs \<Rightarrow> Inr (\<lparr>cs_Channel = ch, cs_Healthy = True, cs_BreakerOpen = False\<rparr> # specs)))"

definition put_route :: "ModelRoute \<Rightarrow> ModelRoute list \<Rightarrow> ModelRoute list" where
  "put_route route models = filter (\<lambda>r. mr_Model r \<noteq> mr_Model route) models @ [route]"

fun build_models ::
  "(string \<rightharpoonup> Channel) \<Rightarrow> ModelConfig list \<Rightarrow> ModelRoute list \<Rightarrow> config_error + ModelRoute list" where
  "build_models byID [] models = Inr models"
| "build_models byID (mc # mcs) models =
     (if mc_Channels mc = [] then Inl (ModelWithoutChannels (mc_Model mc))
      else case build_specs (mc_Model mc) byID (mc_Channels mc) of
             Inl e \<Rightarrow> Inl e
           | Inr specs \<Rightarrow> build_models byID mcs (put_route \<lparr>mr_Model = mc_Model mc, mr_Channels = specs\<rparr> models))"

definition BuildSnapshot :: "(string \<Rightarrow> string) \<Rightarrow> Config \<Rightarrow> config_error + ModelRoute list" where
  "BuildSnapshot env cfg =
     (case build_channels env (cfg_Channels cfg) (\<lambda>_. None) of
        Inl e \<Rightarrow> Inl e
      | Inr byID \<Rightarrow> build_models byID (cfg_Models cfg) [])"

definition pool_price :: "(Channel \<Rightarrow> int) \<Rightarrow> ModelRoute \<Rightarrow> int" where
  "pool_price price route =
     foldl (\<lambda>best c. if price (cs_Channel c) < best then price (cs_Channel c) else best) (2 ^ 62 - 1) (mr_Channels route)"

fun build_pool :: "ModelRoute list \<Rightarrow> string list \<Rightarrow> config_error + AutoCandidate list" where
  "build_pool snap [] = Inr []"
| "build_pool snap (m # ms) =
     (case find (\<lambda>r. mr_Model r = m) snap of
        None \<Rightarrow> Inl (AutoModelUndefined m)
      | Some route \<Rightarrow>
          (case build_pool snap ms of
             Inl e \<Rightarrow> Inl e
           | Inr pool \<Rightarrow> Inr (\<lparr>ac_Model = m, ac_InputPer1M = pool_price ch_InputPer1M route,
                              ac_OutputPer1M = pool_price ch_OutputPer1M route\<rparr> # pool)))"

definition BuildAutoRouter :: "Config \<Rightarrow> ModelRoute list \<Rightarrow> config_error + LocalAutoRouter option" where
  "BuildAutoRouter cfg snap =
     (case cfg_AutoRouter cfg of
        None \<Rightarrow> Inr None
      | Some ar \<Rightarrow>
          if ar_Models ar = [] then Inr None
          else case build_pool snap (ar_Models ar) of
                 Inl e \<Rightarrow> Inl e
               | Inr pool \<Rightarrow> Inr (Some (NewLocalAutoRouter pool (ar_CostQuality ar))))"

definition Channels :: "ModelRoute list \<Rightarrow> string list" where
  "Channels snap = remdups (snapshot_ids snap)"
section \<open>The picked model\<close>

lemma foldl_best:
  fixes price :: "'a \<Rightarrow> int"
  defines "m \<equiv> foldl (\<lambda>best c. if price c < price best then c else best)"
  shows "m b cs \<in> insert b (set cs) \<and> price (m b cs) \<le> price b \<and> (\<forall>c\<in>set cs. price (m b cs) \<le> price c)"
proof (induction cs arbitrary: b)
  case (Cons c cs)
  show ?case using Cons [of "if price c < price b then c else b"] by (auto simp: m_def)
qed (simp add: m_def)

lemma cheapest_best:
  assumes "pool \<noteq> []"
  shows "cheapest pool \<in> set pool \<and> (\<forall>c\<in>set pool. ac_OutputPer1M (cheapest pool) \<le> ac_OutputPer1M c)"
  using foldl_best [where price = ac_OutputPer1M and b = "hd pool" and cs = "tl pool"] assms
  by (cases pool) (auto simp: cheapest_def)

lemma mostCapable_best:
  assumes "pool \<noteq> []"
  shows "mostCapable pool \<in> set pool \<and> (\<forall>c\<in>set pool. ac_OutputPer1M c \<le> ac_OutputPer1M (mostCapable pool))"
  using foldl_best [where price = "\<lambda>c. - ac_OutputPer1M c" and b = "hd pool" and cs = "tl pool"] assms
  by (cases pool) (auto simp: mostCapable_def)

lemma NewLocalAutoRouter_pool: "lr_pool (NewLocalAutoRouter pool cq) \<noteq> []"
  "pool \<noteq> [] \<Longrightarrow> lr_pool (NewLocalAutoRouter pool cq) = pool"
  "lr_costQuality (NewLocalAutoRouter pool cq) = max 0 (min 10 cq)"
  by (simp_all add: NewLocalAutoRouter_def Let_def)

lemma Pick_is_extreme:
  assumes "lr_pool r \<noteq> []"
  shows "Pick fl r req \<in> {ac_Model (cheapest (lr_pool r)), ac_Model (mostCapable (lr_pool r))}"
proof (cases "length (lr_pool r) = 1")
  case True
  then obtain c where "lr_pool r = [c]" by (auto simp: length_Suc_conv)
  then show ?thesis by (simp add: Pick_def cheapest_def)
qed (simp add: Pick_def)

definition dearest :: "AutoCandidate list \<Rightarrow> AutoCandidate \<Rightarrow> bool" where
  "dearest pool c \<longleftrightarrow> (\<forall>d\<in>set pool. ac_OutputPer1M d \<le> ac_OutputPer1M c)"

definition lowest :: "AutoCandidate list \<Rightarrow> AutoCandidate \<Rightarrow> bool" where
  "lowest pool c \<longleftrightarrow> (\<forall>d\<in>set pool. ac_OutputPer1M c \<le> ac_OutputPer1M d)"

text \<open>Theorem: The picker answers with a model of its pool, and only ever with an extreme of it. The
  model it returns belongs to a candidate whose output price is the highest or the lowest of
  the pool; with the dial at 0 or below it is a highest-priced one, at 10 or above a
  lowest-priced one, for every request.\<close>

theorem auto_pick_is_an_extreme_of_the_pool:
  assumes "NewLocalAutoRouter pool cq = r"
  shows "\<exists>c\<in>set (lr_pool r). Pick fl r req = ac_Model c \<and> (dearest (lr_pool r) c \<or> lowest (lr_pool r) c) \<and>
    (cq \<le> 0 \<longrightarrow> dearest (lr_pool r) c) \<and> (10 \<le> cq \<longrightarrow> lowest (lr_pool r) c)"
proof -
  have ne: "lr_pool r \<noteq> []" by (simp add: assms [symmetric] NewLocalAutoRouter_pool)
  note best = cheapest_best [OF ne] mostCapable_best [OF ne]
  have cq: "cq \<le> 0 \<Longrightarrow> lr_costQuality r = 0" "10 \<le> cq \<Longrightarrow> lr_costQuality r = 10"
    by (simp_all add: assms [symmetric] NewLocalAutoRouter_pool)
  consider (one) c where "lr_pool r = [c]" | (low) "length (lr_pool r) \<noteq> 1" "cq \<le> 0"
    | (high) "length (lr_pool r) \<noteq> 1" "10 \<le> cq" | (mid) "length (lr_pool r) \<noteq> 1" "0 < cq" "cq < 10"
    by (fastforce simp: length_Suc_conv)
  then show ?thesis
  proof cases
    case one
    then show ?thesis by (auto simp: Pick_def dearest_def lowest_def)
  next
    case low
    then show ?thesis using best(2) cq by (intro bexI [of _ "mostCapable (lr_pool r)"]) (auto simp: Pick_def dearest_def)
  next
    case high
    then show ?thesis using best(1) cq by (intro bexI [of _ "cheapest (lr_pool r)"]) (auto simp: Pick_def lowest_def)
  next
    case mid
    then show ?thesis using Pick_is_extreme [OF ne, of fl req] best by (auto simp: dearest_def lowest_def)
  qed
qed

definition two_models :: "AutoCandidate list" where
  "two_models = [\<lparr>ac_Model = ''big'', ac_InputPer1M = 5, ac_OutputPer1M = 15\<rparr>,
     \<lparr>ac_Model = ''small'', ac_InputPer1M = 1, ac_OutputPer1M = 2\<rparr>]"

definition ask :: "string \<Rightarrow> ChatCompletionRequest" where
  "ask t = \<lparr>rq_Model = ''auto'', rq_Messages = [\<lparr>msg_Role = ''user'', msg_Content = JStr t\<rparr>],
     rq_Stream = False, rq_MaxTokens = None\<rparr>"

theorem auto_pick_is_an_extreme_of_the_pool_witness:
  "Pick id (NewLocalAutoRouter two_models (- 3)) (ask ''hi'') = ''big''"
  using auto_pick_is_an_extreme_of_the_pool [of two_models "- 3", OF refl, of id "ask ''hi''"]
  by (auto simp: two_models_def NewLocalAutoRouter_def dearest_def)

section \<open>The dial\<close>

context float_rounding
begin

lemma min_float_nonneg: "0 \<le> x \<Longrightarrow> 0 \<le> min_float x 1"
  by (simp add: min_float_def)

lemmas score_nonneg = fl_nonneg add_nonneg_nonneg mult_nonneg_nonneg min_float_nonneg divide_nonneg_pos

lemma complexity_range: "0 \<le> complexity fl req \<and> complexity fl req \<le> 1"
  by (auto simp: complexity_def Let_def split: option.split intro!: score_nonneg)

lemma auto_threshold_antimono: "c \<le> d \<Longrightarrow> auto_threshold fl d \<le> auto_threshold fl c"
  unfolding auto_threshold_def
  by (intro fl_mono mult_right_mono divide_right_mono fl_nonneg) simp_all

lemma Pick_dial:
  assumes "0 < c" "c \<le> d" "d < 10"
    and "Pick fl \<lparr>lr_pool = pool, lr_costQuality = c\<rparr> req = ac_Model (mostCapable pool)"
  shows "Pick fl \<lparr>lr_pool = pool, lr_costQuality = d\<rparr> req = ac_Model (mostCapable pool)"
  using assms auto_threshold_antimono [OF assms(2)] by (simp add: Pick_def split: if_splits)

end

text \<open>Theorem: Turning the dial from quality to cost sends more requests to the expensive model.
  The configuration documents 0 as the most capable model and 10 as the cheapest; between 1
  and 9 a request that gets the most capable model at one setting gets it at every higher
  setting too, and only the step to 10 goes the other way. The score that decides is always
  between 0 and 1.\<close>

theorem auto_dial_runs_backwards:
  assumes "float_rounding fl" and "0 < c" and "c \<le> d" and "d < 10"
    and "Pick fl (NewLocalAutoRouter pool c) req = ac_Model (mostCapable pool)" and "pool \<noteq> []"
  shows "Pick fl (NewLocalAutoRouter pool d) req = ac_Model (mostCapable pool) \<and>
    Pick fl (NewLocalAutoRouter pool 10) req = ac_Model (cheapest pool) \<and>
    0 \<le> complexity fl req \<and> complexity fl req \<le> 1"
proof -
  have new: "NewLocalAutoRouter pool e = \<lparr>lr_pool = pool, lr_costQuality = e\<rparr>" if "0 < e" "e \<le> 10" for e
    using that assms(6) by (simp add: NewLocalAutoRouter_def)
  have "Pick fl (NewLocalAutoRouter pool 10) req = ac_Model (cheapest pool)"
  proof (cases "length pool = 1")
    case True
    then obtain x where "pool = [x]" by (auto simp: length_Suc_conv)
    then show ?thesis using new [of 10] by (simp add: Pick_def cheapest_def)
  qed (simp add: new Pick_def)
  then show ?thesis
    using float_rounding.Pick_dial [OF assms(1-4), of pool req] float_rounding.complexity_range [OF assms(1), of req] assms(2-5)
    by (simp add: new)
qed

theorem auto_dial_runs_backwards_witness:
  "Pick id (NewLocalAutoRouter two_models 9) (ask ''please explain'') = ''big'' \<and>
   Pick id (NewLocalAutoRouter two_models 10) (ask ''please explain'') = ''small''"
proof -
  have "Pick id (NewLocalAutoRouter two_models 9) (ask ''please explain'') = ac_Model (mostCapable two_models)"
    by code_simp
  from auto_dial_runs_backwards [OF exact.float_rounding_axioms _ _ _ this, of 9]
  show ?thesis by (simp add: two_models_def cheapest_def mostCapable_def)
qed

section \<open>A configuration that loads serves every model\<close>

lemma Select_members:
  assumes "mr_Channels route \<noteq> []"
  shows "\<exists>dec. Select rnd route = Inr dec \<and>
    set (dc_Primary dec # dc_Fallbacks dec) \<subseteq> cs_Channel ` set (mr_Channels route)"
proof -
  let ?cs = "mr_Channels route"
  define st where "st = filter is_stable ?cs"
  define stable where "stable = (if st = [] then ?cs else st)"
  define unstable where "unstable = (if st = [] then [] else filter (\<lambda>c. \<not> is_stable c) ?cs)"
  define idx where "idx = weightedPick rnd (map spec_weight stable) (sum_list (map spec_weight stable))"
  have ne: "stable \<noteq> []" and sub: "set stable \<subseteq> set ?cs" "set unstable \<subseteq> set ?cs"
    using assms by (auto simp: stable_def unstable_def st_def)
  have "idx < length stable"
    using weightedPick_bound [of "map spec_weight stable"] ne by (simp add: idx_def)
  then have "stable ! idx \<in> set stable" by simp
  moreover have "Select rnd route = Inr \<lparr>dc_Primary = cs_Channel (stable ! idx),
      dc_Fallbacks = map cs_Channel (take idx stable @ drop (idx + 1) stable @ unstable), dc_Model = mr_Model route\<rparr>"
    using ne by (auto simp: Select_def Let_def st_def stable_def unstable_def idx_def)
  ultimately show ?thesis
    using sub by (fastforce dest!: in_set_takeD in_set_dropD)
qed

lemma build_channels_sound:
  assumes "build_channels env ccs byID = Inr byID'"
    and "\<And>i ch. byID i = Some ch \<Longrightarrow> ch_ID ch = i \<and> ch_Key ch \<noteq> [] \<and> ch_BaseURL ch \<noteq> []"
    and "byID' i = Some ch"
  shows "ch_ID ch = i \<and> ch_Key ch \<noteq> [] \<and> ch_BaseURL ch \<noteq> []"
  using assms
proof (induction env ccs byID rule: build_channels.induct)
  case (2 env cc ccs byID)
  show ?case
    by (rule "2.IH" [OF refl]) (use "2.prems" in \<open>auto simp: Let_def fun_upd_def split: if_splits\<close>)
qed auto

lemma build_specs_sound:
  "build_specs m byID cids = Inr specs \<Longrightarrow> map (\<lambda>c. byID c) cids = map (\<lambda>s. Some (cs_Channel s)) specs"
  by (induction m byID cids arbitrary: specs rule: build_specs.induct) (auto split: option.splits sum.splits)

definition route_for :: "(string \<rightharpoonup> Channel) \<Rightarrow> ModelConfig list \<Rightarrow> ModelRoute \<Rightarrow> bool" where
  "route_for byID mcs r \<longleftrightarrow> mr_Channels r \<noteq> [] \<and>
     (\<exists>mc\<in>set mcs. mc_Model mc = mr_Model r \<and> map byID (mc_Channels mc) = map (\<lambda>s. Some (cs_Channel s)) (mr_Channels r))"

lemma build_models_sound:
  assumes "build_models byID mcs models = Inr snap" and "set mcs \<subseteq> set all" and "\<forall>r\<in>set models. route_for byID all r"
    and "distinct (map mr_Model models)"
  shows "(\<forall>r\<in>set snap. route_for byID all r) \<and> distinct (map mr_Model snap) \<and>
    mr_Model ` set snap = mr_Model ` set models \<union> mc_Model ` set mcs"
  using assms
proof (induction byID mcs models rule: build_models.induct)
  case (2 byID mc mcs models)
  then obtain specs where ne: "mc_Channels mc \<noteq> []" and sp: "build_specs (mc_Model mc) byID (mc_Channels mc) = Inr specs"
    by (auto split: if_splits sum.splits)
  let ?r = "\<lparr>mr_Model = mc_Model mc, mr_Channels = specs\<rparr>"
  have "specs \<noteq> []" using build_specs_sound [OF sp] ne by auto
  then have "route_for byID all ?r"
    using build_specs_sound [OF sp] "2.prems"(2) by (auto simp: route_for_def)
  moreover have "distinct (map mr_Model (put_route ?r models))"
    using "2.prems"(4) by (auto simp: put_route_def distinct_map_filter)
  moreover have "mr_Model ` set (put_route ?r models) = insert (mc_Model mc) (mr_Model ` set models)"
    by (auto simp: put_route_def)
  ultimately show ?case
    using "2.IH" [OF ne sp] "2.prems" ne sp by (auto simp: put_route_def)
qed auto
text \<open>
  The routers a gateway runs with: requests in any interleaving ask breakers and report
  outcomes.
\<close>

inductive serving :: "ModelRoute list \<Rightarrow> Router \<Rightarrow> bool" for snap where
  start: "serving snap (NewRouterWithAuto now snap)"
| asked: "serving snap r \<Longrightarrow> rt_breakers r i = Some b \<Longrightarrow>
    serving snap (r\<lparr>rt_breakers := (rt_breakers r)(i \<mapsto> fst (Allow now b))\<rparr>)"
| reported: "serving snap r \<Longrightarrow> serving snap (RecordOutcome now i ok r)"

lemma serving_shape:
  assumes "serving snap r"
  shows "rt_models r = map_of (map (\<lambda>r. (mr_Model r, r)) snap) \<and> dom (rt_breakers r) = set (snapshot_ids snap)"
  using assms
proof induction
  case (start now)
  then show ?case by (auto simp: NewRouterWithAuto_def dom_def)
next
  case (asked r i b now)
  then show ?case by (auto simp: dom_def simp flip: asked.IH [THEN conjunct2])
next
  case (reported r now i ok)
  then show ?case
    by (auto simp: RecordOutcome_def dom_def split: option.splits simp flip: reported.IH [THEN conjunct2])
qed

lemma Chat_loop_serving:
  "serving snap r \<Longrightarrow> serving snap (fst (Chat_loop client now r u chain lastErr))"
proof (induction chain arbitrary: r u lastErr)
  case (Cons ch chain)
  define p where "p = (case rt_breakers r (ch_ID ch) of
      None \<Rightarrow> (True, r)
    | Some b \<Rightarrow> let (b', a) = Allow now b in (a, r\<lparr>rt_breakers := (rt_breakers r)(ch_ID ch \<mapsto> b')\<rparr>))"
  have "serving snap (snd p)"
    using Cons.prems serving.asked [OF Cons.prems, of "ch_ID ch" _ now]
    by (auto simp: p_def split: option.splits prod.splits)
  then have rep: "serving snap (RecordOutcome now (ch_ID ch) ok (snd p))" for ok
    by (rule serving.reported)
  show ?case
    using rep Cons.IH by (cases "client u ch"; cases "snd (client u ch)") (simp_all add: p_def [symmetric] split_beta Let_def)
qed simp

lemma snapshot_sound:
  assumes "BuildSnapshot env cfg = Inr snap"
  obtains byID where "\<forall>r\<in>set snap. route_for byID (cfg_Models cfg) r"
    "mr_Model ` set snap = mc_Model ` set (cfg_Models cfg)" "distinct (map mr_Model snap)"
    "\<And>i ch. byID i = Some ch \<Longrightarrow> ch_ID ch = i \<and> ch_Key ch \<noteq> [] \<and> ch_BaseURL ch \<noteq> []"
proof -
  from assms obtain byID where b: "build_channels env (cfg_Channels cfg) (\<lambda>_. None) = Inr byID"
      "build_models byID (cfg_Models cfg) [] = Inr snap"
    by (auto simp: BuildSnapshot_def split: sum.splits)
  show ?thesis
  proof (rule that)
    show "\<forall>r\<in>set snap. route_for byID (cfg_Models cfg) r" "distinct (map mr_Model snap)"
      "mr_Model ` set snap = mc_Model ` set (cfg_Models cfg)"
      using build_models_sound [OF b(2), of "cfg_Models cfg"] by simp_all
    show "ch_ID ch = i \<and> ch_Key ch \<noteq> [] \<and> ch_BaseURL ch \<noteq> []" if "byID i = Some ch" for i ch
      by (rule build_channels_sound [OF b(1) _ that]) simp
  qed
qed

lemma Route_known:
  assumes "serving snap r" and "route \<in> set snap" and "distinct (map mr_Model snap)" and "mr_Channels route \<noteq> []"
  shows "\<exists>dec. Route rnd now r (mr_Model route) = Inr dec \<and>
    set (dc_Primary dec # dc_Fallbacks dec) \<subseteq> cs_Channel ` set (mr_Channels route)"
proof -
  note shape = serving_shape [OF assms(1)]
  have "rt_models r (mr_Model route) = Some route"
    using shape assms(2,3) by (simp add: map_of_eq_Some_iff comp_def)
  moreover have "\<not> list_ex (\<lambda>c. rt_breakers r (ch_ID (cs_Channel c)) = None) (mr_Channels route)"
    using shape assms(2) by (force simp: list_ex_iff snapshot_ids_def)
  ultimately have "Route rnd now r (mr_Model route) =
      Select rnd \<lparr>mr_Model = mr_Model route, mr_Channels = map (live_spec now r) (mr_Channels route)\<rparr>"
    by (simp add: Route_def)
  moreover have "cs_Channel ` live_spec now r ` set (mr_Channels route) = cs_Channel ` set (mr_Channels route)"
    by (simp add: image_image live_spec_def)
  ultimately show ?thesis
    using Select_members [of "\<lparr>mr_Model = mr_Model route, mr_Channels = map (live_spec now r) (mr_Channels route)\<rparr>" rnd] assms(4)
    by simp
qed

text \<open>Theorem: A configuration that loads can serve every model it lists. At any time, after
  requests and outcomes in any interleaving, routing a configured model yields a decision
  (it neither fails nor panics), and every channel of the decision is one the configuration
  lists for that model, with a key and a base URL.\<close>

theorem configured_models_are_served:
  assumes "BuildSnapshot env cfg = Inr snap" and "serving snap r" and "mc \<in> set (cfg_Models cfg)"
  shows "\<exists>dec. Route rnd now r (mc_Model mc) = Inr dec \<and>
    (\<forall>ch\<in>set (dc_Primary dec # dc_Fallbacks dec). ch_Key ch \<noteq> [] \<and> ch_BaseURL ch \<noteq> [] \<and>
       (\<exists>mc'\<in>set (cfg_Models cfg). mc_Model mc' = mc_Model mc \<and> ch_ID ch \<in> set (mc_Channels mc')))"
proof -
  obtain byID where snap: "\<forall>r\<in>set snap. route_for byID (cfg_Models cfg) r"
      "mr_Model ` set snap = mc_Model ` set (cfg_Models cfg)" "distinct (map mr_Model snap)"
    and ok: "\<And>i ch. byID i = Some ch \<Longrightarrow> ch_ID ch = i \<and> ch_Key ch \<noteq> [] \<and> ch_BaseURL ch \<noteq> []"
    using snapshot_sound [OF assms(1)] by blast
  obtain route where route: "route \<in> set snap" "mr_Model route = mc_Model mc"
    using snap(2) assms(3) by (metis (no_types, lifting) imageE imageI)
  with snap(1) obtain mc' where mc': "mc' \<in> set (cfg_Models cfg)" "mc_Model mc' = mc_Model mc"
      "map byID (mc_Channels mc') = map (\<lambda>s. Some (cs_Channel s)) (mr_Channels route)" "mr_Channels route \<noteq> []"
    by (auto simp: route_for_def)
  have "ch_Key ch \<noteq> [] \<and> ch_BaseURL ch \<noteq> [] \<and> ch_ID ch \<in> set (mc_Channels mc')"
    if "ch \<in> cs_Channel ` set (mr_Channels route)" for ch
  proof -
    have "Some ch \<in> set (map byID (mc_Channels mc'))" using that unfolding mc'(3) by auto
    with ok show ?thesis by auto
  qed
  with Route_known [OF assms(2) route(1) snap(3) mc'(4), of rnd now] route(2) mc'(1,2) show ?thesis
    by (metis subsetD)
qed

text \<open>Theorem: What the automatic picker returns can be routed. When the picker was built from the
  same configuration as the snapshot, the model it picks for any request has a route.\<close>

theorem auto_pick_is_routable:
  assumes "BuildSnapshot env cfg = Inr snap" and "BuildAutoRouter cfg snap = Inr (Some lr)" and "serving snap r"
  shows "\<exists>dec. Route rnd now r (Pick fl lr req) = Inr dec"
proof -
  have "\<exists>(ar :: AutoRouterConfig) pool. ar_Models ar \<noteq> [] \<and> build_pool snap (ar_Models ar) = Inr pool \<and>
      lr = NewLocalAutoRouter pool (ar_CostQuality ar)"
    using assms(2) by (auto simp: BuildAutoRouter_def split: option.splits if_splits sum.splits)
  then obtain ar :: AutoRouterConfig and pool where ar: "ar_Models ar \<noteq> []" "build_pool snap (ar_Models ar) = Inr pool"
      "lr = NewLocalAutoRouter pool (ar_CostQuality ar)" by blast
  have pool: "build_pool snap ms = Inr p \<Longrightarrow> length p = length ms \<and> ac_Model ` set p \<subseteq> mr_Model ` set snap" for ms p
    by (induction ms arbitrary: p) (auto split: option.splits sum.splits dest!: find_SomeD, blast)
  have "pool \<noteq> []" using ar pool by fastforce
  then have lr: "lr_pool lr = pool" "lr_pool lr \<noteq> []" by (simp_all add: ar(3) NewLocalAutoRouter_pool)
  then have "Pick fl lr req \<in> mr_Model ` set snap"
    using Pick_is_extreme [OF lr(2), of fl req] cheapest_best [OF lr(2)] mostCapable_best [OF lr(2)] pool [OF ar(2)] by auto
  then obtain route where route: "route \<in> set snap" "Pick fl lr req = mr_Model route" by blast
  obtain byID where "\<forall>r\<in>set snap. route_for byID (cfg_Models cfg) r" and dist: "distinct (map mr_Model snap)"
    by (rule snapshot_sound [OF assms(1)]) (rule that)
  with route(1) have "mr_Channels route \<noteq> []" by (simp add: route_for_def)
  from Route_known [OF assms(3) route(1) dist this, of rnd now] show ?thesis
    unfolding route(2) by blast
qed

definition sample_config :: Config where
  "sample_config = \<lparr>cfg_Channels =
       [\<lparr>cf_ID = ''c1'', cf_Name = ''one'', cf_BaseURL = ''http://one'', cf_KeyEnv = ''K1'', cf_InputPer1M = 5,
         cf_OutputPer1M = 15, cf_Weight = 1\<rparr>],
     cfg_Models = [\<lparr>mc_Model = ''big'', mc_Channels = [''c1'']\<rparr>],
     cfg_AutoRouter = Some \<lparr>ar_CostQuality = 7, ar_Models = [''big'']\<rparr>\<rparr>"

definition sample_snapshot :: "ModelRoute list" where
  "sample_snapshot = [\<lparr>mr_Model = ''big'', mr_Channels =
     [\<lparr>cs_Channel = \<lparr>ch_ID = ''c1'', ch_Name = ''one'', ch_BaseURL = ''http://one'', ch_Key = ''secret'',
         ch_InputPer1M = 5, ch_OutputPer1M = 15, ch_Weight = 1\<rparr>, cs_Healthy = True, cs_BreakerOpen = False\<rparr>]\<rparr>]"

lemma sample_build: "BuildSnapshot (\<lambda>_. ''secret'') sample_config = Inr sample_snapshot"
  by (simp add: BuildSnapshot_def sample_config_def sample_snapshot_def put_route_def)

theorem configured_models_are_served_witness:
  "\<exists>dec. Route (1 / 2) 9 (RecordOutcome 5 ''c1'' False (NewRouterWithAuto 0 sample_snapshot)) ''big'' = Inr dec"
  using configured_models_are_served [OF sample_build serving.reported [OF serving.start], of _ "1 / 2" 9 5 "''c1''" False 0]
  by (auto simp: sample_config_def)

theorem auto_pick_is_routable_witness:
  "\<exists>lr dec. BuildAutoRouter sample_config sample_snapshot = Inr (Some lr) \<and>
     Route (1 / 2) 9 (NewRouterWithAuto 0 sample_snapshot) (Pick id lr (ask ''hi'')) = Inr dec"
proof -
  obtain lr where "BuildAutoRouter sample_config sample_snapshot = Inr (Some lr)"
    by (simp add: BuildAutoRouter_def sample_config_def sample_snapshot_def)
  with auto_pick_is_routable [OF sample_build this serving.start] show ?thesis by blast
qed

end
