(* ===== verification/Key_Cache.thy ===== *)
theory Key_Cache
  imports Auth_Store
begin

text \<open>
  \<open>CachedKeyStore\<close> of \<open>internal/auth/auth.go\<close>: the in-memory cache between the gateway and the
  account tables. A resolution that misses takes three steps (read the clock and the cache
  under the mutex, ask the store, write the cache under the mutex), and resolutions of
  concurrent requests interleave with each other, with administration and with time. Times are
  microseconds.
\<close>

section \<open>The cache\<close>

record CachedKeyStore =
  ck_cache :: "string \<rightharpoonup> int \<times> int"
  ck_chain :: "int \<rightharpoonup> ChainInfo \<times> int"
  ck_ttl :: int

definition NewCachedKeyStore :: "int \<Rightarrow> CachedKeyStore" where
  "NewCachedKeyStore ttl =
     \<lparr>ck_cache = (\<lambda>_. None), ck_chain = (\<lambda>_. None), ck_ttl = (if ttl \<le> 0 then 60000000 else ttl)\<rparr>"

definition cache_lookup :: "CachedKeyStore \<Rightarrow> int \<Rightarrow> string \<Rightarrow> (go_error + int) option" where
  "cache_lookup c now rawKey =
     (case ck_cache c rawKey of
        None \<Rightarrow> None
      | Some (userID, expires) \<Rightarrow>
          if now < expires then Some (if userID = 0 then Inl ErrKeyNotFound else Inr userID) else None)"

definition negative_ttl :: int where
  "negative_ttl = 5000000"

definition cache_store :: "CachedKeyStore \<Rightarrow> int \<Rightarrow> string \<Rightarrow> go_error + int \<Rightarrow> CachedKeyStore" where
  "cache_store c now rawKey r =
     c\<lparr>ck_cache := (ck_cache c)(rawKey \<mapsto>
       (case r of Inl e \<Rightarrow> (0, now + negative_ttl) | Inr uid \<Rightarrow> (uid, now + ck_ttl c)))\<rparr>"

definition Cached_Resolve ::
  "(string \<Rightarrow> string) \<Rightarrow> int \<Rightarrow> fault \<Rightarrow> fault \<Rightarrow> CachedKeyStore \<times> authdb \<Rightarrow> string \<Rightarrow> (CachedKeyStore \<times> authdb) \<times> (go_error + int)" where
  "Cached_Resolve sha now f g s rawKey =
     (case s of (c, db) \<Rightarrow>
        case cache_lookup c now rawKey of
          Some r \<Rightarrow> ((c, db), r)
        | None \<Rightarrow> (case Resolve sha now f g db rawKey of (db', r) \<Rightarrow> ((cache_store c now rawKey r, db'), r)))"

definition Cached_ChainOfUser ::
  "int \<Rightarrow> fault \<Rightarrow> CachedKeyStore \<Rightarrow> authdb \<Rightarrow> int \<Rightarrow> CachedKeyStore \<times> (go_error + ChainInfo)" where
  "Cached_ChainOfUser now f c db userID =
     (case ck_chain c userID of
        Some (info, expires) \<Rightarrow>
          if now < expires then (c, Inr info)
          else (case ChainOfUser f db userID of
                  Inl e \<Rightarrow> (c, Inl e)
                | Inr ci \<Rightarrow> (c\<lparr>ck_chain := (ck_chain c)(userID \<mapsto> (ci, now + ck_ttl c))\<rparr>, Inr ci))
      | None \<Rightarrow>
          (case ChainOfUser f db userID of
             Inl e \<Rightarrow> (c, Inl e)
           | Inr ci \<Rightarrow> (c\<lparr>ck_chain := (ck_chain c)(userID \<mapsto> (ci, now + ck_ttl c))\<rparr>, Inr ci)))"

text \<open>The other lookups pass through to the tables.\<close>

definition Cached_Limits :: "(string \<Rightarrow> string) \<Rightarrow> fault \<Rightarrow> authdb \<Rightarrow> string \<Rightarrow> go_error + Limits" where
  "Cached_Limits sha f db rawKey = ResolveLimits sha f db rawKey"

definition Cached_UserLimits :: "fault \<Rightarrow> authdb \<Rightarrow> int \<Rightarrow> go_error + Limits" where
  "Cached_UserLimits f db userID = ResolveUserLimits f db userID"

definition Cached_ProjectOfUser :: "fault \<Rightarrow> authdb \<Rightarrow> int \<Rightarrow> go_error + int" where
  "Cached_ProjectOfUser f db userID = ProjectOfUser f db userID"

definition Cached_ProjectLimits :: "fault \<Rightarrow> authdb \<Rightarrow> int \<Rightarrow> go_error + Limits" where
  "Cached_ProjectLimits f db projectID = ResolveProjectLimits f db projectID"

definition Cached_TeamOfProject :: "fault \<Rightarrow> authdb \<Rightarrow> int \<Rightarrow> go_error + int" where
  "Cached_TeamOfProject f db projectID = TeamOfProject f db projectID"

definition Cached_TeamLimits :: "fault \<Rightarrow> authdb \<Rightarrow> int \<Rightarrow> go_error + Limits" where
  "Cached_TeamLimits f db teamID = ResolveTeamLimits f db teamID"

definition Cached_OrgOfTeam :: "fault \<Rightarrow> authdb \<Rightarrow> int \<Rightarrow> go_error + int" where
  "Cached_OrgOfTeam f db teamID = OrgOfTeam f db teamID"

definition Cached_OrgLimits :: "fault \<Rightarrow> authdb \<Rightarrow> int \<Rightarrow> go_error + Limits" where
  "Cached_OrgLimits f db orgID = ResolveOrgLimits f db orgID"

section \<open>Concurrent resolutions\<close>

text \<open>A resolution in flight: its key, when it read the clock, and the store's answer once it has it.\<close>

type_synonym flight = "string \<times> int \<times> (go_error + int) option"

record key_world =
  kw_db :: authdb
  kw_cache :: CachedKeyStore
  kw_clock :: int
  kw_flights :: "flight list"

definition start_world :: "authdb \<Rightarrow> int \<Rightarrow> int \<Rightarrow> key_world" where
  "start_world db ttl now = \<lparr>kw_db = db, kw_cache = NewCachedKeyStore ttl, kw_clock = now, kw_flights = []\<rparr>"

definition drop_nth :: "nat \<Rightarrow> 'a list \<Rightarrow> 'a list" where
  "drop_nth i xs = take i xs @ drop (Suc i) xs"

inductive key_step :: "(string \<Rightarrow> string option) \<Rightarrow> (string \<Rightarrow> string) \<Rightarrow> key_world \<Rightarrow> key_world \<Rightarrow> bool" for gen sha where
  time: "kw_clock s \<le> t \<Longrightarrow> key_step gen sha s (s\<lparr>kw_clock := t\<rparr>)"
| admin: "key_step gen sha s (s\<lparr>kw_db := auth_exec gen sha (kw_db s) op\<rparr>)"
| begin_miss: "cache_lookup (kw_cache s) (kw_clock s) key = None \<Longrightarrow>
    key_step gen sha s (s\<lparr>kw_flights := kw_flights s @ [(key, kw_clock s, None)]\<rparr>)"
| ask: "i < length (kw_flights s) \<Longrightarrow> kw_flights s ! i = (key, t, None) \<Longrightarrow>
    Resolve sha (kw_clock s) f g (kw_db s) key = (db', r) \<Longrightarrow>
    key_step gen sha s (s\<lparr>kw_db := db', kw_flights := (kw_flights s)[i := (key, t, Some r)]\<rparr>)"
| finish: "i < length (kw_flights s) \<Longrightarrow> kw_flights s ! i = (key, t, Some r) \<Longrightarrow>
    key_step gen sha s (s\<lparr>kw_cache := cache_store (kw_cache s) t key r, kw_flights := drop_nth i (kw_flights s)\<rparr>)"

abbreviation key_runs :: "(string \<Rightarrow> string option) \<Rightarrow> (string \<Rightarrow> string) \<Rightarrow> key_world \<Rightarrow> key_world \<Rightarrow> bool" where
  "key_runs gen sha \<equiv> (key_step gen sha)\<^sup>*\<^sup>*"

lemma set_drop_nth: "set (drop_nth i xs) \<subseteq> set xs"
  by (auto simp: drop_nth_def dest: in_set_takeD in_set_dropD)

text \<open>Nothing in the cache or in flight is younger than the clock.\<close>

definition timely :: "key_world \<Rightarrow> bool" where
  "timely s \<longleftrightarrow>
     (\<forall>key uid expires. ck_cache (kw_cache s) key = Some (uid, expires) \<longrightarrow> uid \<noteq> 0 \<longrightarrow> expires \<le> kw_clock s + ck_ttl (kw_cache s)) \<and>
     (\<forall>fl\<in>set (kw_flights s). fst (snd fl) \<le> kw_clock s)"

lemma cache_store_entries:
  "ck_cache (cache_store c t key r) k = Some (uid, expires) \<Longrightarrow> uid \<noteq> 0 \<Longrightarrow>
     ck_cache c k = Some (uid, expires) \<or> k = key \<and> r = Inr uid \<and> expires = t + ck_ttl c"
  by (auto simp: cache_store_def split: if_splits sum.splits)

lemma cache_store_ttl [simp]: "ck_ttl (cache_store c t key r) = ck_ttl c"
  by (simp add: cache_store_def)

lemma set_updateD: "x \<in> set (xs[i := y]) \<Longrightarrow> x = y \<or> x \<in> set xs"
  using set_update_subset_insert [of xs i y] by blast

lemma timely_step:
  assumes "key_step gen sha s s'" and "timely s"
  shows "timely s'"
  using assms(1)
proof cases
  case (time t)
  have "expires \<le> kw_clock s + ttl \<Longrightarrow> expires \<le> t + ttl" for expires ttl using time(2) by simp
  moreover have "u \<le> kw_clock s \<Longrightarrow> u \<le> t" for u using time(2) by simp
  ultimately show ?thesis using assms(2) unfolding timely_def time(1) by simp
next
  case (ask i key t f g db' r)
  have fl: "(key, t, None) \<in> set (kw_flights s)" using ask(2,3) by (metis nth_mem)
  have old: "\<forall>fl\<in>set (kw_flights s). fst (snd fl) \<le> kw_clock s" using assms(2) by (simp add: timely_def)
  with bspec [OF old fl] have "\<forall>fl\<in>set ((kw_flights s)[i := (key, t, Some r)]). fst (snd fl) \<le> kw_clock s"
    by (auto dest!: set_updateD)
  with ask(1) assms(2) show ?thesis by (simp add: timely_def)
next
  case (finish i key t r)
  have "(key, t, Some r) \<in> set (kw_flights s)" using finish(2,3) by (metis nth_mem)
  with finish(1) assms(2) show ?thesis
    by (fastforce simp: timely_def dest: cache_store_entries set_drop_nth [THEN subsetD])
qed (use assms(2) in \<open>auto simp: timely_def\<close>)

section \<open>Revocation\<close>

text \<open>From the time of the revocation on: the key is dead in the tables, and what the cache or a flight still holds of it is older.\<close>

definition revoked_at :: "(string \<Rightarrow> string) \<Rightarrow> string \<Rightarrow> int \<Rightarrow> int \<Rightarrow> key_world \<Rightarrow> bool" where
  "revoked_at sha key T ttl s \<longleftrightarrow>
     (\<exists>u. key_state (keyHash sha key) u 0 (kw_db s)) \<and> T \<le> kw_clock s \<and> ck_ttl (kw_cache s) = ttl \<and>
     (\<forall>uid expires. ck_cache (kw_cache s) key = Some (uid, expires) \<longrightarrow> uid \<noteq> 0 \<longrightarrow> expires \<le> T + ttl) \<and>
     (\<forall>fl\<in>set (kw_flights s). fst fl = key \<longrightarrow> fst (snd fl) \<le> T \<or> snd (snd fl) \<in> {None, Some (Inl ErrKeyNotFound)})"

lemma revoked_at_start:
  assumes "timely s" and "key_state (keyHash sha key) u 0 (kw_db s)"
  shows "revoked_at sha key (kw_clock s) (ck_ttl (kw_cache s)) s"
  using assms by (auto simp: revoked_at_def timely_def)

lemma revoked_at_step:
  assumes "key_step gen sha s s'" and "revoked_at sha key T ttl s"
  shows "revoked_at sha key T ttl s'"
  using assms(1)
proof cases
  case (admin op)
  with assms(2) show ?thesis
    using dead_key_exec [of "keyHash sha key" _ "kw_db s" gen sha "fst op" "snd op"] by (auto simp: revoked_at_def)
next
  case (ask i key' t f g db' r)
  have "\<exists>u. key_state (keyHash sha key) u 0 db'"
    using assms(2) ask(4) dead_key_exec [of "keyHash sha key" _ "kw_db s" gen sha f "OpResolve (kw_clock s) g key'"]
    by (auto simp: revoked_at_def)
  moreover have "key' = key \<Longrightarrow> r = Inl ErrKeyNotFound"
    using assms(2) ask(4) Resolve_dead [of sha key _ "kw_db s" "kw_clock s" f g] by (auto simp: revoked_at_def)
  ultimately show ?thesis
    using assms(2) ask(1) by (fastforce simp: revoked_at_def dest: set_updateD)
next
  case (finish i key' t r)
  have fl: "(key', t, Some r) \<in> set (kw_flights s)" using finish(2,3) by (metis nth_mem)
  have "expires \<le> T + ttl" if "ck_cache (cache_store (kw_cache s) t key' r) key = Some (uid, expires)" "uid \<noteq> 0" for uid expires
    using cache_store_entries [OF that]
  proof
    assume "ck_cache (kw_cache s) key = Some (uid, expires)"
    with that(2) assms(2) show ?thesis by (simp add: revoked_at_def)
  next
    assume new: "key = key' \<and> r = Inr uid \<and> expires = t + ck_ttl (kw_cache s)"
    have "\<forall>fl\<in>set (kw_flights s). fst fl = key \<longrightarrow> fst (snd fl) \<le> T \<or> snd (snd fl) \<in> {None, Some (Inl ErrKeyNotFound)}"
      using assms(2) by (simp add: revoked_at_def)
    from bspec [OF this fl] new assms(2) show ?thesis by (simp add: revoked_at_def)
  qed
  with finish(1) assms(2) show ?thesis
    by (auto simp: revoked_at_def dest: set_drop_nth [THEN subsetD])
qed (use assms(2) in \<open>auto simp: revoked_at_def\<close>)
lemma runs_induct_inv:
  assumes "key_runs gen sha s s'" and "P s" and "\<And>s s'. key_step gen sha s s' \<Longrightarrow> P s \<Longrightarrow> P s'"
  shows "P s'"
  using assms(1,2) by (induction rule: rtranclp_induct) (auto intro: assms(3))

lemma timely_start: "timely (start_world db ttl now)"
  by (simp add: timely_def start_world_def NewCachedKeyStore_def)

lemma step_ttl: "key_step gen sha s s' \<Longrightarrow> ck_ttl (kw_cache s') = ck_ttl (kw_cache s)"
  by (cases rule: key_step.cases) auto

text \<open>C24: A revoked key stops within the lifetime of a cache entry. Take any run of concurrent
  resolutions, administration and time from an empty cache, in which the key is dead in the
  tables at some moment. Every request that starts at least one lifetime later is refused: the
  cache does not vouch for the key, and the tables, if asked, answer that it does not exist.
  This holds even for resolutions that were under way at the moment of the revocation.\<close>

theorem revocation_takes_effect_within_ttl:
  assumes "key_runs gen sha (start_world db ttl now0) s0" and "key_state (keyHash sha key) u 0 (kw_db s0)"
    and "key_runs gen sha s0 s" and "kw_clock s0 + ck_ttl (kw_cache s0) \<le> kw_clock s"
  shows "(\<forall>uid. cache_lookup (kw_cache s) (kw_clock s) key \<noteq> Some (Inr uid)) \<and>
    snd (Resolve sha (kw_clock s) f g (kw_db s) key) = Inl ErrKeyNotFound \<and>
    snd (Cached_Resolve sha (kw_clock s) f g (kw_cache s, kw_db s) key) = Inl ErrKeyNotFound"
proof -
  have "timely s0" by (rule runs_induct_inv [where P = timely, OF assms(1) timely_start timely_step])
  then have "revoked_at sha key (kw_clock s0) (ck_ttl (kw_cache s0)) s0" by (rule revoked_at_start [OF _ assms(2)])
  then have r: "revoked_at sha key (kw_clock s0) (ck_ttl (kw_cache s0)) s"
    by (rule runs_induct_inv [where P = "revoked_at sha key (kw_clock s0) (ck_ttl (kw_cache s0))", OF assms(3) _ revoked_at_step])
  have miss: "cache_lookup (kw_cache s) (kw_clock s) key \<in> {None, Some (Inl ErrKeyNotFound)}"
  proof (cases "ck_cache (kw_cache s) key")
    case (Some e)
    obtain uid expires where e: "e = (uid, expires)" by (cases e)
    have "uid = 0 \<or> expires \<le> kw_clock s" using r assms(4) Some by (auto simp: e revoked_at_def)
    with Some show ?thesis by (auto simp: e cache_lookup_def)
  qed (simp add: cache_lookup_def)
  moreover have "snd (Resolve sha (kw_clock s) f g (kw_db s) key) = Inl ErrKeyNotFound"
    using r by (auto simp: revoked_at_def intro: Resolve_dead)
  ultimately show ?thesis
    by (auto simp: Cached_Resolve_def split: prod.splits)
qed

definition demo_key_world :: key_world where
  "demo_key_world = start_world demo_auth 0 100"

theorem revocation_takes_effect_within_ttl_witness:
  "snd (Cached_Resolve id 60000100 NoFault NoFault
     (NewCachedKeyStore 0, auth_exec Some id demo_auth (NoFault, OpRevokeKey 1 1)) demo_key) = Inl ErrKeyNotFound"
proof -
  let ?dead = "demo_key_world\<lparr>kw_db := auth_exec Some id (kw_db demo_key_world) (NoFault, OpRevokeKey 1 1)\<rparr>"
  let ?later = "?dead\<lparr>kw_clock := 60000100\<rparr>"
  have "key_runs Some id demo_key_world ?dead" by (intro r_into_rtranclp key_step.admin)
  moreover have "find_key (kw_db ?dead) (keyHash id demo_key) = Some (the (find_key (kw_db ?dead) (keyHash id demo_key)))"
    "ak_UserID (the (find_key (kw_db ?dead) (keyHash id demo_key))) = 1" "ak_Status (the (find_key (kw_db ?dead) (keyHash id demo_key))) = 0"
    by code_simp+
  then have "key_state (keyHash id demo_key) 1 0 (kw_db ?dead)" unfolding key_state_def by (metis zero_neq_one)
  moreover have "key_runs Some id ?dead ?later"
    by (rule r_into_rtranclp, rule key_step.time [of ?dead 60000100]) (simp add: demo_key_world_def start_world_def)
  ultimately show ?thesis
    using revocation_takes_effect_within_ttl [of Some id demo_auth 0 100 ?dead demo_key 1 ?later NoFault NoFault]
    by (simp add: demo_key_world_def start_world_def NewCachedKeyStore_def)
qed

section \<open>The cached chain\<close>

text \<open>Every cached chain was the answer of the tables when it was loaded, and expires a lifetime later.\<close>

lemma Cached_ChainOfUser_answer:
  assumes "Cached_ChainOfUser now f c db u = (c', Inr ci)"
  shows "ChainOfUser f db u = Inr ci \<and> ck_chain c' u = Some (ci, now + ck_ttl c) \<or>
    c' = c \<and> (\<exists>expires. ck_chain c u = Some (ci, expires) \<and> now < expires)"
  using assms by (auto simp: Cached_ChainOfUser_def split: option.splits prod.splits if_splits sum.splits)

fun chain_reads :: "CachedKeyStore \<Rightarrow> (int \<times> fault \<times> authdb \<times> int) list \<Rightarrow> CachedKeyStore" where
  "chain_reads c [] = c"
| "chain_reads c ((now, f, db, u) # rs) = chain_reads (fst (Cached_ChainOfUser now f c db u)) rs"

definition chain_source :: "(int \<times> fault \<times> authdb \<times> int) list \<Rightarrow> int \<Rightarrow> CachedKeyStore \<Rightarrow> bool" where
  "chain_source rs ttl c \<longleftrightarrow> ck_ttl c = ttl \<and>
     (\<forall>u ci expires. ck_chain c u = Some (ci, expires) \<longrightarrow>
        (\<exists>f db. (expires - ttl, f, db, u) \<in> set rs \<and> ChainOfUser f db u = Inr ci))"

lemma chain_source_read:
  assumes "chain_source rs ttl c"
  shows "chain_source (rs @ [(now, f, db, u)]) ttl (fst (Cached_ChainOfUser now f c db u))"
proof -
  have old: "chain_source (rs @ [(now, f, db, u)]) ttl c" using assms by (fastforce simp: chain_source_def)
  show ?thesis
  proof (cases "ChainOfUser f db u")
    case (Inl e)
    then have "fst (Cached_ChainOfUser now f c db u) = c"
      by (auto simp: Cached_ChainOfUser_def split: option.splits)
    with old show ?thesis by simp
  next
    case (Inr ci)
    then have "fst (Cached_ChainOfUser now f c db u) \<in> {c, c\<lparr>ck_chain := (ck_chain c)(u \<mapsto> (ci, now + ck_ttl c))\<rparr>}"
      by (auto simp: Cached_ChainOfUser_def split: option.splits)
    with old assms Inr show ?thesis by (auto simp: chain_source_def split: if_splits) blast
  qed
qed

lemma chain_reads_source:
  "chain_source rs0 ttl c \<Longrightarrow> chain_source (rs0 @ rs) ttl (chain_reads c rs)"
proof (induction rs arbitrary: rs0 c)
  case (Cons r rs)
  obtain now f db u where r: "r = (now, f, db, u)" by (cases r)
  from Cons.IH [OF chain_source_read [OF Cons.prems, of now f db u]] show ?case by (simp add: r)
qed simp

text \<open>Theorem: A budget chain is never older than the lifetime of a cache entry. Whatever lookups came
  before, at whatever times and on whatever tables, the chain a lookup returns is the answer
  the tables gave to a lookup of the same user less than one lifetime before it.\<close>

theorem budget_chain_is_recent:
  assumes "c = chain_reads (NewCachedKeyStore ttl) rs" and "0 < ttl"
    and "Cached_ChainOfUser now f c db u = (c', Inr ci)"
  shows "\<exists>t f' db'. (t, f', db', u) \<in> set (rs @ [(now, f, db, u)]) \<and> ChainOfUser f' db' u = Inr ci \<and> now < t + ttl"
proof -
  have "chain_source [] ttl (NewCachedKeyStore ttl)"
    using assms(2) by (simp add: chain_source_def NewCachedKeyStore_def)
  from chain_reads_source [OF this, of rs] have src: "chain_source rs ttl c" by (simp add: assms(1))
  from Cached_ChainOfUser_answer [OF assms(3)] show ?thesis
  proof
    assume "ChainOfUser f db u = Inr ci \<and> ck_chain c' u = Some (ci, now + ck_ttl c)"
    with assms(2) show ?thesis by (intro exI [of _ now] exI [of _ f] exI [of _ db]) simp
  next
    assume "c' = c \<and> (\<exists>expires. ck_chain c u = Some (ci, expires) \<and> now < expires)"
    then obtain expires where e: "ck_chain c u = Some (ci, expires)" "now < expires" by blast
    with src obtain f' db' where "(expires - ttl, f', db', u) \<in> set rs" "ChainOfUser f' db' u = Inr ci"
      unfolding chain_source_def by blast
    with e(2) show ?thesis by (intro exI [of _ "expires - ttl"]) auto
  qed
qed

theorem budget_chain_is_recent_witness:
  "\<exists>ci c'. Cached_ChainOfUser 40 FailBefore (chain_reads (NewCachedKeyStore 60) [(10, NoFault, demo_auth, 1)]) empty_auth 1 = (c', Inr ci) \<and>
     ChainOfUser NoFault demo_auth 1 = Inr ci"
proof -
  let ?c = "chain_reads (NewCachedKeyStore 60) [(10, NoFault, demo_auth, 1)]"
  have "find_user demo_auth 1 \<noteq> None" by code_simp
  then obtain x where x: "ChainOfUser NoFault demo_auth 1 = Inr x"
    by (auto simp: ChainOfUser_def query_def row_or_none_def)
  then have c: "ck_chain ?c 1 = Some (x, 70)"
    by (simp add: Cached_ChainOfUser_def NewCachedKeyStore_def)
  then have "Cached_ChainOfUser 40 FailBefore ?c empty_auth 1 = (?c, Inr x)"
    by (simp add: Cached_ChainOfUser_def)
  with budget_chain_is_recent [OF refl _ this] x show ?thesis by (auto simp: ChainOfUser_def query_def)
qed

end
