(* ===== verification/Wiring.thy ===== *)
theory Wiring
  imports Portal Precharge Auto_Router Key_Cache
begin

text \<open>
  \<open>cmd/metergate/main.go\<close>, with the options of \<open>gateway/server.go\<close> and \<open>portal/portal.go\<close> it
  uses: how the process reads its environment, which parts it starts, and the functions it
  hands from one part to another. What the process finds (\<open>avail\<close>: which services answer, the
  files) is a parameter; messages to the log are left out. An early exit is an error value.
\<close>

section \<open>The environment\<close>

text \<open>\<open>os.Getenv\<close> answers the empty string for a variable that is not set.\<close>

type_synonym environ = "string \<Rightarrow> string"

definition envOr :: "environ \<Rightarrow> string \<Rightarrow> string \<Rightarrow> string" where
  "envOr getenv key def = (if getenv key \<noteq> [] then getenv key else def)"

definition splitKeys :: "string \<Rightarrow> string list" where
  "splitKeys raw = filter (\<lambda>k. k \<noteq> []) (map TrimSpace (split_on (CHR '','') raw))"

section \<open>Options of the gateway and the portal\<close>

definition WithKeys :: "string list \<Rightarrow> 'w server \<Rightarrow> 'w server" where
  "WithKeys keys s = s\<lparr>sv_keys := Some keys\<rparr>"

definition WithRateLimiter :: "'w limiter \<Rightarrow> 'w server \<Rightarrow> 'w server" where
  "WithRateLimiter l s = s\<lparr>sv_limiter := Some l\<rparr>"

definition WithKeyResolver :: "('w \<Rightarrow> string \<Rightarrow> 'w \<times> string option) \<Rightarrow> 'w server \<Rightarrow> 'w server" where
  "WithKeyResolver f s = s\<lparr>sv_keyResolve := Some f\<rparr>"

definition WithMetrics :: "'w server \<Rightarrow> 'w server" where
  "WithMetrics s = s\<lparr>sv_metrics := True\<rparr>"

definition WithPriceSnapshot :: "('w \<Rightarrow> string \<Rightarrow> (int \<times> int) option) \<Rightarrow> 'w server \<Rightarrow> 'w server" where
  "WithPriceSnapshot f s = s\<lparr>sv_priceSnap := Some f\<rparr>"

definition WithModelResolver :: "(string \<Rightarrow> ChatCompletionRequest \<Rightarrow> go_error + string) \<Rightarrow> 'w server \<Rightarrow> 'w server" where
  "WithModelResolver f s = s\<lparr>sv_resolver := Some f\<rparr>"

definition WithPreCharge ::
  "('w \<Rightarrow> string \<Rightarrow> string \<Rightarrow> string \<Rightarrow> int \<Rightarrow> int option \<Rightarrow> 'w \<times> (go_error + unit)) \<Rightarrow> 'w server \<Rightarrow> 'w server" where
  "WithPreCharge f s = s\<lparr>sv_preCharge := Some f\<rparr>"

definition WithMeteringSink :: "('w \<Rightarrow> Event \<Rightarrow> 'w \<times> (go_error + unit)) \<Rightarrow> 'w server \<Rightarrow> 'w server" where
  "WithMeteringSink e s = s\<lparr>sv_sink := Some e\<rparr>"

text \<open>\<open>lib\<close> carries the clock, the request ids and the JSON functions.\<close>

definition NewServer :: "'w server \<Rightarrow> 'w upstream \<Rightarrow> ('w server \<Rightarrow> 'w server) list \<Rightarrow> 'w server" where
  "NewServer lib up opts =
     foldl (\<lambda>s opt. opt s)
       (lib\<lparr>sv_upstream := up, sv_keys := None, sv_sink := None, sv_preCharge := None, sv_resolver := None, sv_priceSnap := None,
            sv_metrics := False, sv_keyResolve := None, sv_limiter := None\<rparr>) opts"

text \<open>\<open>base\<close> carries bcrypt, the hashes and the payment service of the portal.\<close>

definition New :: "'c API \<Rightarrow> string \<Rightarrow> 'c API" where
  "New base adminKey = base\<lparr>ap_adminKey := adminKey, ap_jwt := None, ap_oidc := None, ap_balance := None, ap_usage := None,
     ap_usageByModel := None, ap_stripe := None, ap_webDir := False\<rparr>"

definition WithJWT :: "string jwt_lib \<times> string \<Rightarrow> 'c API \<Rightarrow> 'c API" where
  "WithJWT mgr api = api\<lparr>ap_jwt := Some mgr\<rparr>"

definition WithOIDC :: "string oidc \<Rightarrow> 'c API \<Rightarrow> 'c API" where
  "WithOIDC oc api = api\<lparr>ap_oidc := Some oc\<rparr>"

definition WithBalance :: "('c \<Rightarrow> int \<Rightarrow> go_error + int) \<Rightarrow> 'c API \<Rightarrow> 'c API" where
  "WithBalance f api = api\<lparr>ap_balance := Some f\<rparr>"

definition WithUsage :: "(string \<Rightarrow> int \<Rightarrow> go_error + UsageDay list) \<Rightarrow> 'c API \<Rightarrow> 'c API" where
  "WithUsage f api = api\<lparr>ap_usage := Some f\<rparr>"

definition WithUsageByModel :: "(string \<Rightarrow> int \<Rightarrow> go_error + UsageByModelRow list) \<Rightarrow> 'c API \<Rightarrow> 'c API" where
  "WithUsageByModel f api = api\<lparr>ap_usageByModel := Some f\<rparr>"

definition WithStripe :: "string \<Rightarrow> 'c API \<Rightarrow> 'c API" where
  "WithStripe webhookSecret api = api\<lparr>ap_stripe := Some webhookSecret\<rparr>"

definition WithWeb :: "'c API \<Rightarrow> 'c API" where
  "WithWeb api = api\<lparr>ap_webDir := True\<rparr>"

section \<open>What is started\<close>

datatype store_kind = NoStore | Single | Sharded nat

datatype sink_kind = InProcess | Bus | DetailTier

datatype startup_error =
    NoUpstream | NoKeys | BadShards | MissingShardDSN nat | ShardDown nat | NoAdminKey | BadConfig config_error

record avail =
  av_redis :: bool
  av_pg :: "string \<Rightarrow> bool"
  av_click :: bool
  av_auth :: "string \<Rightarrow> bool"
  av_read :: "string \<Rightarrow> string option"
  av_yaml :: "string \<Rightarrow> Config option"

definition start_precharger :: "environ \<Rightarrow> avail \<Rightarrow> bool" where
  "start_precharger getenv av \<longleftrightarrow> envOr getenv ''METERGATE_REDIS_ADDR'' [] \<noteq> [] \<and> av_redis av"

fun connect_shards :: "environ \<Rightarrow> avail \<Rightarrow> nat \<Rightarrow> nat \<Rightarrow> startup_error + unit" where
  "connect_shards getenv av i 0 = Inr ()"
| "connect_shards getenv av i (Suc n) =
     (let dsn = getenv (''METERGATE_PG_DSN_'' @ Sprintf_d (int i)) in
      if dsn = [] then Inl (MissingShardDSN i)
      else if \<not> av_pg av dsn then Inl (ShardDown i)
      else connect_shards getenv av (Suc i) n)"

definition start_store :: "environ \<Rightarrow> avail \<Rightarrow> startup_error + store_kind" where
  "start_store getenv av =
     (let pgDSN = envOr getenv ''METERGATE_PG_DSN'' []; pgShards = envOr getenv ''METERGATE_PG_SHARDS'' [] in
      if pgDSN \<noteq> [] then Inr (if av_pg av pgDSN then Single else NoStore)
      else if pgShards \<noteq> [] then
        (case ParseInt pgShards of
           None \<Rightarrow> Inl BadShards
         | Some n \<Rightarrow>
             if n < 2 then Inl BadShards
             else case connect_shards getenv av 0 (nat n) of Inl e \<Rightarrow> Inl e | Inr _ \<Rightarrow> Inr (Sharded (nat n)))
      else Inr NoStore)"

definition start_sink :: "store_kind \<Rightarrow> bool" where
  "start_sink store \<longleftrightarrow> store \<noteq> NoStore"

definition start_bus :: "environ \<Rightarrow> bool" where
  "start_bus getenv \<longleftrightarrow> splitKeys (envOr getenv ''METERGATE_KAFKA'' []) \<noteq> []"

definition start_consumer :: "environ \<Rightarrow> store_kind \<Rightarrow> bool" where
  "start_consumer getenv store \<longleftrightarrow> start_bus getenv \<and> store \<noteq> NoStore"

definition start_detail :: "environ \<Rightarrow> avail \<Rightarrow> bool" where
  "start_detail getenv av \<longleftrightarrow> envOr getenv ''METERGATE_CLICKHOUSE'' [] \<noteq> [] \<and> av_click av"

definition start_auth :: "environ \<Rightarrow> avail \<Rightarrow> bool" where
  "start_auth getenv av \<longleftrightarrow> envOr getenv ''METERGATE_PG_DSN'' [] \<noteq> [] \<and> av_auth av (envOr getenv ''METERGATE_PG_DSN'' [])"

definition start_admin :: "environ \<Rightarrow> store_kind \<Rightarrow> startup_error + bool" where
  "start_admin getenv store =
     (if envOr getenv ''METERGATE_ADMIN_PORT'' [] \<noteq> [] \<and> store \<noteq> NoStore then
        if envOr getenv ''METERGATE_ADMIN_KEY'' [] = [] then Inl NoAdminKey else Inr True
      else Inr False)"

text \<open>The sinks an event goes to: the in-process one only when no consumer settles from the bus.\<close>

definition sink_chain :: "bool \<Rightarrow> bool \<Rightarrow> bool \<Rightarrow> bool \<Rightarrow> sink_kind list" where
  "sink_chain sink consumer bus detail =
     (if sink \<and> \<not> consumer then [InProcess] else []) @ (if bus then [Bus] else []) @ (if detail then [DetailTier] else [])"

text \<open>A single upstream, or the routes and the automatic picker of a configuration file.\<close>

datatype upstream_kind = SingleUpstream string string | Routed "ModelRoute list" "LocalAutoRouter option"

definition start_upstream :: "environ \<Rightarrow> avail \<Rightarrow> startup_error + upstream_kind" where
  "start_upstream getenv av =
     (let configPath = envOr getenv ''METERGATE_CONFIG'' [] in
      if configPath = [] then
        Inr (SingleUpstream (envOr getenv ''METERGATE_UPSTREAM'' []) (envOr getenv ''METERGATE_UPSTREAM_KEY'' []))
      else
        case LoadConfig (av_read av) (av_yaml av) configPath of
          Inl e \<Rightarrow> Inl (BadConfig e)
        | Inr cfg \<Rightarrow>
            (case BuildSnapshot getenv cfg of
               Inl e \<Rightarrow> Inl (BadConfig e)
             | Inr snap \<Rightarrow>
                 (case BuildAutoRouter cfg snap of Inl e \<Rightarrow> Inl (BadConfig e) | Inr auto \<Rightarrow> Inr (Routed snap auto))))"

record plan =
  pl_port :: string
  pl_keys :: "string list"
  pl_precharger :: bool
  pl_store :: store_kind
  pl_consumer :: bool
  pl_sinks :: "sink_kind list"
  pl_auth :: bool
  pl_limiter :: bool
  pl_admin :: bool
  pl_upstream :: upstream_kind

definition main_plan :: "environ \<Rightarrow> avail \<Rightarrow> startup_error + plan" where
  "main_plan getenv av =
     (let apiKeys = splitKeys (getenv ''METERGATE_API_KEYS'') in
      if envOr getenv ''METERGATE_UPSTREAM'' [] = [] \<and> envOr getenv ''METERGATE_CONFIG'' [] = [] then Inl NoUpstream
      else if apiKeys = [] then Inl NoKeys
      else case start_store getenv av of
             Inl e \<Rightarrow> Inl e
           | Inr store \<Rightarrow>
               (case start_admin getenv store of
                  Inl e \<Rightarrow> Inl e
                | Inr adm \<Rightarrow>
                    (case start_upstream getenv av of
                       Inl e \<Rightarrow> Inl e
                     | Inr up \<Rightarrow>
                         Inr \<lparr>pl_port = envOr getenv ''METERGATE_PORT'' ''3000'', pl_keys = apiKeys,
                              pl_precharger = start_precharger getenv av, pl_store = store,
                              pl_consumer = start_consumer getenv store,
                              pl_sinks = sink_chain (start_sink store) (start_consumer getenv store) (start_bus getenv) (start_detail getenv av),
                              pl_auth = start_auth getenv av,
                              pl_limiter = start_auth getenv av \<and> start_precharger getenv av,
                              pl_admin = adm, pl_upstream = up\<rparr>)))"

section \<open>The functions that connect the parts\<close>

text \<open>What the gateway's functions work on: prices, Redis, the key cache over the accounts, the clock, calls to come.\<close>

record 'r app =
  wa_prices :: price_state
  wa_redis :: 'r
  wa_cache :: CachedKeyStore
  wa_auth :: authdb
  wa_time :: int
  wa_faults :: sched

text \<open>Both \<open>fmt.Sprint\<close> and the verb \<open>%d\<close> write the id of a user in decimal.\<close>

definition user_name :: "int \<Rightarrow> string" where
  "user_name uid = ''user-'' @ Sprintf_d uid"

definition key_resolver :: "(string \<Rightarrow> string) \<Rightarrow> 'r app \<Rightarrow> string \<Rightarrow> 'r app \<times> string option" where
  "key_resolver sha w raw =
     (let (f, fs1) = pop_fault (wa_faults w); (g, fs2) = pop_fault fs1 in
      case Cached_Resolve sha (wa_time w) f g (wa_cache w, wa_auth w) raw of
        ((c, db), Inl e) \<Rightarrow> (w\<lparr>wa_cache := c, wa_auth := db, wa_faults := fs2\<rparr>, None)
      | ((c, db), Inr uid) \<Rightarrow> (w\<lparr>wa_cache := c, wa_auth := db, wa_faults := fs2\<rparr>, Some (user_name uid)))"

definition price_snapshot :: "'r app \<Rightarrow> string \<Rightarrow> (int \<times> int) option" where
  "price_snapshot w model = (let p = fst (PriceFor (wa_prices w) model) in Some (InputPer1M p, OutputPer1M p))"

definition pre_charge ::
  "'r redis \<Rightarrow> 'r app \<Rightarrow> string \<Rightarrow> string \<Rightarrow> string \<Rightarrow> int \<Rightarrow> int option \<Rightarrow> 'r app \<times> (go_error + unit)" where
  "pre_charge R w userID requestID model promptTokens maxTokens =
     (let (p, ps) = PriceFor (wa_prices w) model; (f, fs) = pop_fault (wa_faults w);
          (rd, r) = PreCharge R f (wa_redis w) userID requestID (EstimatePreCharge promptTokens maxTokens p)
      in (w\<lparr>wa_prices := ps, wa_redis := rd, wa_faults := fs\<rparr>, r))"

definition top_up :: "'r redis option \<Rightarrow> fault \<Rightarrow> 'r topup" where
  "top_up pre f userID amount rd =
     (case pre of
        None \<Rightarrow> (rd, Inl (ErrInvalidInput ''precharger disabled (no redis)''))
      | Some R \<Rightarrow> TopUp R f rd (user_name userID) amount)"

definition balance_reader :: "'r redis \<Rightarrow> fault \<Rightarrow> 'r \<Rightarrow> int \<Rightarrow> go_error + int" where
  "balance_reader R f rd userID = Balance R f rd (user_name userID)"

definition model_resolver :: "(rat \<Rightarrow> rat) \<Rightarrow> LocalAutoRouter \<Rightarrow> string \<Rightarrow> ChatCompletionRequest \<Rightarrow> go_error + string" where
  "model_resolver fl auto model req =
     (if model = ''auto'' \<or> model = ''openrouter/auto'' then Inr (Pick fl auto req) else Inr model)"

definition quota_scopes :: "go_error + ScopeRow list \<Rightarrow> go_error + Scope list" where
  "quota_scopes rows =
     (case rows of
        Inl e \<Rightarrow> Inl e
      | Inr rs \<Rightarrow> Inr (map (\<lambda>r. \<lparr>sc_Layer = sw_Layer r, sc_ID = sw_ID r, sc_RPM = sw_RPM r, sc_TPM = sw_TPM r\<rparr>) rs))"

definition main_options ::
  "(string \<Rightarrow> string) \<Rightarrow> 'r redis \<Rightarrow> (rat \<Rightarrow> rat) \<Rightarrow> 'r app limiter \<Rightarrow> (sink_kind \<Rightarrow> 'r app \<Rightarrow> Event \<Rightarrow> 'r app \<times> (go_error + unit)) \<Rightarrow> plan \<Rightarrow>
   ('r app server \<Rightarrow> 'r app server) list" where
  "main_options sha R fl budget sink p =
     [WithKeys (pl_keys p), WithPriceSnapshot price_snapshot, WithMetrics] @
     (if pl_auth p then [WithKeyResolver (key_resolver sha)] @ (if pl_limiter p then [WithRateLimiter budget] else []) else []) @
     (if pl_precharger p then [WithPreCharge (pre_charge R)] else []) @
     (if pl_sinks p \<noteq> [] then [WithMeteringSink (CompositeSink_Emit (map sink (pl_sinks p)))] else []) @
     (case pl_upstream p of Routed snap (Some auto) \<Rightarrow> [WithModelResolver (model_resolver fl auto)] | _ \<Rightarrow> [])"

definition main_server ::
  "'r app server \<Rightarrow> 'r app upstream \<Rightarrow> (string \<Rightarrow> string) \<Rightarrow> 'r redis \<Rightarrow> (rat \<Rightarrow> rat) \<Rightarrow> 'r app limiter \<Rightarrow>
   (sink_kind \<Rightarrow> 'r app \<Rightarrow> Event \<Rightarrow> 'r app \<times> (go_error + unit)) \<Rightarrow> plan \<Rightarrow> 'r app server" where
  "main_server lib up sha R fl budget sink p = NewServer lib up (main_options sha R fl budget sink p)"

text \<open>The portal: the mock channel is always registered, Stripe with its key.\<close>

definition main_channels :: "environ \<Rightarrow> (int \<Rightarrow> int \<Rightarrow> go_error + string) \<Rightarrow> (int \<Rightarrow> int \<Rightarrow> go_error + string) \<Rightarrow> channels" where
  "main_channels getenv mock stripe =
     (if envOr getenv ''METERGATE_STRIPE_SECRET_KEY'' [] \<noteq> [] then [''mock'' \<mapsto> mock, ''stripe'' \<mapsto> stripe] else [''mock'' \<mapsto> mock])"

definition main_portal ::
  "'r API \<Rightarrow> environ \<Rightarrow> 'r redis \<Rightarrow> fault \<Rightarrow> plan \<Rightarrow> string jwt_lib \<Rightarrow> string oidc option \<Rightarrow> (int \<Rightarrow> int \<Rightarrow> go_error + string) \<Rightarrow>
   (int \<Rightarrow> int \<Rightarrow> go_error + string) \<Rightarrow> (string \<Rightarrow> int \<Rightarrow> go_error + UsageDay list) \<Rightarrow> (string \<Rightarrow> int \<Rightarrow> go_error + UsageByModelRow list) \<Rightarrow> 'r API" where
  "main_portal base getenv R f p J oc mock stripe byDay byModel =
     (let pre = (if pl_precharger p then Some R else None);
          api0 = New (base\<lparr>ap_topUp := top_up pre f, ap_chans := main_channels getenv mock stripe\<rparr>) (envOr getenv ''METERGATE_ADMIN_KEY'' []);
          api1 = (if envOr getenv ''METERGATE_STRIPE_SECRET_KEY'' [] \<noteq> []
                  then WithStripe (envOr getenv ''METERGATE_STRIPE_WEBHOOK_SECRET'' []) api0 else api0);
          api2 = (if pl_precharger p then WithBalance (balance_reader R f) api1 else api1);
          api3 = (if pl_store p = Single then WithUsageByModel byModel (WithUsage byDay api2) else api2);
          api4 = (if envOr getenv ''METERGATE_WEB_DIR'' [] \<noteq> [] then WithWeb api3 else api3);
          secret = envOr getenv ''METERGATE_JWT_SECRET'' [];
          api5 = (if secret \<noteq> [] then WithJWT (J, secret) api4 else api4)
      in case oc of
           Some o1 \<Rightarrow> if envOr getenv ''METERGATE_OIDC_PROVIDER_URL'' [] \<noteq> []
                      then WithOIDC (o1\<lparr>od_jwt := J, od_cfg := \<lparr>oc_AutoRegister = True\<rparr>,
                              od_secret := envOr getenv ''METERGATE_JWT_SECRET'' ''metergate-dev-secret-change-me-please-32''\<rparr>) api5
                      else api5
         | None \<Rightarrow> api5)"
section \<open>Starting up\<close>

lemma main_planE:
  assumes "main_plan getenv av = Inr p"
  obtains "pl_keys p \<noteq> []" "pl_keys p = splitKeys (getenv ''METERGATE_API_KEYS'')" "pl_consumer p = start_consumer getenv (pl_store p)"
    "pl_sinks p = sink_chain (start_sink (pl_store p)) (pl_consumer p) (start_bus getenv) (start_detail getenv av)"
    "pl_precharger p = start_precharger getenv av" "pl_auth p = start_auth getenv av" "start_upstream getenv av = Inr (pl_upstream p)"
    "start_store getenv av = Inr (pl_store p)"
  using assms by (auto simp: main_plan_def Let_def split: if_splits sum.splits)

text \<open>C13: Every event is settled on one path. In every configuration the process starts with, a database for orders
  means exactly one way to settle, the in-process queue or the consumer of the bus but never both, and the events the
  gateway emits reach it; without such a database nothing settles. No sink receives an event twice.\<close>

theorem one_settlement_path:
  assumes "main_plan getenv av = Inr p"
  shows "(if pl_store p = NoStore then InProcess \<notin> set (pl_sinks p) \<and> \<not> pl_consumer p
      else (InProcess \<in> set (pl_sinks p)) \<noteq> pl_consumer p \<and> (pl_consumer p \<longrightarrow> Bus \<in> set (pl_sinks p))) \<and> distinct (pl_sinks p)"
  by (rule main_planE [OF assms]) (auto simp: sink_chain_def start_sink_def start_consumer_def)

lemma main_server_fields:
  "sv_keys (main_server lib up sha R fl budget sink p) = Some (pl_keys p)"
  "sv_keyResolve (main_server lib up sha R fl budget sink p) = (if pl_auth p then Some (key_resolver sha) else None)"
  "sv_preCharge (main_server lib up sha R fl budget sink p) = (if pl_precharger p then Some (pre_charge R) else None)"
  "sv_upstream (main_server lib up sha R fl budget sink p) = up"
  "sv_sink (main_server lib up sha R fl budget sink p) =
     (if pl_sinks p \<noteq> [] then Some (CompositeSink_Emit (map sink (pl_sinks p))) else None)"
  "sv_limiter (main_server lib up sha R fl budget sink p) = (if pl_auth p \<and> pl_limiter p then Some budget else None)"
  by (auto simp: main_server_def main_options_def NewServer_def WithKeys_def WithRateLimiter_def WithKeyResolver_def WithMetrics_def
      WithPriceSnapshot_def WithModelResolver_def WithPreCharge_def WithMeteringSink_def split: upstream_kind.splits option.splits)

text \<open>C29: A started gateway is never open. Whatever the environment, the server that main builds accepts exactly the
  configured keys, none of which is empty, and the keys the account service resolves; any other credential
  is refused, so the mode in which every key is accepted cannot be reached.\<close>

theorem started_gateway_is_closed:
  assumes "main_plan getenv av = Inr p" and "sv = main_server lib up sha R fl budget sink p"
  shows "authenticate sv w key = (if key = [] then (w, None) else if key \<in> set (pl_keys p) then (w, Some key)
      else if pl_auth p then key_resolver sha w key else (w, None)) \<and> pl_keys p \<noteq> [] \<and> [] \<notin> set (pl_keys p)"
proof -
  have keys: "pl_keys p \<noteq> []" "pl_keys p = splitKeys (getenv ''METERGATE_API_KEYS'')" by (rule main_planE [OF assms(1)], assumption)+
  moreover have "[] \<notin> set (splitKeys raw)" for raw by (simp add: splitKeys_def)
  ultimately show ?thesis by (simp add: assms(2) authenticate_def main_server_fields)
qed

section \<open>One name for a user everywhere\<close>

lemma Sprintf_fmtInt: "in64 v \<Longrightarrow> v \<noteq> - 9223372036854775808 \<Longrightarrow> Sprintf_d v = fmtInt v"
  by (auto simp: Sprintf_d_def fmtInt_def Let_def wrap64_id in64_def)

lemma Sprintf_d_inj:
  assumes "in64 a" "in64 b" "0 < a" "0 < b" and "Sprintf_d a = Sprintf_d b"
  shows "a = b"
proof -
  have "ParseInt (fmtInt a) = Some a" by (rule fmtInt_roundtrip [THEN conjunct1]) (use assms in auto)
  moreover have "ParseInt (fmtInt b) = Some b" by (rule fmtInt_roundtrip [THEN conjunct1]) (use assms in auto)
  moreover have "fmtInt a = fmtInt b" using assms by (simp add: Sprintf_fmtInt)
  ultimately show ?thesis by (metis option.inject)
qed

lemma user_name_inj: "in64 a \<Longrightarrow> in64 b \<Longrightarrow> 0 < a \<Longrightarrow> 0 < b \<Longrightarrow> user_name a = user_name b \<Longrightarrow> a = b"
  by (rule Sprintf_d_inj) (simp_all add: user_name_def)

text \<open>A settled mock payment of a pending recharge, with both databases answering.\<close>

lemma Pay_mock:
  assumes "find_recharge db i = Some g" and "rg_status g = ''PENDING''" and "chans ''mock'' = Some (\<lambda>_ _. Inr txn)"
    and "\<forall>q\<in>set (pay_payments db). py_txn q \<noteq> txn" and "topUp (rg_user g) (rg_amount g) c = (c', Inr ())"
  shows "\<exists>db'. Pay chans topUp [] (db, c) i ''mock'' = ((db', c'), Inr txn)"
proof -
  have g: "g \<in> set (pay_recharges db)" "rg_id g = i" using find_recharge_ids [OF assms(1)] by simp_all
  have dup: "\<not> list_ex (\<lambda>q. py_channel q = ''mock'' \<and> py_txn q = txn) (pay_payments db)" using assms(4) by (auto simp: list_ex_iff)
  have pend: "list_ex (\<lambda>r. rg_id r = i \<and> rg_status r = ''PENDING'') (pay_recharges db)" using g assms(2) by (auto simp: list_ex_iff)
  have "find_recharge (mark_paid (db\<lparr>pay_payments := ps\<rparr>) i) i = Some (g\<lparr>rg_status := ''PAID''\<rparr>)" for ps
    using assms(1,2) by (simp add: find_recharge_def mark_paid_def find_map_paid)
  with assms dup pend show ?thesis
    by (simp add: Pay_def query_recharge_def SettleCallback_def insert_payment_def Let_def)
qed

section \<open>A concrete process\<close>

definition demo_environ :: environ where
  "demo_environ = (\<lambda>_. [])(''METERGATE_UPSTREAM'' := ''http://up'', ''METERGATE_API_KEYS'' := ''sk-a, sk-b,'',
     ''METERGATE_PG_DSN'' := ''pg'', ''METERGATE_REDIS_ADDR'' := ''rd'', ''METERGATE_KAFKA'' := ''k1'')"

definition demo_avail :: avail where
  "demo_avail = \<lparr>av_redis = True, av_pg = (\<lambda>_. True), av_click = False, av_auth = (\<lambda>_. True), av_read = (\<lambda>_. None), av_yaml = (\<lambda>_. None)\<rparr>"

definition demo_plan :: plan where
  "demo_plan = \<lparr>pl_port = ''3000'', pl_keys = [''sk-a'', ''sk-b''], pl_precharger = True, pl_store = Single, pl_consumer = True, pl_sinks = [Bus],
     pl_auth = True, pl_limiter = True, pl_admin = False, pl_upstream = SingleUpstream ''http://up'' []\<rparr>"

lemma demo_starts: "main_plan demo_environ demo_avail = Inr demo_plan"
proof -
  have "splitKeys ''sk-a, sk-b,'' = [''sk-a'', ''sk-b'']" "splitKeys ''k1'' = [''k1'']" by code_simp+
  then show ?thesis
    by (simp add: main_plan_def demo_environ_def demo_avail_def demo_plan_def envOr_def start_store_def start_admin_def start_upstream_def
        start_precharger_def start_consumer_def start_bus_def sink_chain_def start_sink_def start_detail_def start_auth_def)
qed

theorem one_settlement_path_witness: "pl_consumer demo_plan \<and> InProcess \<notin> set (pl_sinks demo_plan)"
  using one_settlement_path [OF demo_starts] by (simp add: demo_plan_def)

definition demo_app :: "(string \<times> int) list \<Rightarrow> (string \<times> int) list app" where
  "demo_app rd = \<lparr>wa_prices = init_prices, wa_redis = rd, wa_cache = NewCachedKeyStore 60000000, wa_auth = demo_auth, wa_time = 0, wa_faults = []\<rparr>"

definition demo_lib :: "(string \<times> int) list app server" where
  "demo_lib = \<lparr>sv_upstream = (\<lambda>w call f st. (w, st, call, Inl ErrUpstream)), sv_keys = None, sv_sink = None, sv_preCharge = None, sv_resolver = None,
     sv_priceSnap = None, sv_metrics = False, sv_keyResolve = None, sv_limiter = None, sv_now = (\<lambda>w. (w, 0)), sv_requestID = (\<lambda>w. (w, ''r'')),
     sv_unmarshal = (\<lambda>_. None), sv_usage = (\<lambda>_. None), sv_mustJSON = (\<lambda>_. [])\<rparr>"

definition demo_server :: "(string \<times> int) list app server" where
  "demo_server = main_server demo_lib (sv_upstream demo_lib) id mem_redis id \<lparr>lim_Allow = (\<lambda>w k e n. (w, 0, True)), lim_Done = (\<lambda>w k. w)\<rparr>
     (\<lambda>_ w ev. (w, Inr ())) demo_plan"

theorem started_gateway_is_closed_witness: "snd (authenticate demo_server (demo_app []) ''sk-x'') = None"
proof -
  have "snd (key_resolver id (demo_app []) ''sk-x'') = None" by code_simp
  with started_gateway_is_closed [OF demo_starts demo_server_def, of "demo_app []" "''sk-x''"] show ?thesis by (simp add: demo_plan_def)
qed


end
