(* ===== verification/Mock_Idp.thy ===== *)
theory Mock_Idp
  imports Wiring
begin

text \<open>
  The OpenID provider the repository brings for end-to-end tests, \<open>deploy/dex/mock-oidc/main.go\<close>, and the
  sign-on of \<open>Identity\<close> through it. JSON encoding and the RSA signature are arguments (\<open>jwt_lib\<close> has those of
  the session tokens, \<open>rs_lib\<close> those of the provider); base64url is defined here. A request is its query or form
  values. The OAuth and OpenID client libraries stay arguments of \<open>Identity\<close>: \<open>talks_to\<close> and \<open>verifies\<close> name what is
  relied on of them.
\<close>

section \<open>Configuration\<close>

record idp_client =
  cn_ID :: string
  cn_Secret :: string
  cn_RedirectURIs :: "string list"

record idp_user =
  iu_Subject :: string
  iu_Email :: string

record idp_config =
  ic_Issuer :: string
  ic_Clients :: "idp_client list"
  ic_Users :: "idp_user list"

definition defaultIssuer :: string where "defaultIssuer = ''http://127.0.0.1:5557''"
definition keyID :: string where "keyID = ''mock-rsa-1''"

definition default_users :: "idp_user list" where
  "default_users = [\<lparr>iu_Subject = ''oidc-user-alice'', iu_Email = ''alice@metergate.dev''\<rparr>]"

definition default_config :: idp_config where
  "default_config =
     \<lparr>ic_Issuer = defaultIssuer,
      ic_Clients = [\<lparr>cn_ID = ''metergate'', cn_Secret = ''mock-secret'',
        cn_RedirectURIs = [''http://localhost:3002/api/oidc/callback'', ''http://localhost:3202/api/oidc/callback'']\<rparr>],
      ic_Users = default_users\<rparr>"

text \<open>\<open>None\<close> is \<open>log.Fatalf\<close>: a file that is not valid JSON.\<close>

definition loadConfig :: "string option \<Rightarrow> (string \<Rightarrow> idp_config option) \<Rightarrow> idp_config option" where
  "loadConfig file unmarshal =
     (case file of
        None \<Rightarrow> Some default_config
      | Some data \<Rightarrow>
          (case unmarshal data of
             None \<Rightarrow> None
           | Some c \<Rightarrow>
               let c1 = (if ic_Issuer c = [] then c\<lparr>ic_Issuer := defaultIssuer\<rparr> else c)
               in Some (if ic_Users c1 = [] then c1\<lparr>ic_Users := default_users\<rparr> else c1)))"

definition findClient :: "idp_config \<Rightarrow> string \<Rightarrow> (string \<times> string list) option" where
  "findClient cfg i = map_option (\<lambda>c. (cn_Secret c, cn_RedirectURIs c)) (find (\<lambda>c. cn_ID c = i) (ic_Clients cfg))"

section \<open>Tokens\<close>

text \<open>\<open>base64.RawURLEncoding\<close>: three bytes become four characters, without padding.\<close>

definition b64_alphabet :: string where
  "b64_alphabet = ''ABCDEFGHIJKLMNOPQRSTUVWXYZabcdefghijklmnopqrstuvwxyz0123456789-_''"

fun sextets :: "nat list \<Rightarrow> nat list" where
  "sextets [] = []"
| "sextets [a] = [a div 4, a mod 4 * 16]"
| "sextets [a, b] = [a div 4, a mod 4 * 16 + b div 16, b mod 16 * 4]"
| "sextets (a # b # c # bs) = (a div 4) # (a mod 4 * 16 + b div 16) # (b mod 16 * 4 + c div 64) # (c mod 64) # sextets bs"

definition b64 :: "string \<Rightarrow> string" where
  "b64 s = map (\<lambda>n. b64_alphabet ! n) (sextets (map of_char s))"

record idp_claims =
  cm_iss :: string
  cm_sub :: string
  cm_aud :: string
  cm_exp :: int
  cm_iat :: int
  cm_email :: string
  cm_email_verified :: bool
  cm_name :: string
  cm_nonce :: string

record rs_lib =
  rs_header :: "string \<Rightarrow> string"
  rs_json :: "idp_claims \<Rightarrow> string"
  rs_sign :: "string \<Rightarrow> string"

definition signJWT :: "rs_lib \<Rightarrow> idp_claims \<Rightarrow> string" where
  "signJWT L claims =
     (let unsigned = b64 (rs_header L keyID) @ ''.'' @ b64 (rs_json L claims)
      in unsigned @ ''.'' @ b64 (rs_sign L unsigned))"

section \<open>Endpoints\<close>

text \<open>\<open>IPanic\<close> aborts the connection.\<close>

record jwk =
  jk_kty :: string
  jk_use :: string
  jk_alg :: string
  jk_kid :: string
  jk_n :: string
  jk_e :: string

record discovery_doc =
  dd_issuer :: string
  dd_authorization_endpoint :: string
  dd_token_endpoint :: string
  dd_jwks_uri :: string
  dd_response_types :: "string list"
  dd_subject_types :: "string list"
  dd_signing_algs :: "string list"
  dd_scopes :: "string list"

datatype idp_answer =
  IHttpError int string | IFound string | ITokens string | IDoc discovery_doc | IKeys "jwk list" | IPanic | INotFound

definition discovery :: "idp_config \<Rightarrow> idp_answer" where
  "discovery cfg =
     IDoc \<lparr>dd_issuer = ic_Issuer cfg, dd_authorization_endpoint = ic_Issuer cfg @ ''/authorize'',
       dd_token_endpoint = ic_Issuer cfg @ ''/token'', dd_jwks_uri = ic_Issuer cfg @ ''/keys'', dd_response_types = [''code''],
       dd_subject_types = [''public''], dd_signing_algs = [''RS256''], dd_scopes = [''openid'', ''profile'', ''email'']\<rparr>"

text \<open>\<open>nano\<close> is the clock; the query values are those after URL decoding.\<close>

definition authorize ::
  "idp_config \<Rightarrow> int \<Rightarrow> (string \<rightharpoonup> string) \<Rightarrow> (string \<Rightarrow> string) \<Rightarrow> (string \<rightharpoonup> string) \<times> idp_answer" where
  "authorize cfg nano codes q =
     (case findClient cfg (q ''client_id'') of
        None \<Rightarrow> (codes, IHttpError 400 ''bad client_id'')
      | Some (secret, redirects) \<Rightarrow>
          let redirect = q ''redirect_uri'' in
          if redirect \<notin> set redirects then (codes, IHttpError 400 ''bad redirect_uri'')
          else case ic_Users cfg of
            [] \<Rightarrow> (codes, IPanic)
          | u0 # us \<Rightarrow>
              let email = q ''user'';
                  subject = (case find (\<lambda>u. iu_Email u = email \<or> iu_Subject u = email) (u0 # us) of
                               None \<Rightarrow> iu_Subject u0 | Some u \<Rightarrow> iu_Subject u);
                  code = ''code-'' @ Sprintf_d nano
              in (codes(code \<mapsto> subject), IFound (redirect @ ''?code='' @ code @ ''&state='' @ q ''state'')))"

record token_request =
  tr_formErr :: bool
  tr_basic :: "(string \<times> string) option"
  tr_form :: "string \<Rightarrow> string"

definition token_claims :: "idp_config \<Rightarrow> int \<Rightarrow> string \<Rightarrow> string \<Rightarrow> idp_claims" where
  "token_claims cfg now client subject =
     (let email = (case find (\<lambda>u. iu_Subject u = subject) (ic_Users cfg) of
                     None \<Rightarrow> ''user@'' @ ic_Issuer cfg | Some u \<Rightarrow> iu_Email u)
      in \<lparr>cm_iss = ic_Issuer cfg, cm_sub = subject, cm_aud = client, cm_exp = now + 3600, cm_iat = now, cm_email = email,
          cm_email_verified = True, cm_name = email, cm_nonce = []\<rparr>)"

text \<open>The codes stay valid after use.\<close>

definition token :: "idp_config \<Rightarrow> rs_lib \<Rightarrow> int \<Rightarrow> (string \<rightharpoonup> string) \<Rightarrow> token_request \<Rightarrow> idp_answer" where
  "token cfg L now codes r =
     (if tr_formErr r then IHttpError 400 ''bad form''
      else
        let (u, p) = (case tr_basic r of Some up \<Rightarrow> up | None \<Rightarrow> (tr_form r ''client_id'', tr_form r ''client_secret'')) in
        case findClient cfg u of
          None \<Rightarrow> IHttpError 401 ''bad client auth''
        | Some (secret, redirects) \<Rightarrow>
            if p \<noteq> secret then IHttpError 401 ''bad client auth''
            else case codes (tr_form r ''code'') of
                   None \<Rightarrow> IHttpError 400 ''bad code''
                 | Some subject \<Rightarrow> ITokens (signJWT L (token_claims cfg now u subject)))"

text \<open>\<open>big.Int.Bytes\<close>: the absolute value, big-endian.\<close>

function int_bytes :: "nat \<Rightarrow> string" where
  "int_bytes n = (if n = 0 then [] else int_bytes (n div 256) @ [char_of (n mod 256)])"
  by pat_completeness auto
termination
  by (relation "measure id") auto

declare int_bytes.simps [simp del]

definition keys :: "nat \<Rightarrow> nat \<Rightarrow> idp_answer" where
  "keys n e = IKeys [\<lparr>jk_kty = ''RSA'', jk_use = ''sig'', jk_alg = ''RS256'', jk_kid = keyID, jk_n = b64 (int_bytes n), jk_e = b64 (int_bytes e)\<rparr>]"

definition idp_mux ::
  "idp_config \<Rightarrow> rs_lib \<Rightarrow> nat \<Rightarrow> nat \<Rightarrow> int \<Rightarrow> (string \<rightharpoonup> string) \<Rightarrow> string \<Rightarrow> (string \<Rightarrow> string) \<Rightarrow> token_request \<Rightarrow>
   (string \<rightharpoonup> string) \<times> idp_answer" where
  "idp_mux cfg L n e nano codes path q r =
     (if path = ''/.well-known/openid-configuration'' then (codes, discovery cfg)
      else if path = ''/authorize'' then authorize cfg nano codes q
      else if path = ''/token'' then (codes, token cfg L (nano div 1000000000) codes r)
      else if path = ''/keys'' then (codes, keys n e)
      else (codes, INotFound))"

section \<open>Decoding base64url\<close>

definition b64_value :: "char \<Rightarrow> nat" where
  "b64_value c = length (takeWhile (\<lambda>x. x \<noteq> c) b64_alphabet)"

fun octets :: "nat list \<Rightarrow> nat list" where
  "octets [] = []"
| "octets [p] = []"
| "octets [p, q] = [p * 4 + q div 16]"
| "octets [p, q, r] = [p * 4 + q div 16, q mod 16 * 16 + r div 4]"
| "octets (p # q # r # s # ss) = (p * 4 + q div 16) # (q mod 16 * 16 + r div 4) # (r mod 4 * 64 + s) # octets ss"

definition unb64 :: "string \<Rightarrow> string" where
  "unb64 s = map char_of (octets (map b64_value s))"

lemma sextets_small: "\<forall>b\<in>set bs. b < 256 \<Longrightarrow> \<forall>n\<in>set (sextets bs). n < 64"
  by (induction bs rule: sextets.induct) auto

lemma octets_sextets: "\<forall>b\<in>set bs. b < 256 \<Longrightarrow> octets (sextets bs) = bs"
  by (induction bs rule: sextets.induct) auto

lemma b64_value_nth: "n < 64 \<Longrightarrow> b64_value (b64_alphabet ! n) = n"
proof -
  assume "n < 64"
  moreover have "\<forall>n\<in>set [0..<64]. b64_value (b64_alphabet ! n) = n" by code_simp
  ultimately show ?thesis by simp
qed

lemma unb64_b64 [simp]: "unb64 (b64 s) = s"
proof -
  have small: "\<forall>b\<in>set (map of_char s :: nat list). b < 256" by (auto simp: of_char_def less_imp_le) 
  then have "map b64_value (b64 s) = sextets (map of_char s)"
    using sextets_small [of "map of_char s"] by (auto simp: b64_def b64_value_nth intro: map_idI)
  with small show ?thesis by (simp add: unb64_def octets_sextets comp_def)
qed

lemma b64_no_dot: "CHR ''.'' \<notin> set (b64 s)"
proof
  assume "CHR ''.'' \<in> set (b64 s)"
  then obtain n where n: "n \<in> set (sextets (map of_char s))" "b64_alphabet ! n = CHR ''.''" by (auto simp: b64_def)
  have "\<forall>b\<in>set (map of_char s :: nat list). b < 256" by (auto simp: of_char_def less_imp_le)
  then have "n < 64" using n(1) sextets_small by blast
  then have "b64_alphabet ! n \<in> set b64_alphabet" by (intro nth_mem) (simp add: b64_alphabet_def)
  moreover have "CHR ''.'' \<notin> set b64_alphabet" by code_simp
  ultimately show False using n(2) by simp
qed

lemma split_on_last: "sep \<notin> set w \<Longrightarrow> split_on sep w = [w]"
  by (induction w) auto

lemma split_on_part: "sep \<notin> set w \<Longrightarrow> split_on sep (w @ sep # rest) = w # split_on sep rest"
  by (induction w) auto

lemma signJWT_split:
  "split_on (CHR ''.'') (signJWT L c) =
     [b64 (rs_header L keyID), b64 (rs_json L c), b64 (rs_sign L (b64 (rs_header L keyID) @ ''.'' @ b64 (rs_json L c)))]"
  by (simp add: signJWT_def Let_def split_on_part split_on_last b64_no_dot)


definition bytes_value :: "string \<Rightarrow> nat" where
  "bytes_value s = foldl (\<lambda>v c. v * 256 + of_char c) 0 s"

lemma bytes_value_snoc: "bytes_value (s @ [c]) = bytes_value s * 256 + of_char c"
  by (simp add: bytes_value_def)

lemma int_bytes_value: "bytes_value (int_bytes n) = n"
proof (induction n rule: less_induct)
  case (less n)
  show ?case
  proof (cases "n = 0")
    case False
    then have "bytes_value (int_bytes (n div 256)) = n div 256" by (intro less) simp
    with False show ?thesis by (subst int_bytes.simps) (simp add: bytes_value_snoc)
  qed (simp add: int_bytes.simps [of 0] bytes_value_def)
qed

text \<open>Theorem: The key set holds the public key: modulus and exponent decode to the numbers of the key, with the key id the
  tokens name.\<close>

theorem jwks_publishes_the_key:
  "\<exists>k. keys n e = IKeys [k] \<and> jk_kid k = keyID \<and> bytes_value (unb64 (jk_n k)) = n \<and> bytes_value (unb64 (jk_e k)) = e"
  by (simp add: keys_def int_bytes_value)

section \<open>Signing on through the provider\<close>

text \<open>The values of a URL's query, for values without escapes.\<close>

definition query_value :: "string \<Rightarrow> string \<Rightarrow> string" where
  "query_value url k =
     (case map_of (map (\<lambda>p. (takeWhile (\<lambda>c. c \<noteq> CHR ''='') p, tl (dropWhile (\<lambda>c. c \<noteq> CHR ''='') p)))
                  (split_on (CHR ''&'') (tl (dropWhile (\<lambda>c. c \<noteq> CHR ''?'') url)))) k of
        Some v \<Rightarrow> v | None \<Rightarrow> [])"

lemma query_value_location:
  assumes "CHR ''?'' \<notin> set uri" and "CHR ''&'' \<notin> set code" and "CHR ''&'' \<notin> set st"
  shows "query_value (uri @ ''?code='' @ code @ ''&state='' @ st) ''code'' = code"
    and "query_value (uri @ ''?code='' @ code @ ''&state='' @ st) ''state'' = st"
proof -
  have "dropWhile (\<lambda>c. c \<noteq> CHR ''?'') (uri @ CHR ''?'' # r) = CHR ''?'' # r" for r
    using assms(1) by (induction uri) auto
  moreover have "split_on (CHR ''&'') (''code='' @ code @ ''&state='' @ st) = [''code='' @ code, ''state='' @ st]"
    using split_on_part [of "CHR ''&''" "''code='' @ code" "''state='' @ st"] split_on_last [of "CHR ''&''" "''state='' @ st"] assms(2,3)
    by simp
  ultimately show "query_value (uri @ ''?code='' @ code @ ''&state='' @ st) ''code'' = code"
    and "query_value (uri @ ''?code='' @ code @ ''&state='' @ st) ''state'' = st"
    by (simp_all add: query_value_def)
qed

lemma Sprintf_d_clean: "0 < n \<Longrightarrow> CHR ''&'' \<notin> set (Sprintf_d n)"
  using itoa_loop_value [of n] by (auto simp: Sprintf_d_def list_all_iff is_digit_def)

text \<open>
  What is relied on of the client libraries: \<open>Exchange\<close> sends the code and the client's credentials to the token
  endpoint and returns the token of the answer; \<open>Verify\<close> accepts a token of the provider for this client that has not expired.
\<close>

definition exchange_request :: "string \<Rightarrow> string \<Rightarrow> string \<Rightarrow> token_request" where
  "exchange_request client secret code =
     \<lparr>tr_formErr = False, tr_basic = Some (client, secret), tr_form = (\<lambda>k. if k = ''code'' then code else [])\<rparr>"

definition talks_to :: "idp_config \<Rightarrow> rs_lib \<Rightarrow> int \<Rightarrow> (string \<rightharpoonup> string) \<Rightarrow> string \<Rightarrow> string \<Rightarrow> idp \<Rightarrow> bool" where
  "talks_to cfg L now codes client secret I \<longleftrightarrow>
     (\<forall>code. ip_exchange I code =
        (case token cfg L now codes (exchange_request client secret code) of ITokens t \<Rightarrow> Some t | _ \<Rightarrow> None))"

definition verifies :: "idp_config \<Rightarrow> rs_lib \<Rightarrow> int \<Rightarrow> string \<Rightarrow> idp \<Rightarrow> bool" where
  "verifies cfg L now client I \<longleftrightarrow>
     (\<forall>c. cm_iss c = ic_Issuer cfg \<and> cm_aud c = client \<and> now < cm_exp c \<longrightarrow>
        ip_verify I (signJWT L c) = Some \<lparr>it_Subject = cm_sub c, it_Email = cm_email c\<rparr>)"

lemma authorize_keeps:
  assumes "codes (''code-'' @ Sprintf_d nano) = Some s" and "n \<noteq> nano" and "0 < n" "in64 n" "0 < nano" "in64 nano"
  shows "fst (authorize cfg n codes q) (''code-'' @ Sprintf_d nano) = Some s"
  using assms Sprintf_d_inj [of n nano] by (auto simp: authorize_def Let_def split: option.split list.split)

lemma authorize_others_keep:
  assumes "codes (''code-'' @ Sprintf_d nano) = Some s" and "0 < nano" "in64 nano"
    and "\<forall>(n, q)\<in>set others. n \<noteq> nano \<and> 0 < n \<and> in64 n"
  shows "foldl (\<lambda>cs (n, q). fst (authorize cfg n cs q)) codes others (''code-'' @ Sprintf_d nano) = Some s"
  using assms
proof (induction others arbitrary: codes)
  case (Cons x others)
  obtain n q where x: "x = (n, q)" by fastforce
  have "fst (authorize cfg n codes q) (''code-'' @ Sprintf_d nano) = Some s"
    by (rule authorize_keeps) (use Cons.prems x in auto)
  then have "foldl (\<lambda>cs (n, q). fst (authorize cfg n cs q)) (fst (authorize cfg n codes q)) others (''code-'' @ Sprintf_d nano) = Some s"
    by (rule Cons.IH) (use Cons.prems in auto)
  with x show ?case by simp
qed simp

lemma authorize_user:
  assumes "findClient cfg (q ''client_id'') = Some (secret, redirects)" and "q ''redirect_uri'' \<in> set redirects"
    and "find (\<lambda>u. iu_Email u = q ''user'' \<or> iu_Subject u = q ''user'') (ic_Users cfg) = Some u"
  shows "authorize cfg nano codes q =
    (codes(''code-'' @ Sprintf_d nano \<mapsto> iu_Subject u), IFound (q ''redirect_uri'' @ ''?code='' @ (''code-'' @ Sprintf_d nano) @ ''&state='' @ q ''state''))"
  using assms by (cases "ic_Users cfg") (simp_all add: authorize_def Let_def)

text \<open>C27: Signing on through the repository's own provider works from end to end. A browser that is sent to the provider for a
  known user comes back with the state it left with and a code; whoever else signs on in between, the callback
  with that state and code opens a session for a new account under the user's email, linked to the user's
  subject. A code the provider did not give out opens no session and changes nothing.\<close>

theorem sign_on_through_the_provider:
  assumes "findClient cfg (q ''client_id'') = Some (secret, redirects)" and "q ''redirect_uri'' \<in> set redirects"
    and "CHR ''?'' \<notin> set (q ''redirect_uri'')" and "q ''state'' \<noteq> []" and "CHR ''&'' \<notin> set (q ''state'')"
    and "find (\<lambda>u. iu_Email u = q ''user'' \<or> iu_Subject u = q ''user'') (ic_Users cfg) = Some u"
    and "find (\<lambda>x. iu_Subject x = iu_Subject u) (ic_Users cfg) = Some u" and "iu_Email u \<noteq> []"
    and "authorize cfg nano codes q = (codes1, ans)" and "0 < nano" and "in64 nano"
    and "\<forall>(n, r)\<in>set others. n \<noteq> nano \<and> 0 < n \<and> in64 n"
    and "codes2 = foldl (\<lambda>cs (n, r). fst (authorize cfg n cs r)) codes1 others"
    and "talks_to cfg L now codes2 (q ''client_id'') secret (od_idp oc)" and "verifies cfg L now (q ''client_id'') (od_idp oc)"
    and "jwt_laws (od_jwt oc)" and "oc_AutoRegister (od_cfg oc)" and "od_gen oc (randomPassword raw) = Some h" and "length raw = 16"
    and "find_identity db (iu_Subject u) = None" and "find_username db (iu_Email u) = None"
  shows "\<exists>loc db' tk. ans = IFound loc \<and> query_value loc ''state'' = q ''state'' \<and>
      handleCallback oc t raw [] db (Some (q ''state'')) (query_value loc ''state'') (query_value loc ''code'') = (db', Session tk) \<and>
      Verify (od_jwt oc) (od_secret oc) t tk = Inr (the_claims t (sq_user (ad_seqs db)) (iu_Email u)) \<and>
      linked (iu_Subject u) (sq_user (ad_seqs db)) db' \<and>
      (\<forall>st code fs. codes2 code = None \<longrightarrow> handleCallback oc t raw fs db (Some (q ''state'')) st code \<in> {(db, BadState), (db, LoginFailed)})"
proof -
  let ?code = "''code-'' @ Sprintf_d nano"
  define loc where "loc = q ''redirect_uri'' @ ''?code='' @ ?code @ ''&state='' @ q ''state''"
  note first = authorize_user [OF assms(1,2,6), of nano codes, folded loc_def]
  have ans: "ans = IFound loc" and codes1: "codes1 ?code = Some (iu_Subject u)" using first assms(9) by auto
  have codes2: "codes2 ?code = Some (iu_Subject u)" unfolding assms(13) by (rule authorize_others_keep) (use codes1 assms in auto)
  let ?c = "token_claims cfg now (q ''client_id'') (iu_Subject u)"
  have "ip_exchange (od_idp oc) ?code = Some (signJWT L ?c)"
    using assms(1,14) codes2 by (simp add: talks_to_def token_def exchange_request_def)
  moreover have "ip_verify (od_idp oc) (signJWT L ?c) = Some \<lparr>it_Subject = iu_Subject u, it_Email = iu_Email u\<rparr>"
    using assms(7,15) by (simp add: verifies_def token_claims_def Let_def)
  ultimately obtain db' where callback: "Callback oc t raw [] db ?code =
      (db', Inr (Sign (od_jwt oc) (od_secret oc) t (sq_user (ad_seqs db)) (iu_Email u)))" and link: "linked (iu_Subject u) (sq_user (ad_seqs db)) db'"
    using resolveUser_new [of db "iu_Subject u" "iu_Email u" "od_cfg oc" "od_gen oc" raw h] assms(8,17-21)
    by (auto simp: Callback_def Let_def)
  have q: "query_value loc ''code'' = ?code" "query_value loc ''state'' = q ''state''"
    unfolding loc_def by (rule query_value_location; use assms(3,5,10) Sprintf_d_clean in simp)+
  have "ip_exchange (od_idp oc) code = None" if "codes2 code = None" for code
    using assms(1,14) that by (simp add: talks_to_def token_def exchange_request_def)
  then have "handleCallback oc t raw fs db (Some (q ''state'')) st code \<in> {(db, BadState), (db, LoginFailed)}" if "codes2 code = None" for st code fs
    using that by (simp add: handleCallback_def Callback_def)
  moreover have "handleCallback oc t raw [] db (Some (q ''state'')) (q ''state'') ?code =
      (db', Session (Sign (od_jwt oc) (od_secret oc) t (sq_user (ad_seqs db)) (iu_Email u)))"
    using callback assms(4) by (simp add: handleCallback_def)
  ultimately show ?thesis using ans q link verify_fresh [OF assms(16)] by auto
qed

section \<open>A concrete sign-on\<close>

definition demo_rs :: rs_lib where
  "demo_rs = \<lparr>rs_header = id, rs_json = (\<lambda>c. replicate (length (cm_sub c)) CHR ''x'' @ ''.'' @ cm_sub c @ cm_email c), rs_sign = id\<rparr>"

definition demo_verify :: "string \<Rightarrow> id_token option" where
  "demo_verify tok =
     (case split_on (CHR ''.'') tok of
        [h, b, s] \<Rightarrow>
          let j = unb64 b; n = length (takeWhile (\<lambda>c. c = CHR ''x'') j); rest = drop (n + 1) j
          in Some \<lparr>it_Subject = take n rest, it_Email = drop n rest\<rparr>
      | _ \<Rightarrow> None)"

lemma demo_verify_token: "demo_verify (signJWT demo_rs c) = Some \<lparr>it_Subject = cm_sub c, it_Email = cm_email c\<rparr>"
proof -
  have "takeWhile (\<lambda>c. c = CHR ''x'') (replicate n CHR ''x'' @ ''.'' @ r) = replicate n CHR ''x''" for n r
    by (induction n) auto
  then show ?thesis by (simp add: demo_verify_def signJWT_split demo_rs_def Let_def)
qed

definition demo_provider :: "(string \<rightharpoonup> string) \<Rightarrow> idp" where
  "demo_provider codes =
     \<lparr>ip_exchange = (\<lambda>code. case token default_config demo_rs 1000 codes (exchange_request ''metergate'' ''mock-secret'' code) of
        ITokens t \<Rightarrow> Some t | _ \<Rightarrow> None), ip_verify = demo_verify\<rparr>"

definition demo_query :: "string \<Rightarrow> string" where
  "demo_query k =
     (if k = ''client_id'' then ''metergate'' else if k = ''redirect_uri'' then ''http://localhost:3002/api/oidc/callback''
      else if k = ''state'' then ''s1'' else if k = ''user'' then ''alice@metergate.dev'' else [])"

theorem sign_on_through_the_provider_witness:
  "\<exists>loc db' tk. snd (authorize default_config 7 Map.empty demo_query) = IFound loc \<and>
     handleCallback (demo_oidc\<lparr>od_idp := demo_provider (fst (authorize default_config 7 Map.empty demo_query))\<rparr>) 5 (replicate 16 CHR ''r'') [] demo_auth
       (Some ''s1'') (query_value loc ''state'') (query_value loc ''code'') = (db', Session tk) \<and> linked ''oidc-user-alice'' 2 db'"
proof -
  let ?codes = "fst (authorize default_config 7 Map.empty demo_query)"
  let ?oc = "demo_oidc\<lparr>od_idp := demo_provider ?codes\<rparr>" and ?u = "\<lparr>iu_Subject = ''oidc-user-alice'', iu_Email = ''alice@metergate.dev''\<rparr>"
  have client: "findClient default_config (demo_query ''client_id'') =
      Some (''mock-secret'', [''http://localhost:3002/api/oidc/callback'', ''http://localhost:3202/api/oidc/callback''])" by code_simp
  have users: "find (\<lambda>u. iu_Email u = demo_query ''user'' \<or> iu_Subject u = demo_query ''user'') (ic_Users default_config) = Some ?u"
    "find (\<lambda>x. iu_Subject x = iu_Subject ?u) (ic_Users default_config) = Some ?u" by code_simp+
  have fresh: "find_identity demo_auth (iu_Subject ?u) = None" "find_username demo_auth (iu_Email ?u) = None" "sq_user (ad_seqs demo_auth) = 2"
    by code_simp+
  have talks: "talks_to default_config demo_rs 1000 ?codes (demo_query ''client_id'') ''mock-secret'' (od_idp ?oc)"
    by (simp add: talks_to_def demo_provider_def demo_query_def)
  have ver: "verifies default_config demo_rs 1000 (demo_query ''client_id'') (od_idp ?oc)"
    by (simp add: verifies_def demo_provider_def demo_verify_token)
  have "authorize default_config 7 Map.empty demo_query = (?codes, snd (authorize default_config 7 Map.empty demo_query))" by simp
  from sign_on_through_the_provider [where others = "[]" and ?codes2.0 = ?codes and raw = "replicate 16 CHR ''r''" and
      h = "randomPassword (replicate 16 CHR ''r'')" and t = 5 and oc = ?oc and db = demo_auth, OF client _ _ _ _ users _ this _ _ _ _ talks ver _ _ _ _ fresh(1,2)] fresh(3)
  show ?thesis by (auto simp: demo_query_def in64_def demo_oidc_def plain_jwt_laws)
qed

end
