(* ===== verification/Gauges.thy ===== *)
theory Gauges
  imports Wiring
begin

text \<open>
  The periodic gauges, \<open>internal/obs/collector.go\<close>, and the part of \<open>cmd/metergate/main.go\<close> that gives
  the collector its providers. Gauges are the numbers Prometheus keeps; a gauge with labels is a
  map from the label to a number. The providers are functions of the state the process is in when a
  tick of the interval fires. \<open>float64\<close> of an integer is \<open>fl\<close> of it.
\<close>

section \<open>Gauges and providers\<close>

record gauges =
  mg_FrozenBalanceMicros :: rat
  mg_KafkaConsumerLag :: rat
  mg_ChannelHealth :: "string \<rightharpoonup> rat"
  mg_ChannelBreakerState :: "string \<rightharpoonup> rat"

definition zero_gauges :: gauges where
  "zero_gauges = \<lparr>mg_FrozenBalanceMicros = 0, mg_KafkaConsumerLag = 0, mg_ChannelHealth = Map.empty, mg_ChannelBreakerState = Map.empty\<rparr>"

record ChannelState =
  ct_ID :: string
  ct_Healthy :: bool
  ct_BreakerState :: string

record 's Collector =
  co_frozen :: "('s \<Rightarrow> go_error + int) option"
  co_kafkaLag :: "('s \<Rightarrow> go_error + int) option"
  co_channels :: "('s \<Rightarrow> ChannelState list) option"
  co_interval :: int

definition NewCollector :: "'s Collector" where
  "NewCollector = \<lparr>co_frozen = None, co_kafkaLag = None, co_channels = None, co_interval = 30 * 1000000\<rparr>"

definition WithFrozen :: "('s \<Rightarrow> go_error + int) \<Rightarrow> 's Collector \<Rightarrow> 's Collector" where
  "WithFrozen fn c = c\<lparr>co_frozen := Some fn\<rparr>"

definition WithKafkaLag :: "('s \<Rightarrow> go_error + int) \<Rightarrow> 's Collector \<Rightarrow> 's Collector" where
  "WithKafkaLag fn c = c\<lparr>co_kafkaLag := Some fn\<rparr>"

definition WithChannels :: "('s \<Rightarrow> ChannelState list) \<Rightarrow> 's Collector \<Rightarrow> 's Collector" where
  "WithChannels fn c = c\<lparr>co_channels := Some fn\<rparr>"

section \<open>Refreshing\<close>

definition breakerValue :: "string \<Rightarrow> rat" where
  "breakerValue state = (if state = ''open'' then 1 else if state = ''half_open'' then 2 else 0)"

definition set_frozen :: "(rat \<Rightarrow> rat) \<Rightarrow> 's Collector \<Rightarrow> 's \<Rightarrow> gauges \<Rightarrow> gauges" where
  "set_frozen fl c s m =
     (case co_frozen c of
        None \<Rightarrow> m
      | Some fn \<Rightarrow> (case fn s of Inr v \<Rightarrow> m\<lparr>mg_FrozenBalanceMicros := fl (of_int v)\<rparr> | Inl e \<Rightarrow> m))"

definition set_lag :: "(rat \<Rightarrow> rat) \<Rightarrow> 's Collector \<Rightarrow> 's \<Rightarrow> gauges \<Rightarrow> gauges" where
  "set_lag fl c s m =
     (case co_kafkaLag c of
        None \<Rightarrow> m
      | Some fn \<Rightarrow> (case fn s of Inr v \<Rightarrow> m\<lparr>mg_KafkaConsumerLag := fl (of_int v)\<rparr> | Inl e \<Rightarrow> m))"

definition set_channel :: "gauges \<Rightarrow> ChannelState \<Rightarrow> gauges" where
  "set_channel m ch =
     m\<lparr>mg_ChannelHealth := (mg_ChannelHealth m)(ct_ID ch \<mapsto> (if ct_Healthy ch then 1 else 0)),
       mg_ChannelBreakerState := (mg_ChannelBreakerState m)(ct_ID ch \<mapsto> breakerValue (ct_BreakerState ch))\<rparr>"

definition refresh :: "(rat \<Rightarrow> rat) \<Rightarrow> 's Collector \<Rightarrow> gauges \<Rightarrow> 's \<Rightarrow> gauges" where
  "refresh fl c m s =
     (let m1 = set_lag fl c s (set_frozen fl c s m)
      in case co_channels c of None \<Rightarrow> m1 | Some fn \<Rightarrow> foldl set_channel m1 (fn s))"

text \<open>\<open>Run\<close> refreshes once at the start and then at every tick, here with the states it finds.\<close>

definition Collector_Run :: "(rat \<Rightarrow> rat) \<Rightarrow> 's Collector \<Rightarrow> gauges \<Rightarrow> 's \<Rightarrow> 's list \<Rightarrow> gauges" where
  "Collector_Run fl c m s ticks = foldl (refresh fl c) (refresh fl c m s) ticks"

section \<open>The providers main attaches\<close>

record 'r obs_world =
  ow_redis :: 'r
  ow_sched :: sched
  ow_lag :: int
  ow_router :: Router

fun State_name :: "breaker_state option \<Rightarrow> string" where
  "State_name (Some stateClosed) = ''closed''"
| "State_name (Some stateOpen) = ''open''"
| "State_name (Some stateHalfOpen) = ''half_open''"
| "State_name None = ''unknown''"

definition channel_states :: "ModelRoute list \<Rightarrow> Router \<Rightarrow> ChannelState list" where
  "channel_states snap rr =
     map (\<lambda>i. case ChannelHealth rr i of (healthy, state) \<Rightarrow>
        \<lparr>ct_ID = i, ct_Healthy = healthy, ct_BreakerState = State_name state\<rparr>) (Channels snap)"

definition main_collector :: "'r redis \<Rightarrow> plan \<Rightarrow> 'r obs_world Collector" where
  "main_collector R p =
     (let c0 = NewCollector;
          c1 = (if pl_precharger p then WithFrozen (\<lambda>w. fst (FrozenBalance R (ow_sched w) (ow_redis w))) c0 else c0);
          c2 = (if pl_consumer p then WithKafkaLag (\<lambda>w. Inr (ow_lag w)) c1 else c1)
      in case pl_upstream p of
           Routed snap auto \<Rightarrow> WithChannels (\<lambda>w. channel_states snap (ow_router w)) c2
         | SingleUpstream url key \<Rightarrow> c2)"

section \<open>What the gauges show\<close>

definition breaker_level :: "breaker_state option \<Rightarrow> rat" where
  "breaker_level st = (case st of Some stateOpen \<Rightarrow> 1 | Some stateHalfOpen \<Rightarrow> 2 | _ \<Rightarrow> 0)"

lemma breakerValue_name: "breakerValue (State_name st) = breaker_level st"
  by (cases st rule: State_name.cases) (simp_all add: breakerValue_def breaker_level_def)

lemma foldl_set_channel_sums:
  "mg_FrozenBalanceMicros (foldl set_channel m chs) = mg_FrozenBalanceMicros m"
  "mg_KafkaConsumerLag (foldl set_channel m chs) = mg_KafkaConsumerLag m"
  by (induction chs arbitrary: m) (simp_all add: set_channel_def)

lemma foldl_channels:
  assumes "\<And>i. ct_ID (f i) = i"
  shows "mg_ChannelHealth (foldl set_channel m (map f ids)) =
      (\<lambda>i. if i \<in> set ids then Some (if ct_Healthy (f i) then 1 else 0) else mg_ChannelHealth m i)"
    and "mg_ChannelBreakerState (foldl set_channel m (map f ids)) =
      (\<lambda>i. if i \<in> set ids then Some (breakerValue (ct_BreakerState (f i))) else mg_ChannelBreakerState m i)"
  by (induction ids arbitrary: m) (auto simp: set_channel_def assms fun_eq_iff)

lemma main_collector_fields:
  "co_frozen (main_collector R p) = (if pl_precharger p then Some (\<lambda>w. fst (FrozenBalance R (ow_sched w) (ow_redis w))) else None)"
  "co_kafkaLag (main_collector R p) = (if pl_consumer p then Some (\<lambda>w. Inr (ow_lag w)) else None)"
  "co_channels (main_collector R p) =
     (case pl_upstream p of Routed snap auto \<Rightarrow> Some (\<lambda>w. channel_states snap (ow_router w)) | SingleUpstream url key \<Rightarrow> None)"
  by (simp_all add: main_collector_def NewCollector_def WithFrozen_def WithKafkaLag_def WithChannels_def Let_def split: upstream_kind.split)


text \<open>Theorem: A sweep that fails leaves the frozen gauge at its last value, which nothing marks as old.\<close>

theorem failed_sweep_keeps_gauge:
  assumes "ow_sched w = f # fs" and "f \<noteq> NoFault"
  shows "mg_FrozenBalanceMicros (Collector_Run fl (main_collector R p) m0 w0 (ws @ [w])) =
    mg_FrozenBalanceMicros (Collector_Run fl (main_collector R p) m0 w0 ws)"
  using assms by (cases f) (simp_all add: Collector_Run_def refresh_def Let_def foldl_set_channel_sums set_lag_def set_frozen_def
      main_collector_fields FrozenBalance_def split: option.split)

section \<open>A concrete process\<close>

definition routed_plan :: plan where
  "routed_plan = demo_plan\<lparr>pl_upstream := Routed [sample_route] None\<rparr>"

definition demo_obs :: "(string \<times> int) list \<Rightarrow> (string \<times> int) list obs_world" where
  "demo_obs rd = \<lparr>ow_redis = rd, ow_sched = [], ow_lag = 3, ow_router = NewRouterWithAuto 0 [sample_route]\<rparr>"


theorem failed_sweep_keeps_gauge_witness:
  "mg_FrozenBalanceMicros (Collector_Run id (main_collector mem_redis demo_plan) zero_gauges (demo_obs [(frozenKey ''u'', 200)])
     [(demo_obs [])\<lparr>ow_sched := [FailBefore]\<rparr>]) =
   mg_FrozenBalanceMicros (Collector_Run id (main_collector mem_redis demo_plan) zero_gauges (demo_obs [(frozenKey ''u'', 200)]) [])"
  using failed_sweep_keeps_gauge [of "(demo_obs [])\<lparr>ow_sched := [FailBefore]\<rparr>" FailBefore "[]" id mem_redis demo_plan zero_gauges _ "[]"] by simp

section \<open>The quota monitor\<close>

text \<open>\<open>Run\<close> of the monitor: a sample at the start and at every tick, each with the time, the server and the answer of the
  scope query it finds.\<close>

definition Monitor_Run ::
  "'z limit_redis \<Rightarrow> (string \<times> string \<rightharpoonup> rat) \<times> sched \<Rightarrow> int \<times> 'z \<times> (go_error + Scope list) option \<Rightarrow>
   (int \<times> 'z \<times> (go_error + Scope list) option) list \<Rightarrow> (string \<times> string \<rightharpoonup> rat) \<times> sched" where
  "Monitor_Run Z g first ticks = foldl (\<lambda>g (t, s, query). sample Z t s query g) g (first # ticks)"

abbreviation gauge_key :: "Scope \<Rightarrow> string \<times> string" where
  "gauge_key sc \<equiv> (sc_Layer sc, scopeName (sc_Layer sc) (sc_ID sc))"

definition scope_usage :: "'z limit_redis \<Rightarrow> int \<Rightarrow> 'z \<Rightarrow> Scope \<Rightarrow> rat" where
  "scope_usage Z t s sc =
     (let entries = (\<lambda>kind. int (length (z_range Z t s (''rl:'' @ scopeName (sc_Layer sc) (sc_ID sc) @ kind))))
      in if sc_TPM sc > 0 then usage_ratio (entries '':tpm'') (sc_TPM sc) else usage_ratio (entries '':rpm'') (sc_RPM sc))"

lemma sample_scope_answered:
  "sample_scope Z t s (m, []) sc =
     (if sc_RPM sc > 0 \<or> sc_TPM sc > 0 then m(gauge_key sc \<mapsto> scope_usage Z t s sc) else m, [])"
  by (auto simp: sample_scope_def scope_usage_def Let_def)

lemma sample_scopes_answered:
  assumes "distinct (map gauge_key scopes)"
  shows "\<exists>m'. foldl (sample_scope Z t s) (m, []) scopes = (m', []) \<and>
    (\<forall>sc\<in>set scopes. sc_RPM sc > 0 \<or> sc_TPM sc > 0 \<longrightarrow> m' (gauge_key sc) = Some (scope_usage Z t s sc)) \<and>
    (\<forall>k. k \<notin> set (map gauge_key scopes) \<longrightarrow> m' k = m k)"
  using assms
proof (induction scopes arbitrary: m)
  case (Cons sc scopes)
  let ?m = "if sc_RPM sc > 0 \<or> sc_TPM sc > 0 then m(gauge_key sc \<mapsto> scope_usage Z t s sc) else m"
  obtain m' where m': "foldl (sample_scope Z t s) (?m, []) scopes = (m', [])"
    and set: "\<forall>sc\<in>set scopes. sc_RPM sc > 0 \<or> sc_TPM sc > 0 \<longrightarrow> m' (gauge_key sc) = Some (scope_usage Z t s sc)"
    and keep: "\<forall>k. k \<notin> set (map gauge_key scopes) \<longrightarrow> m' k = ?m k"
    using Cons.IH [of ?m] Cons.prems unfolding list.map distinct.simps by blast
  have "m' (gauge_key sc) = ?m (gauge_key sc)" using keep Cons.prems unfolding list.map distinct.simps by blast
  moreover have "m' k = m k" if "k \<notin> set (map gauge_key (sc # scopes))" for k
    using keep [rule_format, of k] that by simp
  ultimately show ?case using m' set by (auto simp: sample_scope_answered)
qed simp

text \<open>Theorem: The quota gauge of a scope is its share of the window. After a tick at which the database and Redis answer, every
  scope with a quota shows the entries of its window over its limit, never more than 1; with both quotas it is the token
  quota that shows. Scopes the query no longer names keep their last value.\<close>

theorem quota_gauges_show_usage:
  assumes "Monitor_Run Z g first ticks = (m, [])" and "distinct (map gauge_key scopes)"
  shows "\<exists>m'. Monitor_Run Z g first (ticks @ [(t, s, Some (Inr scopes))]) = (m', []) \<and>
    (\<forall>sc\<in>set scopes. sc_RPM sc > 0 \<or> sc_TPM sc > 0 \<longrightarrow>
       m' (gauge_key sc) = Some (scope_usage Z t s sc) \<and> 0 \<le> scope_usage Z t s sc \<and> scope_usage Z t s sc \<le> 1) \<and>
    (\<forall>k. k \<notin> set (map gauge_key scopes) \<longrightarrow> m' k = m k)"
proof -
  have "Monitor_Run Z g first (ticks @ [(t, s, Some (Inr scopes))]) = foldl (sample_scope Z t s) (m, []) scopes"
    using assms(1) by (simp add: Monitor_Run_def sample_def)
  moreover have "0 \<le> scope_usage Z t s sc \<and> scope_usage Z t s sc \<le> 1" for sc
    by (simp add: scope_usage_def Let_def usage_ratio_bounds)
  ultimately show ?thesis using sample_scopes_answered [OF assms(2), of Z t s m] by auto
qed

definition demo_scope :: Scope where
  "demo_scope = \<lparr>sc_Layer = ''user'', sc_ID = 7, sc_RPM = 4, sc_TPM = 0\<rparr>"

theorem quota_gauges_show_usage_witness:
  "\<exists>m'. Monitor_Run mem_limits (Map.empty, []) (0, empty_memz, None) [(2000, once_called, Some (Inr [demo_scope]))] = (m', []) \<and>
     m' (gauge_key demo_scope) = Some 0"
proof -
  have "Monitor_Run mem_limits (Map.empty, []) (0, empty_memz, None) [] = (Map.empty, [])" by (simp add: Monitor_Run_def sample_def)
  from quota_gauges_show_usage [OF this, of "[demo_scope]" 2000 once_called]
  have "\<exists>m'. Monitor_Run mem_limits (Map.empty, []) (0, empty_memz, None) [(2000, once_called, Some (Inr [demo_scope]))] = (m', []) \<and>
      m' (gauge_key demo_scope) = Some (scope_usage mem_limits 2000 once_called demo_scope)" by (auto simp: demo_scope_def)
  moreover have "scope_usage mem_limits 2000 once_called demo_scope = 0" by code_simp
  ultimately show ?thesis by simp
qed

end
