(* ===== verification/Sharded_Store.thy ===== *)
theory Sharded_Store
  imports Order_Store
begin

text \<open>
  \<open>internal/billing/sharded.go\<close>: the money store split over N databases by a hash of the
  user id. The state is the list of shard databases. Writes are routed, reads fan out and
  merge. Go's \<open>range\<close> over the \<open>byShard\<close> map has no fixed order: the order is the parameter
  \<open>prio\<close>, and every order arises from some \<open>prio\<close>. The store satisfies the same contract
  \<open>order_store\<close> as a single database.
\<close>

type_synonym shards = "pg list"

section \<open>Routing and inserts\<close>

definition shardFor :: "nat \<Rightarrow> string \<Rightarrow> nat" where
  "shardFor n userID = unat (Sum32 userID) mod n"

definition Sharded_InsertOrder ::
  "int \<Rightarrow> fault \<Rightarrow> shards \<Rightarrow> Order \<Rightarrow> shards \<times> (go_error + bool)" where
  "Sharded_InsertOrder now f ss x =
     (let k = shardFor (length ss) (o_UserID x); (db, r) = InsertOrder now f (ss ! k) x
      in (ss[k := db], r))"

definition byShard :: "nat \<Rightarrow> Order list \<Rightarrow> nat \<Rightarrow> Order list" where
  "byShard n orders k = filter (\<lambda>x. shardFor n (o_UserID x) = k) orders"

fun insert_shards ::
  "(nat \<Rightarrow> int) \<Rightarrow> Order list \<Rightarrow> nat list \<Rightarrow> sched \<Rightarrow> shards \<Rightarrow> shards \<times> (go_error + unit) \<times> sched" where
  "insert_shards clock orders [] fs ss = (ss, Inr (), fs)"
| "insert_shards clock orders (k # ks) fs ss =
     (case InsertOrders clock fs (ss ! k) (byShard (length ss) orders k) of
        (db, Inl e, fs') \<Rightarrow> (ss[k := db], Inl e, fs')
      | (db, Inr _, fs') \<Rightarrow> insert_shards clock orders ks fs' (ss[k := db]))"

definition Sharded_InsertOrders ::
  "nat list \<Rightarrow> (nat \<Rightarrow> int) \<Rightarrow> sched \<Rightarrow> shards \<Rightarrow> Order list \<Rightarrow> shards \<times> (go_error + unit) \<times> sched" where
  "Sharded_InsertOrders prio clock fs ss orders =
     insert_shards clock orders
       (map_range prio (remdups (map (\<lambda>x. shardFor (length ss) (o_UserID x)) orders))) fs ss"

section \<open>Reads that fan out\<close>

definition merge_day :: "(string \<rightharpoonup> DaySummary) \<Rightarrow> (string \<rightharpoonup> DaySummary) \<Rightarrow> string \<rightharpoonup> DaySummary" where
  "merge_day out part st =
     (case part st of
        None \<Rightarrow> out st
      | Some d \<Rightarrow>
          (let agg = (case out st of Some a \<Rightarrow> a
                      | None \<Rightarrow> \<lparr>ds_Count = 0, ds_TotalTokens = 0, ds_AmountMicros = 0\<rparr>)
           in Some \<lparr>ds_Count = add64 (ds_Count agg) (ds_Count d),
                    ds_TotalTokens = add64 (ds_TotalTokens agg) (ds_TotalTokens d),
                    ds_AmountMicros = add64 (ds_AmountMicros agg) (ds_AmountMicros d)\<rparr>))"

fun fan_out :: "(fault \<Rightarrow> pg \<Rightarrow> go_error + 'a) \<Rightarrow> ('b \<Rightarrow> 'a \<Rightarrow> 'b) \<Rightarrow> 'b \<Rightarrow> sched \<Rightarrow> shards \<Rightarrow> go_error + 'b" where
  "fan_out op merge out fs [] = Inr out"
| "fan_out op merge out fs (db # dbs) =
     (let (f, fs') = pop_fault fs
      in case op f db of
           Inl e \<Rightarrow> Inl e
         | Inr part \<Rightarrow> fan_out op merge (merge out part) fs' dbs)"

definition Sharded_Summary :: "sched \<Rightarrow> shards \<Rightarrow> int \<Rightarrow> go_error + (string \<rightharpoonup> DaySummary)" where
  "Sharded_Summary fs ss day = fan_out (\<lambda>f db. Summary f db day) merge_day (\<lambda>_. None) fs ss"

definition Sharded_Anomalies :: "sched \<Rightarrow> shards \<Rightarrow> int \<Rightarrow> go_error + string list" where
  "Sharded_Anomalies fs ss day = fan_out (\<lambda>f db. Anomalies f db day) (@) [] fs ss"

definition Sharded_NegativeAmountOrders :: "sched \<Rightarrow> shards \<Rightarrow> int \<Rightarrow> go_error + Order list" where
  "Sharded_NegativeAmountOrders fs ss day =
     fan_out (\<lambda>f db. NegativeAmountOrders f db day) (@) [] fs ss"

definition merge_usage :: "(string \<rightharpoonup> MyUsageRow) \<Rightarrow> (string \<rightharpoonup> MyUsageRow) \<Rightarrow> string \<rightharpoonup> MyUsageRow" where
  "merge_usage out part p =
     (case part p of
        None \<Rightarrow> out p
      | Some u \<Rightarrow>
          (let agg = (case out p of Some a \<Rightarrow> a
                      | None \<Rightarrow> \<lparr>mu_PromptTok = 0, mu_ComplTok = 0, mu_TotalTok = 0, mu_CostMicros = 0\<rparr>)
           in Some \<lparr>mu_PromptTok = add64 (mu_PromptTok agg) (mu_PromptTok u),
                    mu_ComplTok = add64 (mu_ComplTok agg) (mu_ComplTok u),
                    mu_TotalTok = add64 (mu_TotalTok agg) (mu_TotalTok u),
                    mu_CostMicros = add64 (mu_CostMicros agg) (mu_CostMicros u)\<rparr>))"

definition Sharded_SumProviderUsage :: "sched \<Rightarrow> shards \<Rightarrow> int \<Rightarrow> go_error + (string \<rightharpoonup> MyUsageRow)" where
  "Sharded_SumProviderUsage fs ss day =
     fan_out (\<lambda>f db. SumProviderUsage f db day) merge_usage (\<lambda>_. None) fs ss"

section \<open>Refunds and ledger\<close>

definition Sharded_InsertRefund ::
  "int \<Rightarrow> fault \<Rightarrow> shards \<Rightarrow> Refund \<Rightarrow> shards \<times> (go_error + int \<times> bool)" where
  "Sharded_InsertRefund now f ss r =
     (let k = shardFor (length ss) (rf_UserID r); (db, ans) = InsertRefund now f (ss ! k) r
      in (ss[k := db], ans))"

definition Sharded_ListRefunds :: "sched \<Rightarrow> shards \<Rightarrow> int \<Rightarrow> go_error + Refund list" where
  "Sharded_ListRefunds fs ss limit = fan_out (\<lambda>f db. ListRefunds f db limit) (@) [] fs ss"

text \<open>Every shard is tried; the first error is returned, after all of them ran.\<close>

fun mark_all :: "sched \<Rightarrow> shards \<Rightarrow> int \<Rightarrow> shards \<times> go_error list" where
  "mark_all fs [] i = ([], [])"
| "mark_all fs (db # dbs) i =
     (let (f, fs') = pop_fault fs; (db', r) = MarkExecuted f db i; (dbs', errs) = mark_all fs' dbs i
      in (db' # dbs', (case r of Inl e \<Rightarrow> e # errs | Inr _ \<Rightarrow> errs)))"

definition Sharded_MarkExecuted :: "sched \<Rightarrow> shards \<Rightarrow> int \<Rightarrow> shards \<times> (go_error + unit)" where
  "Sharded_MarkExecuted fs ss i =
     (case mark_all fs ss i of (ss', []) \<Rightarrow> (ss', Inr ()) | (ss', e # _) \<Rightarrow> (ss', Inl e))"

definition Sharded_Balance :: "sched \<Rightarrow> shards \<Rightarrow> string \<Rightarrow> go_error + int" where
  "Sharded_Balance fs ss userID = pg_Balance fs (ss ! shardFor (length ss) userID) userID"

fun Sharded_Replay ::
  "sched \<Rightarrow> shards \<Rightarrow> int \<Rightarrow> int \<Rightarrow> ('s \<Rightarrow> Entry \<Rightarrow> 's \<times> (go_error + unit)) \<Rightarrow> 's \<Rightarrow> 's \<times> (go_error + unit)" where
  "Sharded_Replay fs [] from to fn st = (st, Inr ())"
| "Sharded_Replay fs (db # dbs) from to fn st =
     (let (f, fs') = pop_fault fs
      in case Replay f db from to fn st of
           (st', Inl e) \<Rightarrow> (st', Inl e)
         | (st', Inr _) \<Rightarrow> Sharded_Replay fs' dbs from to fn st')"

section \<open>Routed databases\<close>

definition routed :: "nat \<Rightarrow> nat \<Rightarrow> pg \<Rightarrow> bool" where
  "routed n k db \<longleftrightarrow> (\<forall>x\<in>set (pg_orders db). shardFor n (o_UserID x) = k) \<and>
     (\<forall>r\<in>set (pg_refunds db). shardFor n (rf_UserID r) = k)"

definition shards_ok :: "nat \<Rightarrow> shards \<Rightarrow> bool" where
  "shards_ok n ss \<longleftrightarrow> length ss = n \<and> 0 < n \<and> (\<forall>k<n. pg_ok (ss ! k) \<and> routed n k (ss ! k))"

definition shards_look :: "shards \<Rightarrow> nat \<Rightarrow> string \<Rightarrow> Order option" where
  "shards_look ss k rid = (if k < length ss then pg_look (ss ! k) 0 rid else None)"

lemma shardFor_less: "0 < n \<Longrightarrow> shardFor n u < n"
  by (simp add: shardFor_def)

lemma shards_ok_update:
  "shards_ok n ss \<Longrightarrow> pg_ok db \<Longrightarrow> routed n k db \<Longrightarrow> shards_ok n (ss[k := db])"
  by (cases "k < length ss") (auto simp: shards_ok_def nth_list_update)

lemma InsertOrders_users:
  assumes "InsertOrders clock fs db xs = (db', r, fs')"
  shows "o_UserID ` set (pg_orders db') \<subseteq> o_UserID ` set (pg_orders db) \<union> o_UserID ` set xs"
proof -
  have users: "o_UserID ` set (pg_orders d) = o_UserID ` set (rows_of d)" for d
    by (simp add: rows_of_def image_image)
  obtain n where "rows_of db' = add_new (rows_of db) (map erase (take n xs))"
    using InsertOrders_effect [OF assms] by blast
  moreover obtain zs where "add_new (rows_of db) (map erase (take n xs)) = rows_of db @ zs"
    and "set zs \<subseteq> set (map erase (take n xs))"
    using add_new_prefix by blast
  moreover have "o_UserID ` set (map erase (take n xs)) \<subseteq> o_UserID ` set xs"
    by (auto dest: in_set_takeD)
  ultimately show ?thesis
    unfolding users by (simp only: set_append image_Un) (meson Un_mono image_mono order_refl order_trans)
qed

lemma routed_InsertOrders:
  assumes "InsertOrders clock fs db (byShard n xs k) = (db', r, fs')" and "routed n k db"
  shows "routed n k db'"
proof -
  have "o_UserID ` set (pg_orders db') \<subseteq> {u. shardFor n u = k}"
    using InsertOrders_users [OF assms(1)] assms(2) by (auto simp: routed_def byShard_def)
  moreover have "pg_refunds db' = pg_refunds db"
    using InsertOrders_effect [OF assms(1)] by blast
  ultimately show ?thesis
    using assms(2) by (auto simp: routed_def)
qed

lemma first_of_byShard: "first_of (\<lambda>_. 0) 0 rid (byShard n xs k) = first_of (shardFor n) k rid xs"
  by (simp add: first_of_def byShard_def)

text \<open>
  The effect of the grouped insert: shards that are not visited keep their database; a
  visited one holds, per request id, the old row or the first one of its part of the batch.
\<close>

lemma insert_shards_effect:
  assumes "insert_shards clock xs ks fs ss = (ss', r, fs')" and "shards_ok n ss"
    and "distinct ks" and "set ks \<subseteq> {..<n}"
  shows "shards_ok n ss' \<and> (\<forall>k. k \<notin> set ks \<longrightarrow> ss' ! k = ss ! k)
    \<and> (\<forall>k rid. shards_look ss' k rid = shards_look ss k rid \<or>
         shards_look ss' k rid = first_wins (shards_look ss k rid) (first_of (shardFor n) k rid xs))
    \<and> (r = Inr () \<longrightarrow> (\<forall>k\<in>set ks. \<forall>rid. shards_look ss' k rid =
         first_wins (shards_look ss k rid) (first_of (shardFor n) k rid xs)))
    \<and> (fs = [] \<longrightarrow> r = Inr () \<and> fs' = [])"
  using assms
proof (induction clock xs ks fs ss arbitrary: ss' r fs' rule: insert_shards.induct)
  case (2 clock xs k ks fs ss)
  obtain db a gs where ins: "InsertOrders clock fs (ss ! k) (byShard (length ss) xs k) = (db, a, gs)"
    by (metis prod_cases3)
  have n: "length ss = n" "k < n" "pg_ok (ss ! k)" "routed n k (ss ! k)"
    using "2.prems" by (auto simp: shards_ok_def)
  define tt where "tt = ss[k := db]"
  have ok: "shards_ok n tt"
    unfolding tt_def using "2.prems"(2) ins n
    by (intro shards_ok_update) (auto intro: pg_ok_InsertOrders routed_InsertOrders)
  have any: "shards_look tt j rid = shards_look ss j rid \<or>
      shards_look tt j rid = first_wins (shards_look ss j rid) (first_of (shardFor n) j rid xs)" for j rid
    using pgs.insert_any [OF n(3) ins, of 0 rid] n
    by (cases "j = k") (simp_all add: tt_def shards_look_def first_of_byShard)
  have other: "j \<noteq> k \<Longrightarrow> tt ! j = ss ! j" for j
    by (simp add: tt_def)
  show ?case
  proof (cases a)
    case (Inl e)
    then have "ss' = tt" "r = Inl e" "fs' = gs"
      using "2.prems"(1) ins by (simp_all add: tt_def)
    then show ?thesis
      using ok any other InsertOrders_effect [OF ins] Inl by auto
  next
    case (Inr u)
    then have rec: "insert_shards clock xs ks gs tt = (ss', r, fs')"
      using "2.prems"(1) ins by (simp add: tt_def)
    have ih: "shards_ok n ss'" "\<forall>j. j \<notin> set ks \<longrightarrow> ss' ! j = tt ! j"
      "\<forall>j rid. shards_look ss' j rid = shards_look tt j rid \<or>
         shards_look ss' j rid = first_wins (shards_look tt j rid) (first_of (shardFor n) j rid xs)"
      "r = Inr () \<longrightarrow> (\<forall>j\<in>set ks. \<forall>rid. shards_look ss' j rid =
         first_wins (shards_look tt j rid) (first_of (shardFor n) j rid xs))"
      "gs = [] \<longrightarrow> r = Inr () \<and> fs' = []"
      using "2.IH" [OF ins [symmetric] refl Inr] rec ok "2.prems"(3,4) by (auto simp: tt_def)
    have here: "shards_look tt k rid = first_wins (shards_look ss k rid) (first_of (shardFor n) k rid xs)" for rid
      using pgs.insert_ok [OF n(3), of clock fs _ db gs 0 rid] ins Inr n
      by (simp add: tt_def shards_look_def first_of_byShard)
    have len: "length ss' = length tt"
      using ih(1) ok by (simp add: shards_ok_def)
    have same: "shards_look ss' j rid = shards_look tt j rid" if "j \<notin> set ks" for j rid
      using ih(2) that len by (simp add: shards_look_def)
    have idem: "first_wins (first_wins p q) q = first_wins p q" for p q
      by (cases p; cases q) simp_all
    have "fs = [] \<Longrightarrow> gs = []"
      using InsertOrders_effect [OF ins] by simp
    moreover have "shards_look ss' j rid = shards_look ss j rid \<or>
        shards_look ss' j rid = first_wins (shards_look ss j rid) (first_of (shardFor n) j rid xs)" for j rid
      using any [of j rid] ih(3) [rule_format, of j rid] idem by metis
    moreover have "r = Inr () \<Longrightarrow> shards_look ss' j rid =
        first_wins (shards_look ss j rid) (first_of (shardFor n) j rid xs)" if "j \<in> set (k # ks)" for j rid
    proof (cases "j = k")
      case True
      then show ?thesis using here same "2.prems"(3) by simp
    next
      case False
      then have "shards_look tt j rid = shards_look ss j rid"
        by (simp add: shards_look_def other tt_def)
      moreover assume "r = Inr ()"
      ultimately show ?thesis using ih(4) that False by simp
    qed
    ultimately show ?thesis
      using ih(1,2,5) other by simp
  qed
qed auto

definition touched_shards :: "nat \<Rightarrow> Order list \<Rightarrow> nat list" where
  "touched_shards n xs = remdups (map (\<lambda>x. shardFor n (o_UserID x)) xs)"

lemma Sharded_InsertOrders_effect:
  assumes "Sharded_InsertOrders prio clock fs ss xs = (ss', r, fs')" and "shards_ok n ss"
  shows "shards_ok n ss' \<and> (\<forall>k rid. shards_look ss' k rid = shards_look ss k rid \<or>
         shards_look ss' k rid = first_wins (shards_look ss k rid) (first_of (shardFor n) k rid xs))
    \<and> (r = Inr () \<longrightarrow> (\<forall>k rid. shards_look ss' k rid =
         first_wins (shards_look ss k rid) (first_of (shardFor n) k rid xs)))
    \<and> (fs = [] \<longrightarrow> r = Inr () \<and> fs' = [])"
proof -
  have n: "length ss = n" "0 < n"
    using assms(2) by (simp_all add: shards_ok_def)
  let ?ks = "map_range prio (touched_shards n xs)"
  have run: "insert_shards clock xs ?ks fs ss = (ss', r, fs')"
    using assms(1) n by (simp add: Sharded_InsertOrders_def touched_shards_def)
  have "distinct ?ks" "set ?ks \<subseteq> {..<n}"
    using n by (auto simp: touched_shards_def map_range_distinct map_range_set shardFor_less)
  note eff = insert_shards_effect [OF run assms(2) this]
  have untouched: "shards_look ss' k rid = first_wins (shards_look ss k rid) (first_of (shardFor n) k rid xs)"
    if "k \<notin> set ?ks" for k rid
  proof -
    have "filter (\<lambda>x. shardFor n (o_UserID x) = k) xs = []"
      using that by (auto simp: touched_shards_def map_range_set filter_empty_conv)
    then have "first_of (shardFor n) k rid xs = None"
      by (simp add: first_of_def find_order_def)
    moreover have "shards_look ss' k rid = shards_look ss k rid"
      using eff that n by (simp add: shards_look_def shards_ok_def)
    ultimately show ?thesis by (simp add: first_wins_def split: option.splits)
  qed
  then have "r = Inr () \<longrightarrow> (\<forall>k rid. shards_look ss' k rid =
         first_wins (shards_look ss k rid) (first_of (shardFor n) k rid xs))"
    using eff by blast
  with eff show ?thesis by blast
qed

interpretation shs: order_store "Sharded_InsertOrders prio clock" "shardFor n" shards_look "shards_ok n"
  for prio clock n
proof
  fix s s' :: shards and fs xs r fs'
  assume a: "shards_ok n s" "Sharded_InsertOrders prio clock fs s xs = (s', r, fs')"
  then show "shards_ok n s'" using Sharded_InsertOrders_effect by blast
next
  fix s s' :: shards and fs xs fs' k rid
  assume "shards_ok n s" "Sharded_InsertOrders prio clock fs s xs = (s', Inr (), fs')"
  then show "shards_look s' k rid = first_wins (shards_look s k rid) (first_of (shardFor n) k rid xs)"
    using Sharded_InsertOrders_effect by blast
next
  fix s s' :: shards and fs xs fs' k rid e
  assume "shards_ok n s" "Sharded_InsertOrders prio clock fs s xs = (s', Inl e, fs')"
  then show "shards_look s' k rid = shards_look s k rid \<or>
      shards_look s' k rid = first_wins (shards_look s k rid) (first_of (shardFor n) k rid xs)"
    using Sharded_InsertOrders_effect by blast
next
  fix s :: shards and xs
  assume "shards_ok n s"
  then show "\<exists>s'. Sharded_InsertOrders prio clock [] s xs = (s', Inr (), [])"
    using Sharded_InsertOrders_effect by (metis prod_cases3)
qed

section \<open>The merged view\<close>

text \<open>The one database that holds the rows of all shards.\<close>

definition merge_dbs :: "shards \<Rightarrow> pg" where
  "merge_dbs ss = \<lparr>pg_orders = concat (map pg_orders ss), pg_refunds = concat (map pg_refunds ss),
     pg_refund_seq = 0\<rparr>"

definition day_map :: "Order list \<Rightarrow> string \<rightharpoonup> DaySummary" where
  "day_map rows k = (if k \<in> o_Status ` set rows then Some (status_summary rows k) else None)"

definition wrap_day :: "DaySummary \<Rightarrow> DaySummary" where
  "wrap_day d = \<lparr>ds_Count = wrap64 (ds_Count d), ds_TotalTokens = wrap64 (ds_TotalTokens d),
     ds_AmountMicros = wrap64 (ds_AmountMicros d)\<rparr>"

lemma Summary_day_map:
  assumes "\<not> isl (Summary NoFault db day)"
  shows "Summary NoFault db day = Inr (day_map (day_orders db day))"
  using assms by (auto simp: Summary_def query_def day_map_def group_keys_def Let_def split: if_splits)

lemma status_summary_append:
  "ds_Count (status_summary (xs @ ys) k) = ds_Count (status_summary xs k) + ds_Count (status_summary ys k)"
  "ds_TotalTokens (status_summary (xs @ ys) k) =
     ds_TotalTokens (status_summary xs k) + ds_TotalTokens (status_summary ys k)"
  "ds_AmountMicros (status_summary (xs @ ys) k) =
     ds_AmountMicros (status_summary xs k) + ds_AmountMicros (status_summary ys k)"
  by (simp_all add: status_summary_def group_rows_def sum_of_def Let_def)

lemma status_summary_absent:
  "k \<notin> o_Status ` set xs \<Longrightarrow>
     status_summary xs k = \<lparr>ds_Count = 0, ds_TotalTokens = 0, ds_AmountMicros = 0\<rparr>"
proof -
  assume "k \<notin> o_Status ` set xs"
  then have "group_rows o_Status k xs = []"
    by (auto simp: group_rows_def filter_empty_conv)
  then show ?thesis by (simp add: status_summary_def sum_of_def)
qed

lemma merge_day_map:
  "merge_day (map_option wrap_day \<circ> day_map xs) (day_map ys) = map_option wrap_day \<circ> day_map (xs @ ys)"
proof
  fix k
  consider "k \<notin> o_Status ` set ys" | "k \<in> o_Status ` set ys" "k \<notin> o_Status ` set xs"
    | "k \<in> o_Status ` set ys" "k \<in> o_Status ` set xs" by blast
  then show "merge_day (map_option wrap_day \<circ> day_map xs) (day_map ys) k =
      (map_option wrap_day \<circ> day_map (xs @ ys)) k"
    by cases (auto simp: merge_day_def day_map_def wrap_day_def add64_def status_summary_append
        status_summary_absent image_Un Let_def)
qed

lemma fan_out_summary:
  assumes "\<forall>db\<in>set ss. \<not> isl (Summary NoFault db day)"
  shows "fan_out (\<lambda>f db. Summary f db day) merge_day (map_option wrap_day \<circ> day_map xs) [] ss =
    Inr (map_option wrap_day \<circ> day_map (xs @ concat (map (\<lambda>db. day_orders db day) ss)))"
  using assms
proof (induction ss arbitrary: xs)
  case (Cons db ss)
  have "Summary NoFault db day = Inr (day_map (day_orders db day))"
    using Cons.prems by (intro Summary_day_map) simp
  with Cons.IH [of "xs @ day_orders db day"] Cons.prems show ?case
    by (simp add: merge_day_map [unfolded comp_def] comp_def)
qed simp

lemma day_orders_merge: "day_orders (merge_dbs ss) day = concat (map (\<lambda>db. day_orders db day) ss)"
  by (simp add: day_orders_def merge_dbs_def filter_concat comp_def)

lemma group_rows_merge:
  assumes "shards_ok n ss"
  shows "group_rows o_UserID u (pg_orders (merge_dbs ss)) = group_rows o_UserID u (pg_orders (ss ! shardFor n u))"
    and "filter (\<lambda>r. rf_UserID r = u \<and> rf_Status r = st) (pg_refunds (merge_dbs ss)) =
         filter (\<lambda>r. rf_UserID r = u \<and> rf_Status r = st) (pg_refunds (ss ! shardFor n u))"
proof -
  have n: "length ss = n" "shardFor n u < n"
    and r: "\<And>k. k < n \<Longrightarrow> routed n k (ss ! k)"
    using assms by (simp_all add: shards_ok_def shardFor_less)
  show "group_rows o_UserID u (pg_orders (merge_dbs ss)) = group_rows o_UserID u (pg_orders (ss ! shardFor n u))"
    using filter_concat_nth [of "shardFor n u" "map pg_orders ss" "\<lambda>x. o_UserID x = u"] n r
    by (fastforce simp: merge_dbs_def group_rows_def routed_def filter_empty_conv)
  show "filter (\<lambda>r. rf_UserID r = u \<and> rf_Status r = st) (pg_refunds (merge_dbs ss)) =
         filter (\<lambda>r. rf_UserID r = u \<and> rf_Status r = st) (pg_refunds (ss ! shardFor n u))"
    using filter_concat_nth [of "shardFor n u" "map pg_refunds ss" "\<lambda>r. rf_UserID r = u \<and> rf_Status r = st"] n r
    by (fastforce simp: merge_dbs_def routed_def filter_empty_conv)
qed

section \<open>Properties\<close>

text \<open>C11: Fan-out is exact. When every shard and the merged database can answer, the day
summary the sharded store computes (per-status counts, tokens and amounts added up shard by
shard in 64-bit arithmetic) is the summary of one database holding the rows of all shards.\<close>

theorem sharded_summary_is_merged_summary:
  assumes "\<forall>db\<in>set ss. \<not> isl (Summary NoFault db day)"
    and "\<not> isl (Summary NoFault (merge_dbs ss) day)"
    and "in64 (int (length (day_orders (merge_dbs ss) day)))"
  shows "Sharded_Summary [] ss day = Summary NoFault (merge_dbs ss) day"
proof -
  let ?rows = "day_orders (merge_dbs ss) day"
  have "in64 (ds_TotalTokens (status_summary ?rows k)) \<and> in64 (ds_AmountMicros (status_summary ?rows k))"
    if "k \<in> o_Status ` set ?rows" for k
    using assms(2) that
    by (auto simp: Summary_def query_def Let_def group_keys_def list_all_iff split: if_splits)
  moreover have "in64 (ds_Count (status_summary ?rows k))" for k
  proof -
    have "int (length (group_rows o_Status k ?rows)) \<le> int (length ?rows)"
      by (simp add: group_rows_def)
    then show ?thesis
      using assms(3) by (simp add: status_summary_def in64_def Let_def)
  qed
  ultimately have "map_option wrap_day \<circ> day_map ?rows = day_map ?rows"
    by (auto simp: day_map_def wrap_day_def wrap64_id)
  then show ?thesis
    using fan_out_summary [OF assms(1), of "[]"] Summary_day_map [OF assms(2)]
    by (simp add: Sharded_Summary_def day_orders_merge day_map_def comp_def)
qed

theorem sharded_summary_is_merged_summary_witness:
  "Sharded_Summary []
     [empty_pg\<lparr>pg_orders := [sample_order ''r1'' ''a'' 30]\<rparr>, empty_pg\<lparr>pg_orders := [sample_order ''r2'' ''b'' 12]\<rparr>] 0
   = Summary NoFault (merge_dbs
     [empty_pg\<lparr>pg_orders := [sample_order ''r1'' ''a'' 30]\<rparr>, empty_pg\<lparr>pg_orders := [sample_order ''r2'' ''b'' 12]\<rparr>]) 0"
  by (rule sharded_summary_is_merged_summary)
     (simp_all add: Summary_def query_def day_orders_def in_day_def empty_pg_def sample_order_def
       merge_dbs_def group_keys_def status_summary_def group_rows_def sum_of_def in64_def)

text \<open>Theorem: A user's authoritative balance does not depend on sharding: with rows kept where
the router puts them, the balance read from the user's own shard is, for every outcome of
the two queries, the balance over the rows of all shards.\<close>

theorem sharded_balance_is_merged_balance:
  assumes "shards_ok n ss"
  shows "Sharded_Balance fs ss u = pg_Balance fs (merge_dbs ss) u"
proof -
  have "length ss = n" using assms by (simp add: shards_ok_def)
  moreover have "order_net (merge_dbs ss) u = order_net (ss ! shardFor n u) u"
    and "refund_net (merge_dbs ss) u = refund_net (ss ! shardFor n u) u"
    by (simp_all add: order_net_def refund_net_def group_rows_merge [OF assms])
  ultimately show ?thesis
    unfolding Sharded_Balance_def pg_Balance_def by (simp only:)
qed

lemma shards_ok_empty: "0 < n \<Longrightarrow> shards_ok n (replicate n empty_pg)"
  using pg_ok_empty by (auto simp: shards_ok_def routed_def empty_pg_def)

theorem sharded_balance_is_merged_balance_witness:
  "Sharded_Balance []
     (fst (Sharded_InsertOrders [] (\<lambda>_. 5) [] (replicate 3 empty_pg) [sample_order ''r1'' ''a'' 30])) ''a''
   = pg_Balance []
     (merge_dbs (fst (Sharded_InsertOrders [] (\<lambda>_. 5) [] (replicate 3 empty_pg) [sample_order ''r1'' ''a'' 30]))) ''a''"
  by (rule sharded_balance_is_merged_balance [where n = 3])
     (metis shards_ok_empty shs.insert_inv prod_cases3 fst_conv zero_less_numeral)

text \<open>Theorem: The exactly-once contract survives sharding: with any number of databases, any
iteration order over the shard map in each attempt and any outcomes, a batch whose last
attempt succeeds leaves every order of the batch stored on its user's shard, as the first
row given for its request id there, and all shards stay routed and well formed.\<close>

theorem sharded_insert_exactly_once:
  assumes "shards_ok n ss"
    and "Sharded_InsertOrders prio1 clock1 fs ss xs = (ss1, r, fs1)"
    and "Sharded_InsertOrders prio2 clock2 gs ss1 xs = (ss2, Inr (), gs1)"
  shows "shards_ok n ss2 \<and> (\<forall>k rid. shards_look ss2 k rid =
           first_wins (shards_look ss k rid) (first_of (shardFor n) k rid xs))
    \<and> (\<forall>x\<in>set xs. shards_look ss2 (shardFor n (o_UserID x)) (o_RequestID x) \<noteq> None)"
proof -
  have ok1: "shards_ok n ss1" by (rule shs.insert_inv [OF assms(1,2)])
  have "shards_look ss2 k rid = first_wins (shards_look ss k rid) (first_of (shardFor n) k rid xs)" for k rid
    using shs.insert_any [OF assms(1,2), of k rid] shs.insert_ok [OF ok1 assms(3), of k rid]
    by (auto simp: first_wins_def split: option.splits)
  then show ?thesis
    using shs.insert_inv [OF ok1 assms(3)] shs.insert_stores [OF ok1 assms(3)] by blast
qed

theorem sharded_insert_exactly_once_witness:
  "\<exists>ss1 r fs1 ss2 gs1.
     Sharded_InsertOrders [1] (\<lambda>_. 5) [FailBefore] (replicate 3 empty_pg) [sample_order ''r1'' ''a'' 30] = (ss1, r, fs1) \<and>
     Sharded_InsertOrders [] (\<lambda>_. 6) [] ss1 [sample_order ''r1'' ''a'' 30] = (ss2, Inr (), gs1) \<and>
     shards_look ss2 (shardFor 3 ''a'') ''r1'' \<noteq> None"
proof -
  let ?xs = "[sample_order ''r1'' ''a'' 30]"
  have ok: "shards_ok 3 (replicate 3 empty_pg)" by (rule shards_ok_empty) simp
  obtain ss1 r fs1 where 1:
    "Sharded_InsertOrders [1] (\<lambda>_. 5) [FailBefore] (replicate 3 empty_pg) ?xs = (ss1, r, fs1)"
    by (metis prod_cases3)
  obtain ss2 where 2: "Sharded_InsertOrders [] (\<lambda>_. 6) [] ss1 ?xs = (ss2, Inr (), [])"
    using shs.insert_available [OF shs.insert_inv [OF ok 1]] by blast
  have "shards_look ss2 (shardFor 3 (o_UserID x)) (o_RequestID x) \<noteq> None" if "x \<in> set ?xs" for x
    using sharded_insert_exactly_once [OF ok 1 2] that by blast
  from this [of "sample_order ''r1'' ''a'' 30"]
  have "shards_look ss2 (shardFor 3 ''a'') ''r1'' \<noteq> None"
    by (simp add: sample_order_def)
  with 1 2 show ?thesis by blast
qed

definition pending_refund :: "string \<Rightarrow> Refund" where
  "pending_refund u = \<lparr>rf_ID = 0, rf_RequestID = '''', rf_UserID = u, rf_OrderID = '''',
     rf_ReasonCode = ReasonNegativeAmount, rf_AmountMicros = 70, rf_Direction = DirectionCredit,
     rf_Status = RefundPending, rf_ApprovalLevel = ApprovalManual,
     rf_IdempotencyKey = ''neg:'' @ u, rf_CreatedAt = 0\<rparr>"

definition two_refunds :: shards where
  "two_refunds =
     fst (Sharded_InsertRefund 5 NoFault
       (fst (Sharded_InsertRefund 5 NoFault [empty_pg, empty_pg] (pending_refund ''a'')))
       (pending_refund ''b''))"

definition marked_refunds :: shards where
  "marked_refunds = fst (Sharded_MarkExecuted [] two_refunds 1)"

lemma shardFor_ab: "shardFor 2 ''a'' = 0" "shardFor 2 ''b'' = 1"
  by (simp_all add: shardFor_def Sum32_def fnv_step_def)

text \<open>Theorem: Marking a refund executed is not scoped to its owner. The per-shard sequences
hand out the same ids, and \<open>MarkExecuted\<close> runs on every shard: marking the refund of user
\<open>a\<close> (shard 0, id 1) also flips the pending refund with the same id of user \<open>b\<close> on shard 1,
whose ledger balance changes although nothing was credited to \<open>b\<close>.\<close>

theorem mark_executed_hits_other_users:
  "snd (Sharded_InsertRefund 5 NoFault [empty_pg, empty_pg] (pending_refund ''a'')) = Inr (1, True) \<and>
   Sharded_Balance [] two_refunds ''b'' = Inr 0 \<and>
   Sharded_MarkExecuted [] two_refunds 1 = (marked_refunds, Inr ()) \<and>
   Sharded_Balance [] marked_refunds ''b'' = Inr 70"
  by (simp add: marked_refunds_def two_refunds_def Sharded_InsertRefund_def shardFor_ab [unfolded numeral_2_eq_2]
      InsertRefund_def sql_insert_refund_def empty_pg_def pending_refund_def Sharded_Balance_def
      Sharded_MarkExecuted_def MarkExecuted_def pg_Balance_def query_def order_net_def refund_net_def
      group_rows_def sum_of_def refund_signed_def scan64_def in64_def add64_def wrap64_def)

end
