(* ===== verification/Reconciliation.thy ===== *)
theory Reconciliation
  imports Floats Sharded_Store Precharge
begin

text \<open>
  \<open>internal/reconciliation\<close>: the day close with automatic refunds (\<open>engine.go\<close>), the
  comparison with supplier bills and the cost-price sync (\<open>provider.go\<close>), and the exit code
  of \<open>cmd/reconcile\<close>. One schedule gives the outcomes of all service calls in the order the
  code makes them; \<open>now\<close> is the time rows are created at. The Redis client is \<open>None\<close> for a nil
  \<open>Precharger\<close>. Days are numbers, as in \<open>Order_Store\<close>. Ratios are rationals with the rounding
  of \<open>float64\<close> as the parameter \<open>fl\<close> (\<open>Floats\<close>). Logging and metrics are left out.
\<close>

section \<open>Day close\<close>

record Report =
  rp_Day :: int
  rp_OrderCount :: int
  rp_SettledCount :: int
  rp_NoChargeCnt :: int
  rp_TotalAmount :: int
  rp_Anomalies :: int
  rp_RefundsAuto :: int
  rp_RefundsManual :: int
  rp_FrozenLeaked :: int

definition AutoThresholdMicros :: int where
  "AutoThresholdMicros = 100000000"

definition refund_amount :: "Order \<Rightarrow> int" where
  "refund_amount x = sub64 0 (o_AmountMicros x)"

definition neg_refund :: "int \<Rightarrow> Order \<Rightarrow> Refund" where
  "neg_refund thr x =
     \<lparr>rf_ID = 0, rf_RequestID = o_RequestID x, rf_UserID = o_UserID x, rf_OrderID = o_RequestID x,
      rf_ReasonCode = ReasonNegativeAmount, rf_AmountMicros = refund_amount x,
      rf_Direction = DirectionCredit, rf_Status = RefundPending,
      rf_ApprovalLevel = (if refund_amount x > thr then ApprovalManual else ApprovalAuto),
      rf_IdempotencyKey = ''neg:'' @ o_RequestID x, rf_CreatedAt = 0\<rparr>"

text \<open>The state of a run: the database, Redis, the report and the calls still to come.\<close>

record 'r recon =
  rc_db :: pg
  rc_redis :: 'r
  rc_rep :: Report
  rc_sched :: sched

definition pop :: "'r recon \<Rightarrow> fault \<times> 'r recon" where
  "pop w = (let (f, fs) = pop_fault (rc_sched w) in (f, w\<lparr>rc_sched := fs\<rparr>))"

text \<open>Credit the balance, then mark the refund executed; a failed credit is only logged.\<close>

definition execute_refund :: "'r redis \<Rightarrow> 'r recon \<Rightarrow> Order \<Rightarrow> int \<Rightarrow> 'r recon" where
  "execute_refund R w x i =
     (let (f, w1) = pop w;
          (rd, t) = TopUp R f (rc_redis w1) (o_UserID x) (refund_amount x);
          w2 = w1\<lparr>rc_redis := rd\<rparr>
      in case t of
           Inl e \<Rightarrow> w2
         | Inr _ \<Rightarrow>
             let (g, w3) = pop w2; (db, _) = MarkExecuted g (rc_db w3) i
             in w3\<lparr>rc_db := db, rc_rep := (rc_rep w3)\<lparr>rp_RefundsAuto := rp_RefundsAuto (rc_rep w3) + 1\<rparr>\<rparr>)"

definition auto_refund_one ::
  "'r redis option \<Rightarrow> int \<Rightarrow> int \<Rightarrow> 'r recon \<Rightarrow> Order \<Rightarrow> 'r recon \<times> (go_error + unit)" where
  "auto_refund_one pre thr now w x =
     (let (f, w1) = pop w;
          (db, ans) = InsertRefund now f (rc_db w1) (neg_refund thr x);
          w2 = w1\<lparr>rc_db := db\<rparr>
      in case ans of
           Inl e \<Rightarrow> (w2, Inl e)
         | Inr (i, created) \<Rightarrow>
             if \<not> created then (w2, Inr ())
             else if rf_ApprovalLevel (neg_refund thr x) = ApprovalAuto \<and> pre \<noteq> None
                  then (execute_refund (the pre) w2 x i, Inr ())
             else (w2\<lparr>rc_rep := (rc_rep w2)\<lparr>rp_RefundsManual := rp_RefundsManual (rc_rep w2) + 1\<rparr>\<rparr>, Inr ()))"

fun auto_refund_loop ::
  "'r redis option \<Rightarrow> int \<Rightarrow> int \<Rightarrow> 'r recon \<Rightarrow> Order list \<Rightarrow> 'r recon \<times> (go_error + unit)" where
  "auto_refund_loop pre thr now w [] = (w, Inr ())"
| "auto_refund_loop pre thr now w (x # xs) =
     (case auto_refund_one pre thr now w x of
        (w', Inl e) \<Rightarrow> (w', Inl e)
      | (w', Inr _) \<Rightarrow> auto_refund_loop pre thr now w' xs)"

definition autoRefundNegativeAmounts ::
  "'r redis option \<Rightarrow> int \<Rightarrow> int \<Rightarrow> 'r recon \<Rightarrow> int \<Rightarrow> 'r recon \<times> (go_error + unit)" where
  "autoRefundNegativeAmounts pre thr now w day =
     (let (f, w1) = pop w
      in case NegativeAmountOrders f (rc_db w1) day of
           Inl e \<Rightarrow> (w1, Inl e)
         | Inr neg \<Rightarrow> auto_refund_loop pre thr now w1 neg)"

definition status_of :: "(string \<rightharpoonup> DaySummary) \<Rightarrow> string \<Rightarrow> DaySummary" where
  "status_of m st = (case m st of Some d \<Rightarrow> d
     | None \<Rightarrow> \<lparr>ds_Count = 0, ds_TotalTokens = 0, ds_AmountMicros = 0\<rparr>)"

definition day_report :: "int \<Rightarrow> (string \<rightharpoonup> DaySummary) \<Rightarrow> Report" where
  "day_report day m =
     (let s = status_of m StatusSettled; n = status_of m StatusNoCharge
      in \<lparr>rp_Day = day, rp_OrderCount = add64 (add64 0 (ds_Count s)) (ds_Count n),
          rp_SettledCount = ds_Count s, rp_NoChargeCnt = ds_Count n,
          rp_TotalAmount = add64 (add64 0 (ds_AmountMicros s)) (ds_AmountMicros n),
          rp_Anomalies = 0, rp_RefundsAuto = 0, rp_RefundsManual = 0, rp_FrozenLeaked = 0\<rparr>)"

definition frozen_check :: "'r redis option \<Rightarrow> 'r recon \<Rightarrow> 'r recon \<times> (go_error + unit)" where
  "frozen_check pre w =
     (case pre of
        None \<Rightarrow> (w, Inr ())
      | Some R \<Rightarrow>
          (case FrozenBalance R (rc_sched w) (rc_redis w) of
             (Inl e, fs) \<Rightarrow> (w\<lparr>rc_sched := fs\<rparr>, Inl e)
           | (Inr fr, fs) \<Rightarrow> (w\<lparr>rc_sched := fs, rc_rep := (rc_rep w)\<lparr>rp_FrozenLeaked := fr\<rparr>\<rparr>, Inr ())))"

text \<open>Layers A and B only read and fill in the report.\<close>

definition run_layers :: "'r redis option \<Rightarrow> 'r recon \<Rightarrow> int \<Rightarrow> 'r recon \<times> (go_error + unit)" where
  "run_layers pre w day =
     (let (f1, w1) = pop w in
      case Summary f1 (rc_db w1) day of
        Inl e \<Rightarrow> (w1, Inl e)
      | Inr summary \<Rightarrow>
          let (f2, w2) = pop (w1\<lparr>rc_rep := day_report day summary\<rparr>) in
          case Anomalies f2 (rc_db w2) day of
            Inl e \<Rightarrow> (w2, Inl e)
          | Inr anomalies \<Rightarrow>
              frozen_check pre (w2\<lparr>rc_rep := (rc_rep w2)\<lparr>rp_Anomalies := int (length anomalies)\<rparr>\<rparr>))"

definition RunDay ::
  "'r redis option \<Rightarrow> int \<Rightarrow> int \<Rightarrow> 'r recon \<Rightarrow> int \<Rightarrow> bool \<Rightarrow> 'r recon \<times> (go_error + Report)" where
  "RunDay pre thr now w day autoRefund =
     (case run_layers pre w day of
        (w1, Inl e) \<Rightarrow> (w1, Inl e)
      | (w1, Inr _) \<Rightarrow>
          if autoRefund then
            (case autoRefundNegativeAmounts pre thr now w1 day of
               (w2, Inl e) \<Rightarrow> (w2, Inl e)
             | (w2, Inr _) \<Rightarrow> (w2, Inr (rc_rep w2)))
          else (w1, Inr (rc_rep w1)))"

text \<open>The exit code of the command: 2 on errors, 1 when differences were found.\<close>

definition reconcile_exit :: "bool \<Rightarrow> go_error + Report \<Rightarrow> int" where
  "reconcile_exit autoRefund r =
     (case r of
        Inl _ \<Rightarrow> 2
      | Inr rep \<Rightarrow>
          if rp_Anomalies rep > 0 \<or> rp_FrozenLeaked rep > 0 \<or> autoRefund \<and> rp_RefundsAuto rep > 0
          then 1 else 0)"

section \<open>Day strings\<close>

definition day_digit :: "char \<Rightarrow> nat option" where
  "day_digit c = (let n = of_char c :: nat in if 48 \<le> n \<and> n \<le> 57 then Some (n - 48) else None)"

fun day_digits :: "nat \<Rightarrow> string \<Rightarrow> nat option" where
  "day_digits acc [] = Some acc"
| "day_digits acc (c # cs) = (case day_digit c of None \<Rightarrow> None | Some d \<Rightarrow> day_digits (acc * 10 + d) cs)"

definition daysIn :: "nat \<Rightarrow> nat \<Rightarrow> nat" where
  "daysIn m y =
     (if m = 2 then (if y mod 4 = 0 \<and> (y mod 100 \<noteq> 0 \<or> y mod 400 = 0) then 29 else 28)
      else if m \<in> {4, 6, 9, 11} then 30 else 31)"

definition ValidateDay :: "string \<Rightarrow> go_error + string" where
  "ValidateDay day =
     (if length day = 10 \<and> day ! 4 = CHR ''-'' \<and> day ! 7 = CHR ''-'' then
        (case (day_digits 0 (take 4 day), day_digits 0 (take 2 (drop 5 day)), day_digits 0 (drop 8 day)) of
           (Some y, Some m, Some d) \<Rightarrow>
             if 1 \<le> m \<and> m \<le> 12 \<and> 1 \<le> d \<and> d \<le> daysIn m y then Inr day else Inl ErrDayFormat
         | _ \<Rightarrow> Inl ErrDayFormat)
      else Inl ErrDayFormat)"

section \<open>Supplier bills\<close>

record ProviderBill =
  pb_Provider :: string
  pb_Day :: int
  pb_PromptTok :: int
  pb_ComplTok :: int
  pb_CacheTok :: int
  pb_CostMicros :: int

record ProviderModelCost =
  mc_Provider :: string
  mc_Model :: string
  mc_Tokens :: int
  mc_CostMicros :: int

fun sync_loop :: "price_state \<Rightarrow> int \<Rightarrow> ProviderModelCost list \<Rightarrow> price_state \<times> int" where
  "sync_loop ps updated [] = (ps, updated)"
| "sync_loop ps updated (c # cs) =
     (if mc_Tokens c \<le> 0 \<or> mc_CostMicros c \<le> 0 then sync_loop ps updated cs
      else let per1M = div64 (mul64 (mc_CostMicros c) 1000000) (mc_Tokens c)
           in sync_loop (UpdateCostPrice ps (mc_Model c) \<lparr>InputPer1M = per1M, OutputPer1M = per1M\<rparr>)
                (updated + 1) cs)"

definition SyncDay :: "price_state \<Rightarrow> go_error + ProviderModelCost list \<Rightarrow> price_state \<times> (go_error + int)" where
  "SyncDay ps costs =
     (case costs of
        Inl e \<Rightarrow> (ps, Inl e)
      | Inr cs \<Rightarrow> (let (ps', n) = sync_loop ps 0 cs in (ps', Inr n)))"

record ProviderDiff =
  pd_Provider :: string
  pd_Day :: int
  pd_Mine :: MyUsageRow
  pd_Theirs :: ProviderBill
  pd_PromptDiffPct :: rat
  pd_ComplDiffPct :: rat
  pd_CostDiffPct :: rat
  pd_WithinTolerance :: bool

definition pctDiff :: "(rat \<Rightarrow> rat) \<Rightarrow> int \<Rightarrow> int \<Rightarrow> rat" where
  "pctDiff fl mine theirs =
     (if theirs = 0 then (if mine = 0 then 0 else 1)
      else let diff = fl (of_int (sub64 mine theirs)); diff = (if diff < 0 then - diff else diff)
           in fl (diff / fl (of_int theirs)))"

definition NewProviderReconciler :: "rat \<Rightarrow> rat" where
  "NewProviderReconciler tolerance = (if tolerance \<le> 0 then 5 / 10000 else tolerance)"

definition provider_diff ::
  "(rat \<Rightarrow> rat) \<Rightarrow> rat \<Rightarrow> int \<Rightarrow> string \<Rightarrow> MyUsageRow \<Rightarrow> ProviderBill \<Rightarrow> ProviderDiff" where
  "provider_diff fl tol day p my bill =
     (let a = pctDiff fl (mu_PromptTok my) (pb_PromptTok bill);
          b = pctDiff fl (mu_ComplTok my) (pb_ComplTok bill);
          c = pctDiff fl (mu_CostMicros my) (pb_CostMicros bill)
      in \<lparr>pd_Provider = p, pd_Day = day, pd_Mine = my, pd_Theirs = bill, pd_PromptDiffPct = a, pd_ComplDiffPct = b,
          pd_CostDiffPct = c, pd_WithinTolerance = (a \<le> tol \<and> b \<le> tol \<and> c \<le> tol)\<rparr>)"

text \<open>
  \<open>fetch p\<close> is the bill source's answer (an error, no bill, or a bill); \<open>order\<close> is the order
  the map of our usage is ranged over.
\<close>

definition Run_providers ::
  "(rat \<Rightarrow> rat) \<Rightarrow> rat \<Rightarrow> int \<Rightarrow> (string \<Rightarrow> go_error + ProviderBill option) \<Rightarrow> string list
     \<Rightarrow> go_error + (string \<rightharpoonup> MyUsageRow) \<Rightarrow> go_error + ProviderDiff list" where
  "Run_providers fl tol day fetch order usage =
     (case usage of
        Inl e \<Rightarrow> Inl e
      | Inr mine \<Rightarrow>
          Inr (concat (map (\<lambda>p. case (mine p, fetch p) of
                 (Some my, Inr (Some bill)) \<Rightarrow> [provider_diff fl tol day p my bill]
               | _ \<Rightarrow> []) order)))"

section \<open>Credits follow refund rows\<close>

text \<open>The credits the refund rows of a user stand for: at most once per idempotency key.\<close>

definition auto_sum :: "pg \<Rightarrow> string \<Rightarrow> int" where
  "auto_sum db u = sum_of (\<lambda>r. max (rf_AmountMicros r) 0)
     (filter (\<lambda>r. rf_UserID r = u \<and> rf_ApprovalLevel r = ApprovalAuto) (pg_refunds db))"

lemma auto_sum_InsertRefund:
  "snd (InsertRefund now f db r) = Inr (i, True) \<Longrightarrow>
     auto_sum (fst (InsertRefund now f db r)) u = auto_sum db u +
       (if rf_UserID r = u \<and> rf_ApprovalLevel r = ApprovalAuto then max (rf_AmountMicros r) 0 else 0)"
  "auto_sum db u \<le> auto_sum (fst (InsertRefund now f db r)) u"
  by (cases f; auto simp: InsertRefund_def sql_insert_refund_def auto_sum_def sum_of_def Let_def
      split: option.splits prod.splits)+

lemma auto_sum_MarkExecuted [simp]: "auto_sum (fst (MarkExecuted f db i)) u = auto_sum db u"
proof -
  have "map (\<lambda>r. max (rf_AmountMicros r) 0) (filter (\<lambda>r. rf_UserID r = u \<and> rf_ApprovalLevel r = ApprovalAuto)
      (map (\<lambda>r. if rf_ID r = i \<and> rf_Status r = RefundPending then r\<lparr>rf_Status := RefundExecuted\<rparr> else r) rs)) =
    map (\<lambda>r. max (rf_AmountMicros r) 0) (filter (\<lambda>r. rf_UserID r = u \<and> rf_ApprovalLevel r = ApprovalAuto) rs)" for rs :: "Refund list"
    by (induction rs) simp_all
  then show ?thesis
    by (cases f) (simp_all add: MarkExecuted_def auto_sum_def sum_of_def)
qed

lemma orders_kept [simp]:
  "pg_orders (fst (InsertRefund now f db r)) = pg_orders db"
  "pg_orders (fst (MarkExecuted f db i)) = pg_orders db"
  by (cases f; simp add: InsertRefund_def sql_insert_refund_def MarkExecuted_def Let_def split: option.splits)+

lemma keys_kept:
  "has_refund_key key db \<Longrightarrow> has_refund_key key (fst (MarkExecuted f db i))"
proof -
  have "list_ex (\<lambda>r. rf_IdempotencyKey r = key)
      (map (\<lambda>r. if rf_ID r = i \<and> rf_Status r = RefundPending then r\<lparr>rf_Status := RefundExecuted\<rparr> else r) rs) =
    list_ex (\<lambda>r. rf_IdempotencyKey r = key) rs" for rs :: "Refund list"
    by (induction rs) simp_all
  then show "has_refund_key key db \<Longrightarrow> has_refund_key key (fst (MarkExecuted f db i))"
    by (cases f) (simp_all add: MarkExecuted_def has_refund_key_def)
qed

context redis_kv
begin

lemma TopUp_at_most:
  "get0 R (fst (TopUp R f s u a)) (balKey v) \<le> get0 R s (balKey v) + (if v = u then max a 0 else 0)"
proof (cases "0 < a \<and> in64 (get0 R s (balKey u) + a)")
  case True
  then obtain s' where "r_incrby R s (balKey u) a = Some s'"
    "r_get R s' = (r_get R s)(balKey u \<mapsto> get0 R s (balKey u) + a)"
    using incrbyE by blast
  with True show ?thesis by (cases f) (auto simp: TopUp_def get0_def)
next
  case False
  then show ?thesis
    by (cases f) (auto simp: TopUp_def incrby_overflow)
qed

end

definition credit_bound :: "'r redis \<Rightarrow> string \<Rightarrow> 'r recon \<Rightarrow> 'r recon \<Rightarrow> bool" where
  "credit_bound R u w w' \<longleftrightarrow>
     get0 R (rc_redis w') (balKey u) - get0 R (rc_redis w) (balKey u) \<le> auto_sum (rc_db w') u - auto_sum (rc_db w) u"

lemma credit_bound_trans: "credit_bound R u w w' \<Longrightarrow> credit_bound R u w' w'' \<Longrightarrow> credit_bound R u w w''"
  by (simp add: credit_bound_def)

lemma pop_simps [simp]:
  "rc_db (snd (pop w)) = rc_db w" "rc_redis (snd (pop w)) = rc_redis w" "rc_rep (snd (pop w)) = rc_rep w"
  by (simp_all add: pop_def split: prod.splits)

lemma popE: obtains f v where "pop w = (f, v)" "rc_db v = rc_db w" "rc_redis v = rc_redis w" "rc_rep v = rc_rep w"
  by (metis pop_simps prod.collapse)

text \<open>
  One refund: the database stays well formed, its orders are untouched, the order's refund
  key is stored unless an error is returned, and the balance grows by at most the new row.
\<close>

definition refund_step_ok :: "'r redis option \<Rightarrow> Order list \<Rightarrow> 'r recon \<Rightarrow> 'r recon \<Rightarrow> bool" where
  "refund_step_ok pre xs w w' \<longleftrightarrow>
     (pg_ok (rc_db w) \<longrightarrow> pg_ok (rc_db w')) \<and> pg_orders (rc_db w') = pg_orders (rc_db w) \<and>
     (\<forall>key. has_refund_key key (rc_db w) \<longrightarrow> has_refund_key key (rc_db w')) \<and>
     (\<forall>x\<in>set xs. has_refund_key (''neg:'' @ o_RequestID x) (rc_db w')) \<and>
     (\<forall>R u. pre = Some R \<and> redis_kv R \<longrightarrow> credit_bound R u w w')"

lemma InsertRefund_answered:
  "snd (InsertRefund now f db r) = Inr a \<Longrightarrow> has_refund_key (rf_IdempotencyKey r) (fst (InsertRefund now f db r))"
proof (cases "find (\<lambda>x. rf_IdempotencyKey x = rf_IdempotencyKey r) (pg_refunds db)")
  case (Some y)
  then have "has_refund_key (rf_IdempotencyKey r) db"
    by (auto simp: has_refund_key_def list_ex_iff dest: find_SomeD)
  then show ?thesis by (rule InsertRefund_keeps_key)
qed (cases f; simp add: InsertRefund_def sql_insert_refund_def has_refund_key_iff Let_def)

text \<open>What executing a refund changes, whatever the calls answer.\<close>

lemma execute_refund_effect:
  "rc_redis (execute_refund R w x i) = fst (TopUp R (fst (pop w)) (rc_redis w) (o_UserID x) (refund_amount x)) \<and>
   (rc_db (execute_refund R w x i) = rc_db w \<or> (\<exists>f. rc_db (execute_refund R w x i) = fst (MarkExecuted f (rc_db w) i)))"
proof -
  obtain f w1 where p1: "pop w = (f, w1)" "rc_db w1 = rc_db w" "rc_redis w1 = rc_redis w"
    by (rule popE [of w])
  obtain rd t where t: "TopUp R f (rc_redis w) (o_UserID x) (refund_amount x) = (rd, t)" by fastforce
  obtain g w3 where p2: "pop (w1\<lparr>rc_redis := rd\<rparr>) = (g, w3)" "rc_db w3 = rc_db w" "rc_redis w3 = rd"
    using pop_simps [of "w1\<lparr>rc_redis := rd\<rparr>"] p1(2) by (cases "pop (w1\<lparr>rc_redis := rd\<rparr>)") simp
  obtain db m where mk: "MarkExecuted g (rc_db w) i = (db, m)" by fastforce
  have "\<exists>f. db = fst (MarkExecuted f (rc_db w) i)"
    using mk by (intro exI [of _ g]) simp
  then show ?thesis
    using p1 p2 t mk by (cases t) (auto simp: execute_refund_def)
qed

lemma auto_refund_one_ok:
  assumes one: "auto_refund_one pre thr now w x = (w', r)"
  shows "refund_step_ok pre (if isl r then [] else [x]) w w'"
proof -
  obtain f w1 where p1: "pop w = (f, w1)" "rc_db w1 = rc_db w" "rc_redis w1 = rc_redis w"
    by (rule popE [of w])
  let ?r = "neg_refund thr x"
  obtain db ans where ins: "InsertRefund now f (rc_db w) ?r = (db, ans)" by fastforce
  have key: "rf_IdempotencyKey ?r = ''neg:'' @ o_RequestID x" "rf_UserID ?r = o_UserID x"
    "rf_AmountMicros ?r = refund_amount x"
    by (simp_all add: neg_refund_def)
  have db: "pg_ok (rc_db w) \<Longrightarrow> pg_ok db" "pg_orders db = pg_orders (rc_db w)"
    "has_refund_key k (rc_db w) \<Longrightarrow> has_refund_key k db"
    "ans = Inr a \<Longrightarrow> has_refund_key (''neg:'' @ o_RequestID x) db"
    "auto_sum (rc_db w) u \<le> auto_sum db u" for k a u
    using pg_ok_InsertRefund [of "rc_db w" now f ?r] orders_kept(1) [of now f "rc_db w" ?r]
      InsertRefund_keeps_key [of k "rc_db w" now f ?r] InsertRefund_answered [of now f "rc_db w" ?r]
      auto_sum_InsertRefund(2) [of "rc_db w" u now f ?r]
    by (simp_all add: ins key)
  consider (plain) "rc_db w' = db" "rc_redis w' = rc_redis w" "isl r = isl ans"
    | (exec) i R where "ans = Inr (i, True)" "rf_ApprovalLevel ?r = ApprovalAuto" "pre = Some R"
        "w' = execute_refund R (w1\<lparr>rc_db := db\<rparr>) x i" "r = Inr ()"
    using one p1 ins
    by (auto simp: auto_refund_one_def Let_def split: sum.splits prod.splits if_splits)
  then show ?thesis
  proof cases
    case plain
    then show ?thesis
      using db by (cases ans) (auto simp: refund_step_ok_def credit_bound_def)
  next
    case exec
    note eff = execute_refund_effect [of R "w1\<lparr>rc_db := db\<rparr>" x i, folded exec(4)]
    have sum: "auto_sum (rc_db w') u = auto_sum db u" for u
      using eff by auto
    also have "auto_sum db u = auto_sum (rc_db w) u + (if o_UserID x = u then max (refund_amount x) 0 else 0)" for u
      using auto_sum_InsertRefund(1) [of now f "rc_db w" ?r i u] exec(1,2) by (simp add: ins key)
    finally have sum: "auto_sum (rc_db w') u - auto_sum (rc_db w) u =
        (if u = o_UserID x then max (refund_amount x) 0 else 0)" for u by auto
    have "credit_bound R u w w'" if "redis_kv R" for u
      using redis_kv.TopUp_at_most [OF that, of "fst (pop (w1\<lparr>rc_db := db\<rparr>))" "rc_redis w" "o_UserID x" "refund_amount x" u]
        eff p1 by (simp add: credit_bound_def sum)
    moreover have "pg_ok (rc_db w) \<Longrightarrow> pg_ok (rc_db w')" "pg_orders (rc_db w') = pg_orders (rc_db w)"
      "has_refund_key k db \<Longrightarrow> has_refund_key k (rc_db w')" for k
      using eff db(1,2) by (auto simp: pg_ok_MarkExecuted keys_kept)
    ultimately show ?thesis
      using db(3,4) exec by (auto simp: refund_step_ok_def)
  qed
qed

lemma refund_step_trans:
  "refund_step_ok pre xs w w' \<Longrightarrow> refund_step_ok pre ys w' w'' \<Longrightarrow> refund_step_ok pre (xs @ ys) w w''"
  unfolding refund_step_ok_def by (auto intro: credit_bound_trans [of _ _ w w' w''])

lemma refund_step_weaken: "refund_step_ok pre xs w w' \<Longrightarrow> set ys \<subseteq> set xs \<Longrightarrow> refund_step_ok pre ys w w'"
  by (auto simp: refund_step_ok_def)

lemma refund_step_same:
  "rc_db w' = rc_db w \<Longrightarrow> rc_redis w' = rc_redis w \<Longrightarrow> refund_step_ok pre [] w w'"
  by (simp add: refund_step_ok_def credit_bound_def)

lemma auto_refund_loop_ok:
  "auto_refund_loop pre thr now w xs = (w', r) \<Longrightarrow> refund_step_ok pre (if isl r then [] else xs) w w'"
proof (induction pre thr now w xs arbitrary: w' r rule: auto_refund_loop.induct)
  case (2 pre thr now w x xs)
  obtain v a where one: "auto_refund_one pre thr now w x = (v, a)" by fastforce
  note step = auto_refund_one_ok [OF one]
  show ?case
  proof (cases a)
    case (Inl e)
    then have "w' = v" "isl r" using "2.prems" one by auto
    with step Inl show ?thesis by simp
  next
    case (Inr u)
    then have "auto_refund_loop pre thr now v xs = (w', r)" using "2.prems" one by simp
    then have "refund_step_ok pre (if isl r then [] else xs) v w'"
      using "2.IH" [OF one [symmetric] Inr] by simp
    from refund_step_trans [OF step this] show ?thesis
      by (rule refund_step_weaken) (auto simp: Inr)
  qed
qed (simp add: refund_step_same)

text \<open>The refund keys a finished day must have.\<close>

definition day_closed :: "pg \<Rightarrow> int \<Rightarrow> bool" where
  "day_closed db day \<longleftrightarrow>
     (\<forall>x\<in>set (take 1000 (filter (\<lambda>x. o_AmountMicros x < 0) (day_orders db day))).
        has_refund_key (''neg:'' @ o_RequestID x) db)"

lemma frozen_check_same:
  "rc_db (fst (frozen_check pre w)) = rc_db w \<and> rc_redis (fst (frozen_check pre w)) = rc_redis w"
  by (auto simp: frozen_check_def split: option.splits prod.splits sum.splits)

lemma run_layers_same:
  "rc_db (fst (run_layers pre w day)) = rc_db w \<and> rc_redis (fst (run_layers pre w day)) = rc_redis w"
proof -
  obtain f1 w1 where p1: "pop w = (f1, w1)" "rc_db w1 = rc_db w" "rc_redis w1 = rc_redis w"
    by (rule popE [of w])
  show ?thesis
  proof (cases "Summary f1 (rc_db w) day")
    case (Inr m)
    let ?v = "w1\<lparr>rc_rep := day_report day m\<rparr>"
    obtain f2 w2 where "pop ?v = (f2, w2)" "rc_db w2 = rc_db ?v" "rc_redis w2 = rc_redis ?v"
      by (rule popE [of ?v])
    then show ?thesis
      using p1 Inr frozen_check_same [of pre] by (simp add: run_layers_def split: sum.splits)
  qed (use p1 in \<open>simp add: run_layers_def\<close>)
qed

lemma autoRefund_ok:
  assumes "autoRefundNegativeAmounts pre thr now w day = (w', r)"
  shows "refund_step_ok pre [] w w' \<and> (\<not> isl r \<longrightarrow> day_closed (rc_db w') day)"
proof -
  obtain f w1 where p1: "pop w = (f, w1)" "rc_db w1 = rc_db w" "rc_redis w1 = rc_redis w"
    by (rule popE [of w])
  show ?thesis
  proof (cases "NegativeAmountOrders f (rc_db w) day")
    case (Inl e)
    then have "w' = w1" "isl r" using assms p1 by (auto simp: autoRefundNegativeAmounts_def)
    with p1 show ?thesis by (simp add: refund_step_same)
  next
    case (Inr neg)
    then have neg: "neg = take 1000 (filter (\<lambda>x. o_AmountMicros x < 0) (day_orders (rc_db w) day))"
      by (cases f) (simp_all add: NegativeAmountOrders_def query_def)
    have "auto_refund_loop pre thr now w1 neg = (w', r)"
      using assms p1 Inr by (simp add: autoRefundNegativeAmounts_def)
    note loop = auto_refund_loop_ok [OF this]
    have "refund_step_ok pre ([] @ (if isl r then [] else neg)) w w'"
      by (rule refund_step_trans [OF refund_step_same loop]) (simp_all add: p1)
    then have step: "refund_step_ok pre (if isl r then [] else neg) w w'" by simp
    then have "pg_orders (rc_db w') = pg_orders (rc_db w)" by (simp add: refund_step_ok_def)
    then have "day_orders (rc_db w') day = day_orders (rc_db w) day" by (simp add: day_orders_def)
    then have "\<not> isl r \<longrightarrow> day_closed (rc_db w') day"
      using step by (auto simp: day_closed_def refund_step_ok_def neg)
    moreover have "refund_step_ok pre [] w w'"
      using step by (rule refund_step_weaken) simp
    ultimately show ?thesis by blast
  qed
qed

lemma RunDay_ok:
  assumes run: "RunDay pre thr now w day auto = (w', r)"
  shows "refund_step_ok pre [] w w' \<and> (auto \<and> \<not> isl r \<longrightarrow> day_closed (rc_db w') day)"
proof -
  obtain w1 a where l: "run_layers pre w day = (w1, a)" by fastforce
  then have same: "rc_db w1 = rc_db w" "rc_redis w1 = rc_redis w"
    using run_layers_same [of pre w day] by simp_all
  show ?thesis
  proof (cases "isl a \<or> \<not> auto")
    case True
    then have "w' = w1" "auto \<longrightarrow> isl r"
      using run l by (auto simp: RunDay_def isl_def split: sum.splits)
    with same show ?thesis by (auto simp: refund_step_same)
  next
    case False
    obtain w2 b where n: "autoRefundNegativeAmounts pre thr now w1 day = (w2, b)" by fastforce
    then have "w' = w2" "isl r = isl b"
      using run l False by (auto simp: RunDay_def split: sum.splits)
    then show ?thesis
      using autoRefund_ok [OF n] refund_step_trans [OF refund_step_same [OF same, of pre], of "[]" w2] False by auto
  qed
qed

section \<open>Re-running a closed day\<close>

lemma InsertRefund_known:
  assumes "has_refund_key (rf_IdempotencyKey r) db"
  shows "pg_refunds (fst (InsertRefund now f db r)) = pg_refunds db
    \<and> (\<forall>i. snd (InsertRefund now f db r) \<noteq> Inr (i, True))"
proof -
  obtain y where "find (\<lambda>x. rf_IdempotencyKey x = rf_IdempotencyKey r) (pg_refunds db) = Some y"
    using assms by (cases "find (\<lambda>x. rf_IdempotencyKey x = rf_IdempotencyKey r) (pg_refunds db)")
      (auto simp: find_None_iff has_refund_key_iff)
  then show ?thesis
    by (cases f) (simp_all add: InsertRefund_def sql_insert_refund_def Let_def)
qed

definition unchanged :: "'r recon \<Rightarrow> 'r recon \<Rightarrow> bool" where
  "unchanged w w' \<longleftrightarrow> rc_redis w' = rc_redis w \<and> pg_refunds (rc_db w') = pg_refunds (rc_db w) \<and>
     pg_orders (rc_db w') = pg_orders (rc_db w)"

lemma auto_refund_one_known:
  assumes "has_refund_key (''neg:'' @ o_RequestID x) (rc_db w)"
  shows "unchanged w (fst (auto_refund_one pre thr now w x))"
proof -
  obtain f w1 where p1: "pop w = (f, w1)" "rc_db w1 = rc_db w" "rc_redis w1 = rc_redis w"
    by (rule popE [of w])
  let ?r = "neg_refund thr x"
  obtain db ans where ins: "InsertRefund now f (rc_db w) ?r = (db, ans)" by fastforce
  have "rf_IdempotencyKey ?r = ''neg:'' @ o_RequestID x" by (simp add: neg_refund_def)
  then have "pg_refunds db = pg_refunds (rc_db w)" "ans \<noteq> Inr (i, True)" "pg_orders db = pg_orders (rc_db w)" for i
    using InsertRefund_known [of ?r "rc_db w" now f] orders_kept(1) [of now f "rc_db w" ?r] assms
    by (simp_all add: ins)
  then show ?thesis
    using p1 ins by (auto simp: auto_refund_one_def unchanged_def Let_def split: sum.splits)
qed

lemma auto_refund_loop_known:
  assumes "\<forall>x\<in>set xs. has_refund_key (''neg:'' @ o_RequestID x) (rc_db w)"
  shows "unchanged w (fst (auto_refund_loop pre thr now w xs))"
  using assms
proof (induction xs arbitrary: w)
  case (Cons x xs)
  obtain v a where one: "auto_refund_one pre thr now w x = (v, a)" by fastforce
  have u: "unchanged w v"
    using auto_refund_one_known [of x w pre thr now] Cons.prems one by simp
  then have "\<forall>x\<in>set xs. has_refund_key (''neg:'' @ o_RequestID x) (rc_db v)"
    using Cons.prems by (simp add: unchanged_def has_refund_key_def)
  from Cons.IH [OF this] u one show ?case
    by (cases a) (auto simp: unchanged_def)
qed (simp add: unchanged_def)

lemma RunDay_closed:
  assumes "day_closed (rc_db w) day"
  shows "unchanged w (fst (RunDay pre thr now w day auto))"
proof -
  obtain w1 a where l: "run_layers pre w day = (w1, a)" by fastforce
  then have same: "rc_db w1 = rc_db w" "rc_redis w1 = rc_redis w"
    using run_layers_same [of pre w day] by simp_all
  obtain f w2 where p: "pop w1 = (f, w2)" "rc_db w2 = rc_db w1" "rc_redis w2 = rc_redis w1"
    by (rule popE [of w1])
  have "unchanged w (fst (autoRefundNegativeAmounts pre thr now w1 day))"
  proof (cases "NegativeAmountOrders f (rc_db w) day")
    case (Inr neg)
    then have "\<forall>x\<in>set neg. has_refund_key (''neg:'' @ o_RequestID x) (rc_db w2)"
      using assms p same by (cases f) (auto simp: NegativeAmountOrders_def query_def day_closed_def)
    from auto_refund_loop_known [OF this, of pre thr now] show ?thesis
      using Inr p same by (simp add: autoRefundNegativeAmounts_def unchanged_def)
  qed (use p same in \<open>simp add: autoRefundNegativeAmounts_def unchanged_def\<close>)
  moreover have "unchanged w w1" using same by (simp add: unchanged_def)
  ultimately show ?thesis
    using l by (auto simp: RunDay_def split: sum.splits prod.splits)
qed

section \<open>Properties\<close>

text \<open>A history of day closes: each with its own time, call outcomes, day and refund flag.\<close>

definition run_days ::
  "'r redis option \<Rightarrow> int \<Rightarrow> 'r recon \<Rightarrow> (int \<times> sched \<times> int \<times> bool) list \<Rightarrow> 'r recon" where
  "run_days pre thr w runs =
     foldl (\<lambda>w (now, fs, day, auto). fst (RunDay pre thr now (w\<lparr>rc_sched := fs\<rparr>) day auto)) w runs"


definition negative_db :: pg where
  "negative_db = empty_pg\<lparr>pg_orders := [sample_order ''r1'' ''u'' (- 70)]\<rparr>"

definition no_report :: Report where
  "no_report = day_report 0 (\<lambda>_. None)"


text \<open>Theorem: Closing a day again changes nothing. After a day close with refunds that did not
report an error, any further run for that day, whatever its calls answer, adds no refund and
credits nobody. This holds even when a credit of the first run had failed: its refund
stays pending and is never retried, although the loop takes the existing row to mean
that the user was refunded.\<close>

theorem closed_day_stays_closed:
  assumes "RunDay pre thr now w day True = (w1, Inr rep)"
    and "w2 = fst (RunDay pre thr now' (w1\<lparr>rc_sched := fs\<rparr>) day auto)"
  shows "rc_redis w2 = rc_redis w1 \<and> pg_refunds (rc_db w2) = pg_refunds (rc_db w1) \<and>
    pg_orders (rc_db w2) = pg_orders (rc_db w1)"
proof -
  have "day_closed (rc_db (w1\<lparr>rc_sched := fs\<rparr>)) day"
    using RunDay_ok [OF assms(1)] by simp
  from RunDay_closed [OF this, of pre thr now' auto] assms(2) show ?thesis
    by (simp add: unchanged_def)
qed

definition lost_credit :: "(string \<times> int) list recon" where
  "lost_credit = \<lparr>rc_db = negative_db, rc_redis = [], rc_rep = no_report,
     rc_sched = [NoFault, NoFault, NoFault, NoFault, NoFault, FailBefore]\<rparr>"

lemma lost_credit_run:
  "\<exists>w1 rep. RunDay (Some mem_redis) AutoThresholdMicros 5 lost_credit 0 True = (w1, Inr rep) \<and>
     rc_redis w1 = [] \<and> map rf_Status (pg_refunds (rc_db w1)) = [RefundPending]"
proof -
  have s: "Summary NoFault negative_db 0 = Inr (day_map (day_orders negative_db 0))"
    by (rule Summary_day_map)
       (simp add: Summary_def query_def day_orders_def in_day_def negative_db_def empty_pg_def sample_order_def
         group_keys_def status_summary_def group_rows_def sum_of_def in64_def)
  have n: "NegativeAmountOrders NoFault negative_db 0 = Inr [sample_order ''r1'' ''u'' (- 70)]"
    by (simp add: NegativeAmountOrders_def query_def day_orders_def in_day_def negative_db_def sample_order_def)
  have a: "refund_amount (sample_order ''r1'' ''u'' (- 70)) = 70"
    by (simp add: refund_amount_def sample_order_def sub64_def wrap64_def)
  have sc: "FrozenBalance mem_redis (NoFault # fs) [] = (Inr 0, fs)" for fs
    by (simp add: FrozenBalance_def mem_redis_def)
  have nd: "pg_refunds negative_db = []" "pg_refund_seq negative_db = 0"
    by (simp_all add: negative_db_def empty_pg_def)
  show ?thesis
    by (simp add: RunDay_def run_layers_def frozen_check_def autoRefundNegativeAmounts_def lost_credit_def pop_def
        s n sc Anomalies_def query_def auto_refund_one_def execute_refund_def TopUp_def a InsertRefund_def
        sql_insert_refund_def neg_refund_def AutoThresholdMicros_def nd)
qed

theorem closed_day_stays_closed_witness:
  "\<exists>w1 rep. RunDay (Some mem_redis) AutoThresholdMicros 5 lost_credit 0 True = (w1, Inr rep) \<and>
     rc_redis w1 = [] \<and> map rf_Status (pg_refunds (rc_db w1)) = [RefundPending] \<and>
     rc_redis (fst (RunDay (Some mem_redis) AutoThresholdMicros 6 (w1\<lparr>rc_sched := []\<rparr>) 0 True)) = []"
proof -
  obtain w1 rep where r: "RunDay (Some mem_redis) AutoThresholdMicros 5 lost_credit 0 True = (w1, Inr rep)"
    "rc_redis w1 = []" "map rf_Status (pg_refunds (rc_db w1)) = [RefundPending]"
    using lost_credit_run by (elim exE conjE)
  from closed_day_stays_closed [OF r(1) refl, of 6 "[]" True] r show ?thesis by auto
qed

section \<open>Supplier comparison\<close>

context float_rounding
begin

lemma pctDiff_zero_cost: "0 < theirs \<Longrightarrow> in64 theirs \<Longrightarrow> pctDiff fl 0 theirs = 1"
proof -
  assume t: "0 < theirs" "in64 theirs"
  then have "sub64 0 theirs = - theirs"
    by (intro trans [OF sub64_id]) (auto simp: in64_def)
  with t(1) fl_pos [OF t(1)] show ?thesis
    by (simp add: pctDiff_def fl_neg fl_one Let_def)
qed

lemma pctDiff_same: "in64 n \<Longrightarrow> pctDiff fl n n = 0"
  by (simp add: pctDiff_def sub64_def wrap64_def fl_zero Let_def)

end

text \<open>Theorem: Supplier reconciliation can never pass. The PostgreSQL aggregate reports a cost
of zero for every provider, so for a supplier bill with a positive cost the cost difference
is 100 percent, and with any tolerance below that (the default is 0.05 percent) the
comparison is out of tolerance, even when every token count agrees.\<close>

theorem supplier_comparison_never_within_tolerance:
  assumes "float_rounding fl" and "SumProviderUsage NoFault db day = Inr usage" and "usage p = Some my"
    and "0 < pb_CostMicros bill" and "in64 (pb_CostMicros bill)" and "tol < 1"
  shows "mu_CostMicros my = 0 \<and> pd_CostDiffPct (provider_diff fl tol day p my bill) = 1 \<and>
    \<not> pd_WithinTolerance (provider_diff fl tol day p my bill)"
proof -
  have "mu_CostMicros my = 0"
    using assms(2,3)
    by (auto simp: SumProviderUsage_def query_def Let_def provider_usage_def split: if_splits)
  then show ?thesis
    using float_rounding.pctDiff_zero_cost [OF assms(1,4,5)] assms(6) by (simp add: provider_diff_def Let_def)
qed

definition sample_bill :: ProviderBill where
  "sample_bill = \<lparr>pb_Provider = ''openai'', pb_Day = 0, pb_PromptTok = 10, pb_ComplTok = 5, pb_CacheTok = 0,
     pb_CostMicros = 40\<rparr>"

theorem supplier_comparison_never_within_tolerance_witness:
  "\<not> pd_WithinTolerance (provider_diff id (5 / 10000) 0 ''openai''
      (provider_usage [sample_order ''r1'' ''u'' 30] ''openai'') sample_bill)"
proof -
  have "SumProviderUsage NoFault (empty_pg\<lparr>pg_orders := [sample_order ''r1'' ''u'' 30]\<rparr>) 0 =
      Inr [''openai'' \<mapsto> provider_usage [sample_order ''r1'' ''u'' 30] ''openai'']"
    by (auto simp: SumProviderUsage_def query_def settled_orders_def day_orders_def in_day_def empty_pg_def
        sample_order_def group_keys_def provider_usage_def group_rows_def sum_of_def in64_def)
  from supplier_comparison_never_within_tolerance [OF exact.float_rounding_axioms this,
      of "''openai''" _ sample_bill "5 / 10000"]
  show ?thesis by (simp add: sample_bill_def in64_def)
qed

end
