(* ===== verification/Detail_Sink.thy ===== *)
theory Detail_Sink
  imports Settler
begin

text \<open>
  \<open>internal/billing/detail.go\<close>: the request-level detail rows, buffered and written to
  ClickHouse in batches. The database is a record of the two commands the sink sends (a batch
  insert and a lookup by request id); the locale \<open>clickhouse\<close> states what the sink relies on.
  A schedule gives the outcomes of the calls. Parts of an operation that hold the mutex are one
  step each, so that emits and flushes can interleave.
\<close>

section \<open>Rows\<close>

record DetailRow =
  dr_RequestID :: string
  dr_UserID :: string
  dr_Model :: string
  dr_Provider :: string
  dr_Status :: string
  dr_PromptTokens :: int
  dr_CompletionTokens :: int
  dr_TotalTokens :: int
  dr_AmountMicros :: int
  dr_DurationMs :: int
  dr_TTFTMs :: int
  dr_Ts :: int

definition detail_row :: "price_state \<Rightarrow> int \<Rightarrow> Event \<Rightarrow> DetailRow" where
  "detail_row ps now ev =
     (let p = priceFromEvent ps ev;
          failed = (ev_Status ev = StatusFailed);
          completion = (if failed then 0 else ev_CompletionTokens ev);
          amount = (if failed then 0 else CalculateAmount (ev_PromptTokens ev) (ev_CompletionTokens ev) p)
      in \<lparr>dr_RequestID = ev_RequestID ev, dr_UserID = ev_UserID ev, dr_Model = ev_Model ev,
          dr_Provider = ev_Provider ev, dr_Status = ev_Status ev,
          dr_PromptTokens = ev_PromptTokens ev, dr_CompletionTokens = completion,
          dr_TotalTokens = add64 (ev_PromptTokens ev) completion, dr_AmountMicros = amount,
          dr_DurationMs = ev_DurationMs ev, dr_TTFTMs = ev_TTFTMs ev,
          dr_Ts = (case ev_Timestamp ev of None \<Rightarrow> now | Some t \<Rightarrow> t)\<rparr>)"

section \<open>The sink\<close>

record 'c clickhouse_conn =
  cl_send :: "'c \<Rightarrow> DetailRow list \<Rightarrow> 'c"
  cl_query :: "'c \<Rightarrow> string \<Rightarrow> go_error + DetailRow option"

record 'c DetailSink =
  dt_batchN :: int
  dt_buf :: "DetailRow list"
  dt_flushAt :: "int option"
  dt_conn :: 'c
  dt_sched :: sched

definition detail_maxWait :: int where
  "detail_maxWait = 1000000"

text \<open>After the connection is open and the schema applied.\<close>

definition NewDetailSink :: "int \<Rightarrow> 'c \<Rightarrow> sched \<Rightarrow> 'c DetailSink" where
  "NewDetailSink batchN c fs =
     \<lparr>dt_batchN = (if batchN \<le> 0 then 1000 else batchN), dt_buf = [], dt_flushAt = None, dt_conn = c, dt_sched = fs\<rparr>"

definition detail_append :: "price_state \<Rightarrow> int \<Rightarrow> 'c DetailSink \<Rightarrow> Event \<Rightarrow> 'c DetailSink \<times> bool" where
  "detail_append ps now s ev =
     (let s1 = s\<lparr>dt_buf := dt_buf s @ [detail_row ps now ev]\<rparr>;
          full = (int (length (dt_buf s1)) \<ge> dt_batchN s1);
          s2 = (if \<not> full \<and> dt_flushAt s1 = None then s1\<lparr>dt_flushAt := Some (now + detail_maxWait)\<rparr> else s1)
      in (s2, full))"

definition detail_flush :: "'c clickhouse_conn \<Rightarrow> 'c DetailSink \<Rightarrow> 'c DetailSink" where
  "detail_flush C s =
     (if dt_buf s = [] then s
      else
        let rows = dt_buf s; (f1, fs1) = pop_fault (dt_sched s); (f2, fs2) = pop_fault fs1;
            s1 = s\<lparr>dt_buf := [], dt_flushAt := None\<rparr>
        in if f1 \<noteq> NoFault then s1\<lparr>dt_sched := fs1\<rparr>
           else s1\<lparr>dt_conn := fst (call_service f2 (dt_conn s1) (cl_send C (dt_conn s1) rows, Inr ())), dt_sched := fs2\<rparr>)"

definition Detail_Emit :: "'c clickhouse_conn \<Rightarrow> price_state \<Rightarrow> int \<Rightarrow> 'c DetailSink \<Rightarrow> Event \<Rightarrow> 'c DetailSink \<times> (go_error + unit)" where
  "Detail_Emit C ps now s ev =
     (let (s1, full) = detail_append ps now s ev
      in (if full then detail_flush C s1 else s1, Inr ()))"

definition detail_tick :: "'c clickhouse_conn \<Rightarrow> int \<Rightarrow> 'c DetailSink \<Rightarrow> 'c DetailSink" where
  "detail_tick C now s =
     (case dt_flushAt s of
        None \<Rightarrow> s
      | Some t \<Rightarrow> if now > t then detail_flush C s else s)"

definition Lookup :: "'c clickhouse_conn \<Rightarrow> fault \<Rightarrow> 'c DetailSink \<Rightarrow> string \<Rightarrow> go_error + DetailRow option" where
  "Lookup C f s requestID = (if f \<noteq> NoFault then Inl ErrService else cl_query C (dt_conn s) requestID)"

definition Detail_Close :: "'c clickhouse_conn \<Rightarrow> 'c DetailSink \<Rightarrow> 'c DetailSink" where
  "Detail_Close C s = detail_flush C s"

section \<open>What the sink relies on\<close>

text \<open>
  The columns are unsigned: a row is stored as it is when its counts are not negative. A
  batch that is sent is stored as a whole; a lookup answers with some row of the request id,
  and with none only when there is none.
\<close>

definition fits :: "DetailRow \<Rightarrow> bool" where
  "fits r \<longleftrightarrow> 0 \<le> dr_PromptTokens r \<and> 0 \<le> dr_CompletionTokens r \<and> 0 \<le> dr_TotalTokens r \<and>
     0 \<le> dr_DurationMs r \<and> 0 \<le> dr_TTFTMs r"

locale clickhouse =
  fixes C :: "'c clickhouse_conn" and stored :: "'c \<Rightarrow> DetailRow multiset"
  assumes send_stores: "list_all fits rows \<Longrightarrow> stored (cl_send C c rows) = stored c + mset rows"
    and query_finds: "r \<in># stored c \<Longrightarrow> \<exists>r'. cl_query C c (dr_RequestID r) = Inr (Some r')"
    and query_sound: "cl_query C c rid = Inr (Some r) \<Longrightarrow> r \<in># stored c \<and> dr_RequestID r = rid"
begin

lemma flush_rows:
  assumes "list_all fits (dt_buf s)"
  shows "stored (dt_conn (detail_flush C s)) + mset (dt_buf (detail_flush C s)) \<subseteq># stored (dt_conn s) + mset (dt_buf s)"
  and "dt_sched s = [] \<Longrightarrow>
    stored (dt_conn (detail_flush C s)) = stored (dt_conn s) + mset (dt_buf s)"
  using assms call_service_state [of "fst (pop_fault (snd (pop_fault (dt_sched s))))" "dt_conn s" "(cl_send C (dt_conn s) (dt_buf s), Inr ())"]
  by (auto simp: detail_flush_def Let_def send_stores split: prod.split)

end

text \<open>An instance: the rows of the table in a list.\<close>

definition list_conn :: "DetailRow list clickhouse_conn" where
  "list_conn = \<lparr>cl_send = (\<lambda>c rows. c @ rows), cl_query = (\<lambda>c rid. Inr (find (\<lambda>r. dr_RequestID r = rid) c))\<rparr>"

interpretation ch: clickhouse list_conn mset
proof unfold_locales
  show "\<exists>r'. cl_query list_conn c (dr_RequestID r) = Inr (Some r')" if "r \<in># mset c" for c r
    using that by (auto simp: list_conn_def find_None_iff simp flip: not_None_eq)
  show "r \<in># mset c \<and> dr_RequestID r = rid" if "cl_query list_conn c rid = Inr (Some r)" for c rid r
    using that by (auto simp: list_conn_def dest: find_SomeD)
qed (simp add: list_conn_def)
section \<open>Runs\<close>

text \<open>
  The steps of all goroutines that use the sink, in the order they take the mutex. An emit is
  an append and, when that filled the buffer, a flush that may come later.
\<close>

datatype detail_op = DAppend price_state int Event | DFlush | DTick int

fun detail_exec :: "'c clickhouse_conn \<Rightarrow> 'c DetailSink \<Rightarrow> detail_op \<Rightarrow> 'c DetailSink" where
  "detail_exec C s (DAppend ps now ev) = fst (detail_append ps now s ev)"
| "detail_exec C s DFlush = detail_flush C s"
| "detail_exec C s (DTick now) = detail_tick C now s"

definition emit_ops :: "price_state \<Rightarrow> int \<Rightarrow> 'c DetailSink \<Rightarrow> Event \<Rightarrow> detail_op list" where
  "emit_ops ps now s ev = DAppend ps now ev # (if snd (detail_append ps now s ev) then [DFlush] else [])"

lemma Detail_Emit_ops: "fst (Detail_Emit C ps now s ev) = foldl (detail_exec C) s (emit_ops ps now s ev)"
  by (simp add: Detail_Emit_def emit_ops_def split_beta)

fun op_rows :: "detail_op \<Rightarrow> DetailRow list" where
  "op_rows (DAppend ps now ev) = [detail_row ps now ev]"
| "op_rows _ = []"

lemma append_buf: "dt_buf (fst (detail_append ps now s ev)) = dt_buf s @ [detail_row ps now ev]"
  and append_rest: "dt_conn (fst (detail_append ps now s ev)) = dt_conn s" "dt_sched (fst (detail_append ps now s ev)) = dt_sched s"
  by (simp_all add: detail_append_def Let_def)

lemma flush_buf: "dt_buf (detail_flush C s) = []"
  and flush_no_faults: "dt_sched s = [] \<Longrightarrow> dt_sched (detail_flush C s) = []"
  by (simp_all add: detail_flush_def Let_def split: prod.split)

lemma tick_cases: "detail_tick C now s = s \<or> detail_tick C now s = detail_flush C s"
  by (simp add: detail_tick_def split: option.splits)

context clickhouse
begin

lemma exec_rows:
  assumes "list_all fits (dt_buf s)" and "list_all fits (op_rows op)"
  shows "list_all fits (dt_buf (detail_exec C s op)) \<and>
    stored (dt_conn (detail_exec C s op)) + mset (dt_buf (detail_exec C s op))
      \<subseteq># stored (dt_conn s) + mset (dt_buf s) + mset (op_rows op) \<and>
    (dt_sched s = [] \<longrightarrow> dt_sched (detail_exec C s op) = [] \<and>
       stored (dt_conn (detail_exec C s op)) + mset (dt_buf (detail_exec C s op))
         = stored (dt_conn s) + mset (dt_buf s) + mset (op_rows op))"
proof (cases op)
  case (DAppend ps now ev)
  with assms show ?thesis by (simp add: append_buf append_rest)
next
  case DFlush
  with flush_rows [OF assms(1)] show ?thesis by (simp add: flush_buf flush_no_faults)
next
  case (DTick now)
  then show ?thesis
    using flush_rows [OF assms(1)] assms(1) tick_cases [of C now s] by (elim disjE) (simp_all add: flush_buf flush_no_faults)
qed

lemma run_rows:
  assumes "list_all fits (dt_buf s)" and "list_all fits (concat (map op_rows ops))"
  shows "stored (dt_conn (foldl (detail_exec C) s ops)) + mset (dt_buf (foldl (detail_exec C) s ops))
      \<subseteq># stored (dt_conn s) + mset (dt_buf s) + mset (concat (map op_rows ops)) \<and>
    (dt_sched s = [] \<longrightarrow> dt_sched (foldl (detail_exec C) s ops) = [] \<and>
       stored (dt_conn (foldl (detail_exec C) s ops)) + mset (dt_buf (foldl (detail_exec C) s ops))
         = stored (dt_conn s) + mset (dt_buf s) + mset (concat (map op_rows ops))) \<and>
    list_all fits (dt_buf (foldl (detail_exec C) s ops))"
  using assms
proof (induction ops arbitrary: s)
  case (Cons op ops)
  have op: "list_all fits (op_rows op)" "list_all fits (concat (map op_rows ops))"
    using Cons.prems(2) by simp_all
  note step = exec_rows [OF Cons.prems(1) op(1)]
  note rest = Cons.IH [of "detail_exec C s op", OF _ op(2)]
  have sub: "A \<subseteq># B + D" if "A \<subseteq># X + D" "X \<subseteq># B" for A B D X :: "DetailRow multiset"
    using that by (meson subset_mset.add_right_mono subset_mset.order_trans)
  show ?case
    using step rest sub [of _ "stored (dt_conn (detail_exec C s op)) + mset (dt_buf (detail_exec C s op))"
        "mset (concat (map op_rows ops))" "stored (dt_conn s) + mset (dt_buf s) + mset (op_rows op)"]
    by (simp add: ac_simps)
qed simp

end

text \<open>Theorem: No detail row is lost or made up while ClickHouse answers. For every interleaving of
  emits, ticks and flushes, what is stored together with what is buffered is what was there
  plus one row for each emitted event; closing the sink stores all of it, and every emitted
  request can then be looked up. When calls fail rows can be lost, but none appears twice.\<close>

theorem detail_rows_are_conserved:
  assumes "clickhouse C stored" and "list_all fits (dt_buf s)" and "list_all fits (concat (map op_rows ops))"
    and "s' = foldl (detail_exec C) s ops" and "rows = mset (concat (map op_rows ops))"
  shows "stored (dt_conn s') + mset (dt_buf s') \<subseteq># stored (dt_conn s) + mset (dt_buf s) + rows \<and>
    (dt_sched s = [] \<longrightarrow>
      stored (dt_conn s') + mset (dt_buf s') = stored (dt_conn s) + mset (dt_buf s) + rows \<and>
      stored (dt_conn (Detail_Close C s')) = stored (dt_conn s) + mset (dt_buf s) + rows \<and>
      (\<forall>r. r \<in># rows \<longrightarrow> (\<exists>r'. Lookup C NoFault (Detail_Close C s') (dr_RequestID r) = Inr (Some r') \<and>
         r' \<in># stored (dt_conn s) + mset (dt_buf s) + rows \<and> dr_RequestID r' = dr_RequestID r)))"
proof -
  note run = clickhouse.run_rows [OF assms(1-3), folded assms(4,5)]
  note close = clickhouse.flush_rows [OF assms(1), of s']
  have all: "stored (dt_conn (Detail_Close C s')) = stored (dt_conn s) + mset (dt_buf s) + rows" if "dt_sched s = []"
    using run close(2) that by (simp add: Detail_Close_def)
  have "\<exists>r'. Lookup C NoFault (Detail_Close C s') (dr_RequestID r) = Inr (Some r') \<and>
      r' \<in># stored (dt_conn s) + mset (dt_buf s) + rows \<and> dr_RequestID r' = dr_RequestID r"
    if "dt_sched s = []" "r \<in># rows" for r
  proof -
    have "r \<in># stored (dt_conn (Detail_Close C s'))" using all [OF that(1)] that(2) by simp
    then obtain r' where r': "cl_query C (dt_conn (Detail_Close C s')) (dr_RequestID r) = Inr (Some r')"
      using clickhouse.query_finds [OF assms(1)] by blast
    with clickhouse.query_sound [OF assms(1) r'] all [OF that(1)] show ?thesis by (simp add: Lookup_def)
  qed
  with run all show ?thesis by blast
qed

theorem detail_rows_are_conserved_witness:
  "\<exists>r. Lookup list_conn NoFault
      (Detail_Close list_conn (fst (Detail_Emit list_conn init_prices 7 (NewDetailSink 10 [] []) (sample_event ''r1'' ''u'' StatusCompleted)))) ''r1''
    = Inr (Some r)"
proof -
  let ?s = "NewDetailSink 10 [] [] :: DetailRow list DetailSink" and ?ev = "sample_event ''r1'' ''u'' StatusCompleted"
  let ?ops = "emit_ops init_prices 7 ?s ?ev"
  have rows: "concat (map op_rows ?ops) = [detail_row init_prices 7 ?ev]" by (simp add: emit_ops_def)
  have fits: "fits (detail_row init_prices 7 ?ev)" by code_simp
  have rid: "dr_RequestID (detail_row init_prices 7 ?ev) = ''r1''" by (simp add: detail_row_def sample_event_def Let_def)
  have "dt_sched ?s = []" "dt_buf ?s = []" by (simp_all add: NewDetailSink_def)
  with detail_rows_are_conserved [OF ch.clickhouse_axioms, of ?s ?ops, unfolded rows, OF _ _ Detail_Emit_ops refl] fits
  have "\<forall>r. r \<in># mset [detail_row init_prices 7 ?ev] \<longrightarrow>
      (\<exists>r'. Lookup list_conn NoFault (Detail_Close list_conn (fst (Detail_Emit list_conn init_prices 7 ?s ?ev))) (dr_RequestID r) = Inr (Some r'))"
    by auto
  then show ?thesis by (simp add: rid)
qed

section \<open>Agreement with the orders\<close>

definition detail_matches :: "DetailRow \<Rightarrow> Order \<Rightarrow> bool" where
  "detail_matches r x \<longleftrightarrow>
     dr_RequestID r = o_RequestID x \<and> dr_UserID r = o_UserID x \<and> dr_Model r = o_Model x \<and>
     dr_Provider r = o_Provider x \<and> dr_PromptTokens r = o_PromptTokens x \<and>
     dr_CompletionTokens r = o_CompletionTokens x \<and> dr_TotalTokens r = o_TotalTokens x \<and>
     dr_AmountMicros r = o_AmountMicros x \<and> dr_DurationMs r = o_DurationMs x \<and> dr_TTFTMs r = o_TTFTMs x \<and>
     (dr_Status r = StatusFailed \<longleftrightarrow> o_Status x = StatusNoCharge)"

text \<open>C33: The detail tier and the order tier agree. For an event that carries its prices, the
  detail row and the order row have the same request, tokens and amount even when the price
  table changed between the two; without them they agree under the same table.\<close>

theorem detail_agrees_with_order:
  assumes "ev_Pricing ev \<noteq> None \<or> ps' = ps"
  shows "detail_matches (detail_row ps now ev) (orderFromEvent ps' ev)"
  using assms by (auto simp: detail_matches_def detail_row_def orderFromEvent_def priceFromEvent_def Let_def split: option.splits)

theorem detail_agrees_with_order_witness:
  "detail_matches (detail_row init_prices 7 (sample_event ''r1'' ''u'' StatusFailed))
     (orderFromEvent init_prices (sample_event ''r1'' ''u'' StatusFailed))"
  using detail_agrees_with_order [of "sample_event ''r1'' ''u'' StatusFailed" init_prices init_prices 7] by simp

end
