(* ===== verification/Admin.thy ===== *)
theory Admin
  imports Reconciliation Detail_Sink
begin

text \<open>
  \<open>internal/admin/admin.go\<close>: the operator's HTTP API over balances, summaries, refunds, the
  reconciliation of a day and the detail tier. A request carries what the handlers read of it;
  its JSON body is given as its two fields with the outcome of the decoder. \<open>pgdate\<close> is the
  conversion of a text to a date by PostgreSQL. Days are numbers since 1970-01-01, as in
  \<open>Order_Store\<close>; \<open>Format\<close> writes one with the layout \<open>2006-01-02\<close>.
\<close>

section \<open>Dates\<close>

definition days_in_year :: "nat \<Rightarrow> nat" where
  "days_in_year y = (if y mod 4 = 0 \<and> (y mod 100 \<noteq> 0 \<or> y mod 400 = 0) then 366 else 365)"

lemma days_in_year_pos [simp]: "0 < days_in_year y"
  by (simp add: days_in_year_def)

function split_year :: "nat \<Rightarrow> nat \<Rightarrow> nat \<times> nat" where
  "split_year y n = (if n < days_in_year y then (y, n) else split_year (Suc y) (n - days_in_year y))"
  by pat_completeness auto
termination
proof (relation "measure snd")
  fix y n :: nat
  assume "\<not> n < days_in_year y"
  then show "((Suc y, n - days_in_year y), y, n) \<in> measure snd"
    by (simp add: days_in_year_def not_less split: if_splits)
qed simp

declare split_year.simps [simp del]

function split_month :: "nat \<Rightarrow> nat \<Rightarrow> nat \<Rightarrow> nat \<times> nat" where
  "split_month y m n = (if 12 \<le> m \<or> n < daysIn m y then (m, n) else split_month y (Suc m) (n - daysIn m y))"
  by pat_completeness auto
termination
  by (relation "measure (\<lambda>(y, m, n). 12 - m)") auto

declare split_month.simps [simp del]

text \<open>Day 0 is 719528 days after 0000-01-01.\<close>

definition civil :: "int \<Rightarrow> nat \<times> nat \<times> nat" where
  "civil day =
     (let (y, n) = split_year 0 (nat (day + 719528)); (m, k) = split_month y 1 n in (y, m, Suc k))"

definition two_digits :: "nat \<Rightarrow> string" where
  "two_digits v = [char_of (48 + v div 10), char_of (48 + v mod 10)]"

definition Format :: "int \<Rightarrow> string" where
  "Format day =
     (case civil day of (y, m, d) \<Rightarrow> two_digits (y div 100) @ two_digits (y mod 100) @ ''-'' @ two_digits m @ ''-'' @ two_digits d)"

definition day_number :: "nat \<Rightarrow> nat \<Rightarrow> nat \<Rightarrow> int" where
  "day_number y m d = int ((\<Sum>j<y. days_in_year j) + (\<Sum>j\<in>{1..<m}. daysIn j y) + d) - 719529"

definition parse_day :: "string \<Rightarrow> int option" where
  "parse_day day =
     (case ValidateDay day of
        Inl e \<Rightarrow> None
      | Inr _ \<Rightarrow> Some (day_number (the (day_digits 0 (take 4 day))) (the (day_digits 0 (take 2 (drop 5 day)))) (the (day_digits 0 (drop 8 day)))))"

section \<open>The API\<close>

record admin_request =
  aq_Method :: string
  aq_Path :: string
  aq_Authorization :: string
  aq_Query :: "string \<Rightarrow> string"
  aq_err :: bool
  aq_Day :: string
  aq_AutoRefund :: bool

datatype admin_answer =
    AError string
  | AFailed go_error
  | ABalance string int
  | ASummary string string "string \<rightharpoonup> DaySummary"
  | ARefunds "Refund list"
  | ATrace string "DetailRow option option"
  | AReport Report
  | ANone

record ('r, 'c) admin_api =
  aa_pre :: "'r redis option"
  aa_recon :: bool
  aa_detail :: "('c clickhouse_conn \<times> 'c DetailSink) option"
  aa_adminKey :: string
  aa_pgdate :: "string \<Rightarrow> int option"

definition getBalance :: "('r, 'c) admin_api \<Rightarrow> 'r recon \<Rightarrow> admin_request \<Rightarrow> int \<times> admin_answer" where
  "getBalance api w r =
     (let user = aq_Query r ''user'' in
      if user = [] then (400, AError ''user is required'')
      else case aa_pre api of
             None \<Rightarrow> (503, AError ''redis not enabled'')
           | Some R \<Rightarrow>
               (case Balance R (fst (pop_fault (rc_sched w))) (rc_redis w) user of
                  Inl e \<Rightarrow> (500, AFailed e) | Inr bal \<Rightarrow> (200, ABalance user bal)))"

definition listOrders :: "('r, 'c) admin_api \<Rightarrow> 'r recon \<Rightarrow> admin_request \<Rightarrow> int \<times> admin_answer" where
  "listOrders api w r =
     (let user = aq_Query r ''user''; day = aq_Query r ''day'' in
      if user = [] \<or> day = [] then (400, AError ''user and day are required'')
      else case aa_pgdate api day of
             None \<Rightarrow> (500, AFailed ErrService)
           | Some d \<Rightarrow>
               (case Summary (fst (pop_fault (rc_sched w))) (rc_db w) d of
                  Inl e \<Rightarrow> (500, AFailed e) | Inr summary \<Rightarrow> (200, ASummary user day summary)))"

definition listRefunds :: "'r recon \<Rightarrow> admin_request \<Rightarrow> int \<times> admin_answer" where
  "listRefunds w r =
     (let limit = (case ParseInt (aq_Query r ''limit'') of Some v \<Rightarrow> v | None \<Rightarrow> 0) in
      case ListRefunds (fst (pop_fault (rc_sched w))) (rc_db w) limit of
        Inl e \<Rightarrow> (500, AFailed e) | Inr refunds \<Rightarrow> (200, ARefunds refunds))"

definition lookupRequest :: "('r, 'c) admin_api \<Rightarrow> 'r recon \<Rightarrow> admin_request \<Rightarrow> int \<times> admin_answer" where
  "lookupRequest api w r =
     (let rid = aq_Query r ''request_id'' in
      if rid = [] then (400, AError ''request_id is required'')
      else case aa_detail api of
             None \<Rightarrow> (200, ATrace rid None)
           | Some (C, sink) \<Rightarrow>
               (case Lookup C (fst (pop_fault (rc_sched w))) sink rid of
                  Inl e \<Rightarrow> (500, AFailed e) | Inr row \<Rightarrow> (200, ATrace rid (Some row))))"

text \<open>\<open>today\<close> is the number of the server's day, \<open>now\<close> the time rows are created at.\<close>

definition runReconcile ::
  "('r, 'c) admin_api \<Rightarrow> int \<Rightarrow> int \<Rightarrow> 'r recon \<Rightarrow> admin_request \<Rightarrow> 'r recon \<times> int \<times> admin_answer" where
  "runReconcile api today now w r =
     (if aq_err r then (w, 400, AError ''invalid body'')
      else
        case ValidateDay (if aq_Day r = [] then Format (today - 1) else aq_Day r) of
          Inl e \<Rightarrow> (w, 400, AFailed e)
        | Inr day \<Rightarrow>
            if \<not> aa_recon api then (w, 503, AError ''reconciler not wired'')
            else case aa_pgdate api day of
                   None \<Rightarrow> (w, 500, AFailed ErrService)
                 | Some d \<Rightarrow>
                     (case RunDay (aa_pre api) AutoThresholdMicros now w d (aq_AutoRefund r) of
                        (w', Inl e) \<Rightarrow> (w', 500, AFailed e) | (w', Inr rep) \<Rightarrow> (w', 200, AReport rep)))"

definition admin_mux ::
  "('r, 'c) admin_api \<Rightarrow> int \<Rightarrow> int \<Rightarrow> 'r recon \<Rightarrow> admin_request \<Rightarrow> 'r recon \<times> int \<times> admin_answer" where
  "admin_mux api today now w r =
     (let get = aq_Method r = ''GET'' \<or> aq_Method r = ''HEAD''; post = aq_Method r = ''POST''; path = aq_Path r in
      if get \<and> path = ''/admin/balance'' then (w, getBalance api w r)
      else if get \<and> path = ''/admin/orders'' then (w, listOrders api w r)
      else if get \<and> path = ''/admin/refunds'' then (w, listRefunds w r)
      else if post \<and> path = ''/admin/reconcile'' then runReconcile api today now w r
      else if get \<and> path = ''/admin/billing/request'' then (w, lookupRequest api w r)
      else (w, 404, ANone))"

definition admin_auth ::
  "('r, 'c) admin_api \<Rightarrow> ('r recon \<Rightarrow> 'r recon \<times> int \<times> admin_answer) \<Rightarrow> 'r recon \<Rightarrow> admin_request \<Rightarrow> 'r recon \<times> int \<times> admin_answer" where
  "admin_auth api next w r =
     (if aa_adminKey api = [] \<or> aq_Authorization r \<noteq> ''Bearer '' @ aa_adminKey api then (w, 401, AError ''unauthorized'')
      else next w)"

definition Admin_Handler ::
  "('r, 'c) admin_api \<Rightarrow> int \<Rightarrow> int \<Rightarrow> 'r recon \<Rightarrow> admin_request \<Rightarrow> 'r recon \<times> int \<times> admin_answer" where
  "Admin_Handler api today now w r = admin_auth api (\<lambda>w. admin_mux api today now w r) w r"

section \<open>Dates are written and read back\<close>

lemma split_year_days:
  "split_year y n = (z, k) \<Longrightarrow> (\<Sum>j<y. days_in_year j) + n = (\<Sum>j<z. days_in_year j) + k \<and> k < days_in_year z \<and> y \<le> z"
proof (induction y n arbitrary: z k rule: split_year.induct)
  case (1 y n)
  show ?case
  proof (cases "n < days_in_year y")
    case True
    then show ?thesis using "1.prems" by (simp add: split_year.simps)
  next
    case False
    with "1.prems" have "split_year (Suc y) (n - days_in_year y) = (z, k)" by (subst (asm) split_year.simps) simp
    from "1.IH" [OF False this] False show ?thesis by simp
  qed
qed

lemma year_of_months: "(\<Sum>j\<in>{1..<13}. daysIn j y) = days_in_year y"
proof -
  have months: "{1..<13 :: nat} = {1, 2, 3, 4, 5, 6, 7, 8, 9, 10, 11, 12}"
    by (rule set_eqI) (simp, presburger)
  show ?thesis unfolding months by (simp add: daysIn_def days_in_year_def)
qed

lemma split_month_days:
  assumes "split_month y m n = (p, k)" and "1 \<le> m" and "m \<le> 12" and "n < (\<Sum>j\<in>{m..<13}. daysIn j y)"
  shows "(\<Sum>j\<in>{m..<p}. daysIn j y) + k = n \<and> k < daysIn p y \<and> m \<le> p \<and> p \<le> 12"
  using assms
proof (induction y m n arbitrary: p k rule: split_month.induct)
  case (1 y m n)
  show ?case
  proof (cases "12 \<le> m \<or> n < daysIn m y")
    case True
    then have "p = m" "k = n" using "1.prems"(1) by (simp_all add: split_month.simps)
    moreover have "n < daysIn m y" if "12 \<le> m"
    proof -
      have "m = 12" "{12..<13 :: nat} = {12}" using that "1.prems"(3) by auto
      then show ?thesis using "1.prems"(4) by simp
    qed
    ultimately show ?thesis using True "1.prems"(3) by auto
  next
    case False
    have run: "split_month y (Suc m) (n - daysIn m y) = (p, k)"
      using "1.prems"(1) False by (subst (asm) split_month.simps) simp
    have "(\<Sum>j\<in>{m..<13}. daysIn j y) = daysIn m y + (\<Sum>j\<in>{Suc m..<13}. daysIn j y)"
      using False by (intro sum.atLeast_Suc_lessThan) simp
    with "1.prems"(4) False have "n - daysIn m y < (\<Sum>j\<in>{Suc m..<13}. daysIn j y)" by linarith
    from "1.IH" [OF False run _ _ this] False
    have rec: "(\<Sum>j\<in>{Suc m..<p}. daysIn j y) + k = n - daysIn m y" "k < daysIn p y" "Suc m \<le> p" "p \<le> 12" by simp_all
    have "(\<Sum>j\<in>{m..<p}. daysIn j y) = daysIn m y + (\<Sum>j\<in>{Suc m..<p}. daysIn j y)"
      using rec(3) by (intro sum.atLeast_Suc_lessThan) simp
    with rec False show ?thesis by simp
  qed
qed

lemma civil_day_number:
  assumes "- 719528 \<le> day" and "civil day = (y, m, d)"
  shows "day_number y m d = day \<and> 1 \<le> m \<and> m \<le> 12 \<and> 1 \<le> d \<and> d \<le> daysIn m y"
proof -
  obtain n where n: "split_year 0 (nat (day + 719528)) = (y, n)" and m: "split_month y 1 n = (m, d - 1)" and d: "1 \<le> d"
    using assms(2) by (auto simp: civil_def Let_def split: prod.splits)
  have y: "nat (day + 719528) = (\<Sum>j<y. days_in_year j) + n" "n < days_in_year y" using split_year_days [OF n] by simp_all
  have "n < (\<Sum>j\<in>{1..<13}. daysIn j y)" using y(2) by (simp only: year_of_months)
  from split_month_days [OF m _ _ this] have "(\<Sum>j\<in>{1..<m}. daysIn j y) + (d - 1) = n" "d - 1 < daysIn m y" "1 \<le> m" "m \<le> 12" by simp_all
  moreover from this(1) y(1) d have "int ((\<Sum>j<y. days_in_year j) + (\<Sum>j\<in>{1..<m}. daysIn j y) + d) = day + 719529"
    using assms(1) by linarith
  ultimately show ?thesis using d by (simp add: day_number_def)
qed
lemma digit_of: "v < 10 \<Longrightarrow> day_digit (char_of (48 + v)) = Some v"
  by (simp add: day_digit_def Let_def)

lemma two_digits_value: "v < 100 \<Longrightarrow> day_digits acc (two_digits v @ s) = day_digits (acc * 100 + v) s"
proof -
  assume "v < 100"
  then have "day_digit (char_of (48 + v div 10)) = Some (v div 10)" "day_digit (char_of (48 + v mod 10)) = Some (v mod 10)"
    by (intro digit_of; simp)+
  then have "day_digits acc (two_digits v @ s) = day_digits ((acc * 10 + v div 10) * 10 + v mod 10) s"
    by (simp add: two_digits_def)
  also have "(acc * 10 + v div 10) * 10 + v mod 10 = acc * 100 + v" by simp
  finally show ?thesis .
qed

lemma two_digits_length [simp]: "length (two_digits v) = 2"
  by (simp add: two_digits_def)

lemma read_date:
  assumes "y < 10000" and "m < 100" and "d < 100"
  defines "s \<equiv> two_digits (y div 100) @ two_digits (y mod 100) @ ''-'' @ two_digits m @ ''-'' @ two_digits d"
  shows "length s = 10" "s ! 4 = CHR ''-''" "s ! 7 = CHR ''-''"
    "day_digits 0 (take 4 s) = Some y" "day_digits 0 (take 2 (drop 5 s)) = Some m" "day_digits 0 (drop 8 s) = Some d"
proof -
  have two: "\<exists>a b. two_digits v = [a, b]" for v by (simp add: two_digits_def)
  obtain a b where ab: "two_digits (y div 100) = [a, b]" using two by blast
  obtain c e where ce: "two_digits (y mod 100) = [c, e]" using two by blast
  obtain f g where fg: "two_digits m = [f, g]" using two by blast
  obtain h i where hi: "two_digits d = [h, i]" using two by blast
  show "length s = 10" "s ! 4 = CHR ''-''" "s ! 7 = CHR ''-''" by (simp_all add: s_def ab ce fg hi)
  have "take 4 s = two_digits (y div 100) @ two_digits (y mod 100) @ []" "take 2 (drop 5 s) = two_digits m @ []" "drop 8 s = two_digits d @ []"
    by (simp_all add: s_def ab ce fg hi)
  with assms(1-3) show "day_digits 0 (take 4 s) = Some y" "day_digits 0 (take 2 (drop 5 s)) = Some m" "day_digits 0 (drop 8 s) = Some d"
    by (simp_all only: two_digits_value day_digits.simps) (simp_all add: two_digits_value)
qed

lemma years_closed_form: "(\<Sum>j<y. days_in_year j) + (y + 99) div 100 = 365 * y + (y + 3) div 4 + (y + 399) div 400"
proof (induction y)
  case (Suc y)
  have next_div: "(Suc y + (k - 1)) div k = (y + (k - 1)) div k + (if y mod k = 0 then 1 else 0)" if "0 < k" for k
  proof -
    have "Suc (y + (k - 1)) mod k = y mod k" using that by (simp add: Suc_diff_1 flip: add_Suc_right)
    then show ?thesis by (simp add: div_Suc)
  qed
  have "y mod 100 = 0" if "y mod 400 = 0" using that mod_mod_cancel [of 100 400 y] by simp
  moreover have "y mod 4 = 0" if "y mod 100 = 0" using that mod_mod_cancel [of 4 100 y] by simp
  ultimately show ?case
    using Suc next_div [of 4] next_div [of 100] next_div [of 400] by (auto simp: days_in_year_def)
qed simp

text \<open>The year 9999 ends with day 2932896.\<close>

lemma year_bound:
  assumes "split_year 0 n = (y, k)" and "n < 3652425"
  shows "y < 10000"
proof (rule ccontr)
  assume "\<not> y < 10000"
  then have "(\<Sum>j<10000. days_in_year j) \<le> (\<Sum>j<y. days_in_year j)" by (intro sum_mono2) auto
  moreover have "(\<Sum>j<10000. days_in_year j) = 3652425" using years_closed_form [of 10000] by simp
  ultimately show False using split_year_days [OF assms(1)] assms(2) by simp
qed

text \<open>Theorem: Dates are written and read back. Every day from year 0 to year 9999 is written as a date that the
  day validation accepts unchanged and that denotes the same day.\<close>

lemma format_day_parses:
  assumes "- 719528 \<le> day" and "day < 2932897"
  shows "ValidateDay (Format day) = Inr (Format day) \<and> parse_day (Format day) = Some day"
proof -
  obtain y m d where c: "civil day = (y, m, d)" by (metis prod.exhaust)
  note date = civil_day_number [OF assms(1) c]
  obtain k where k: "split_year 0 (nat (day + 719528)) = (y, k)" using c by (auto simp: civil_def Let_def split: prod.splits)
  have "y < 10000" by (rule year_bound [OF k]) (use assms in simp)
  moreover have "m < 100" "d < 100" using date by (auto simp: daysIn_def split: if_splits)
  ultimately show ?thesis
    using read_date [of y m d] date by (simp add: Format_def c ValidateDay_def parse_day_def)
qed

section \<open>Operators\<close>

text \<open>What an operator's request leaves as it was.\<close>

definition untouched :: "'r recon \<Rightarrow> 'r recon \<Rightarrow> bool" where
  "untouched w w' \<longleftrightarrow> rc_db w' = rc_db w \<and> rc_redis w' = rc_redis w"

lemma RunDay_reads: "untouched w (fst (RunDay pre thr now w day False))"
  using run_layers_same [of pre w day] by (auto simp: RunDay_def untouched_def split: prod.split sum.split)

lemma runReconcile_reads: "\<not> aq_AutoRefund r \<Longrightarrow> untouched w (fst (runReconcile api today now w r))"
  using RunDay_reads [of w "aa_pre api" AutoThresholdMicros now]
  by (auto simp: runReconcile_def untouched_def split: sum.split option.split prod.split) (metis fst_conv)+

text \<open>Theorem: The operator's API answers only to its key, and only a refunding reconciliation writes. Without the key,
  or when none is configured, the answer is 401 and nothing changes; with it, every request but a reconciliation
  that asks for refunds leaves the order database and Redis as they were.\<close>

theorem admin_api_is_guarded:
  assumes "Admin_Handler api today now w r = (w', code, a)"
  shows "(if aa_adminKey api \<noteq> [] \<and> aq_Authorization r = ''Bearer '' @ aa_adminKey api
      then untouched w w' \<or> aq_Method r = ''POST'' \<and> aq_Path r = ''/admin/reconcile'' \<and> aq_AutoRefund r
      else w' = w \<and> code = 401 \<and> a = AError ''unauthorized'')"
proof -
  have "untouched w (fst (runReconcile api today now w r))" if "\<not> aq_AutoRefund r" using that by (rule runReconcile_reads)
  then show ?thesis
    using assms by (auto simp: Admin_Handler_def admin_auth_def admin_mux_def Let_def untouched_def split: if_splits)
qed

text \<open>What is relied on of PostgreSQL: it reads an ISO date as that day.\<close>

definition iso_dates :: "(string \<Rightarrow> int option) \<Rightarrow> bool" where
  "iso_dates pgdate \<longleftrightarrow> (\<forall>s. parse_day s \<noteq> None \<longrightarrow> pgdate s = parse_day s)"

text \<open>Theorem: A reconciliation without a day is that of yesterday: with the operator's key, a request whose body
  names no day runs the day close for the day before the server's day, with the automatic refunds it asks for.\<close>

theorem reconcile_defaults_to_yesterday:
  assumes "iso_dates (aa_pgdate api)" and "- 719527 \<le> today" and "today < 2932898"
    and "aa_adminKey api \<noteq> []" and "aq_Authorization r = ''Bearer '' @ aa_adminKey api" and "aa_recon api"
    and "aq_Method r = ''POST''" and "aq_Path r = ''/admin/reconcile''" and "\<not> aq_err r" and "aq_Day r = []"
    and "RunDay (aa_pre api) AutoThresholdMicros now w (today - 1) (aq_AutoRefund r) = (w', Inr rep)"
  shows "Admin_Handler api today now w r = (w', 200, AReport rep)"
proof -
  have day: "ValidateDay (Format (today - 1)) = Inr (Format (today - 1))" "parse_day (Format (today - 1)) = Some (today - 1)"
    using format_day_parses [of "today - 1"] assms(2,3) by simp_all
  then have "aa_pgdate api (Format (today - 1)) = Some (today - 1)" using assms(1) by (simp add: iso_dates_def)
  with day assms(4-) show ?thesis by (simp add: Admin_Handler_def admin_auth_def admin_mux_def runReconcile_def)
qed

text \<open>Theorem: The summary of a user's orders is the summary of everybody's orders: the handler asks for a user and
  shows its name, and the numbers do not depend on it.\<close>

theorem list_orders_ignores_user:
  assumes "listOrders api w (r\<lparr>aq_Query := (aq_Query r)(''user'' := u)\<rparr>) = (200, ASummary x day m)" and "v \<noteq> []"
  shows "listOrders api w (r\<lparr>aq_Query := (aq_Query r)(''user'' := v)\<rparr>) = (200, ASummary v day m)"
  using assms by (auto simp: listOrders_def Let_def split: if_splits option.splits sum.splits)

section \<open>A concrete API\<close>

definition demo_admin :: "((string \<times> int) list, DetailRow list) admin_api" where
  "demo_admin = \<lparr>aa_pre = None, aa_recon = True, aa_detail = None, aa_adminKey = ''adm'', aa_pgdate = parse_day\<rparr>"

definition demo_recon :: "(string \<times> int) list recon" where
  "demo_recon = \<lparr>rc_db = empty_pg, rc_redis = [], rc_rep = day_report 0 (\<lambda>_. None), rc_sched = []\<rparr>"

definition demo_admin_request :: admin_request where
  "demo_admin_request = \<lparr>aq_Method = ''POST'', aq_Path = ''/admin/reconcile'', aq_Authorization = ''Bearer adm'',
     aq_Query = (\<lambda>_. []), aq_err = False, aq_Day = [], aq_AutoRefund = False\<rparr>"

theorem admin_api_is_guarded_witness:
  "\<exists>w' code a. Admin_Handler demo_admin 20652 0 demo_recon demo_admin_request = (w', code, a) \<and> untouched demo_recon w'"
proof -
  obtain w' code a where "Admin_Handler demo_admin 20652 0 demo_recon demo_admin_request = (w', code, a)" by (metis prod.exhaust)
  with admin_api_is_guarded [OF this] show ?thesis by (auto simp: demo_admin_def demo_admin_request_def)
qed

theorem reconcile_defaults_to_yesterday_witness:
  "\<exists>w' rep. Admin_Handler demo_admin 20652 0 demo_recon demo_admin_request = (w', 200, AReport rep) \<and> rp_Day rep = 20651"
proof -
  have "\<exists>w' rep. RunDay None AutoThresholdMicros 0 demo_recon 20651 False = (w', Inr rep) \<and> rp_Day rep = 20651"
    by (simp add: RunDay_def run_layers_def pop_def demo_recon_def Summary_def Anomalies_def query_def frozen_check_def day_report_def
        day_orders_def empty_pg_def group_keys_def Let_def)
  then obtain w' rep where run: "RunDay None AutoThresholdMicros 0 demo_recon 20651 False = (w', Inr rep)" "rp_Day rep = 20651" by blast
  with reconcile_defaults_to_yesterday [of demo_admin 20652 demo_admin_request 0 demo_recon w' rep] show ?thesis
    by (simp add: demo_admin_def demo_admin_request_def iso_dates_def)
qed

end
