(* ===== verification/Reconcile_Cmd.thy ===== *)
theory Reconcile_Cmd
  imports Admin
begin

text \<open>
  The command \<open>cmd/reconcile/main.go\<close>: its arguments, which services it reaches, the day close of
  \<open>Reconciliation\<close> and the exit code a scheduler reads. Parsing of the flags and the printed report are
  not modelled; \<open>ra_day\<close> is \<open>None\<close> when the flag is absent.
\<close>

record reconcile_args =
  ra_pgDSN :: string
  ra_redisAddr :: string
  ra_day :: "string option"
  ra_autoRefund :: bool

text \<open>What the command finds: whether the database and Redis can be reached, and how the database reads a day.\<close>

record 'r reconcile_env =
  re_pg :: bool
  re_ping :: bool
  re_redis :: "'r redis"
  re_pgdate :: "string \<Rightarrow> int option"

definition sweep_redis :: "'r reconcile_env \<Rightarrow> reconcile_args \<Rightarrow> 'r redis option" where
  "sweep_redis env a = (if ra_redisAddr a \<noteq> [] \<and> re_ping env then Some (re_redis env) else None)"

definition reconcile_day :: "int \<Rightarrow> reconcile_args \<Rightarrow> string" where
  "reconcile_day today a = (case ra_day a of None \<Rightarrow> Format (today - 1) | Some day \<Rightarrow> day)"

definition reconcile_main :: "'r reconcile_env \<Rightarrow> int \<Rightarrow> int \<Rightarrow> 'r recon \<Rightarrow> reconcile_args \<Rightarrow> 'r recon \<times> int" where
  "reconcile_main env today now w a =
     (if ra_pgDSN a = [] then (w, 2)
      else if \<not> re_pg env then (w, 2)
      else case re_pgdate env (reconcile_day today a) of
             None \<Rightarrow> (w, 2)
           | Some d \<Rightarrow>
               (case RunDay (sweep_redis env a) AutoThresholdMicros now w d (ra_autoRefund a) of
                  (w', r) \<Rightarrow> (w', reconcile_exit (ra_autoRefund a) r)))"

section \<open>What the report of a day says\<close>

lemma run_layers_report:
  assumes "run_layers pre w day = (w1, Inr u)"
  shows "rp_Anomalies (rc_rep w1) = int (min 100 (length (filter is_anomaly (day_orders (rc_db w) day)))) \<and>
    (case pre of None \<Rightarrow> rp_FrozenLeaked (rc_rep w1) = 0
     | Some R \<Rightarrow> \<exists>fs. fst (FrozenBalance R fs (rc_redis w)) = Inr (rp_FrozenLeaked (rc_rep w1))) \<and>
    rc_db w1 = rc_db w \<and> rc_redis w1 = rc_redis w"
proof -
  obtain f1 v1 where p1: "pop w = (f1, v1)" "rc_db v1 = rc_db w" "rc_redis v1 = rc_redis w" by (rule popE [of w])
  from assms p1 obtain m where m: "Summary f1 (rc_db w) day = Inr m" by (auto simp: run_layers_def split: sum.splits)
  let ?v = "v1\<lparr>rc_rep := day_report day m\<rparr>"
  obtain f2 v2 where q: "pop ?v = (f2, v2)" "rc_db v2 = rc_db ?v" "rc_redis v2 = rc_redis ?v" "rc_rep v2 = rc_rep ?v" by (rule popE [of ?v])
  then have p2: "pop ?v = (f2, v2)" "rc_db v2 = rc_db w" "rc_redis v2 = rc_redis w" "rc_rep v2 = day_report day m" using p1 by simp_all
  from assms p1 m p2 obtain an where an: "Anomalies f2 (rc_db w) day = Inr an"
    by (auto simp: run_layers_def split: sum.splits)
  let ?x = "v2\<lparr>rc_rep := (rc_rep v2)\<lparr>rp_Anomalies := int (length an)\<rparr>\<rparr>"
  have fc: "frozen_check pre ?x = (w1, Inr u)" using assms p1 m p2 an by (simp add: run_layers_def)
  have len: "length an = min 100 (length (filter is_anomaly (day_orders (rc_db w) day)))"
    using an by (cases f2) (auto simp: Anomalies_def query_def)
  show ?thesis
  proof (cases pre)
    case None
    with fc p2 len show ?thesis by (auto simp: frozen_check_def day_report_def Let_def)
  next
    case (Some R)
    with fc p2 len show ?thesis by (auto simp: frozen_check_def split: prod.splits sum.splits) (metis fst_conv)
  qed
qed

lemma execute_refund_keeps:
  "rp_Anomalies (rc_rep (execute_refund R w x i)) = rp_Anomalies (rc_rep w) \<and>
   rp_FrozenLeaked (rc_rep (execute_refund R w x i)) = rp_FrozenLeaked (rc_rep w)"
  by (simp add: execute_refund_def pop_def Let_def split: prod.split sum.split)

lemma auto_refund_one_keeps:
  "rp_Anomalies (rc_rep (fst (auto_refund_one pre thr now w x))) = rp_Anomalies (rc_rep w) \<and>
   rp_FrozenLeaked (rc_rep (fst (auto_refund_one pre thr now w x))) = rp_FrozenLeaked (rc_rep w)"
  by (simp add: auto_refund_one_def pop_def Let_def execute_refund_keeps split: prod.split sum.split)

lemma auto_refund_loop_keeps:
  "rp_Anomalies (rc_rep (fst (auto_refund_loop pre thr now w xs))) = rp_Anomalies (rc_rep w) \<and>
   rp_FrozenLeaked (rc_rep (fst (auto_refund_loop pre thr now w xs))) = rp_FrozenLeaked (rc_rep w)"
proof (induction xs arbitrary: w)
  case (Cons x xs)
  show ?case using auto_refund_one_keeps [of pre thr now w x] Cons by (auto split: prod.split sum.split)
qed simp

lemma RunDay_keeps_layers:
  assumes "RunDay pre thr now w d auto = (w', r)" and "run_layers pre w d = (w1, Inr u)" and "r = Inr rep"
  shows "rp_Anomalies rep = rp_Anomalies (rc_rep w1) \<and> rp_FrozenLeaked rep = rp_FrozenLeaked (rc_rep w1)"
proof -
  obtain f v where p: "pop w1 = (f, v)" "rc_db v = rc_db w1" "rc_redis v = rc_redis w1" "rc_rep v = rc_rep w1" by (rule popE [of w1])
  have "rp_Anomalies (rc_rep (fst (autoRefundNegativeAmounts pre thr now w1 d))) = rp_Anomalies (rc_rep w1) \<and>
      rp_FrozenLeaked (rc_rep (fst (autoRefundNegativeAmounts pre thr now w1 d))) = rp_FrozenLeaked (rc_rep w1)"
    using p auto_refund_loop_keeps [of pre thr now v] by (simp add: autoRefundNegativeAmounts_def split: sum.split)
  with assms show ?thesis by (auto simp: RunDay_def split: if_splits prod.splits sum.splits)
qed

lemma RunDay_without_negatives:
  assumes "filter (\<lambda>x. o_AmountMicros x < 0) (day_orders (rc_db w1) d) = []"
    and "RunDay pre thr now w d auto = (w', r)" and "run_layers pre w d = (w1, Inr u)" and "r = Inr rep"
  shows "rc_db w' = rc_db w1 \<and> rc_redis w' = rc_redis w1"
proof -
  obtain f v where p: "pop w1 = (f, v)" "rc_db v = rc_db w1" "rc_redis v = rc_redis w1" "rc_rep v = rc_rep w1" by (rule popE [of w1])
  have "NegativeAmountOrders f (rc_db w1) d \<in> {Inr [], Inl ErrService}"
    using assms(1) by (cases f) (simp_all add: NegativeAmountOrders_def query_def)
  then have "fst (autoRefundNegativeAmounts pre thr now w1 d) = v" using p by (auto simp: autoRefundNegativeAmounts_def)
  with assms(2-4) p show ?thesis by (auto simp: RunDay_def split: if_splits prod.splits sum.splits)
qed

text \<open>C16: A clean exit vouches for the day. When the command exits with 0, it has reached the database, no order of the day
  is anomalous, nothing is frozen as far as Redis was given and reached, and neither the database nor Redis was changed,
  even with automatic refunds asked for, so no difference was found and silently repaired.\<close>

theorem clean_exit_vouches_for_the_day:
  assumes "reconcile_main env today now w a = (w', 0)"
  shows "re_pg env \<and> (\<exists>d. re_pgdate env (reconcile_day today a) = Some d \<and> (\<forall>x\<in>set (day_orders (rc_db w) d). \<not> is_anomaly x)) \<and>
    (case sweep_redis env a of None \<Rightarrow> True | Some R \<Rightarrow> \<exists>fs v. fst (FrozenBalance R fs (rc_redis w)) = Inr v \<and> v \<le> 0) \<and>
    untouched w w'"
proof -
  let ?pre = "sweep_redis env a" and ?auto = "ra_autoRefund a"
  from assms obtain d r where d: "re_pg env" "re_pgdate env (reconcile_day today a) = Some d"
    and run: "RunDay ?pre AutoThresholdMicros now w d ?auto = (w', r)" and zero: "reconcile_exit ?auto r = 0"
    by (auto simp: reconcile_main_def split: if_splits option.splits prod.splits)
  from zero obtain rep where rep: "r = Inr rep" "rp_Anomalies rep \<le> 0" "rp_FrozenLeaked rep \<le> 0"
    by (auto simp: reconcile_exit_def split: sum.splits if_splits)
  from run rep obtain w1 u where l: "run_layers ?pre w d = (w1, Inr u)" by (auto simp: RunDay_def split: prod.splits sum.splits)
  note lay = run_layers_report [OF l]
  have kept: "rp_Anomalies rep = rp_Anomalies (rc_rep w1) \<and> rp_FrozenLeaked rep = rp_FrozenLeaked (rc_rep w1)"
    using run l rep(1) by (rule RunDay_keeps_layers)
  have clean: "filter is_anomaly (day_orders (rc_db w) d) = []" using lay kept rep(2) by (simp add: min_def split: if_splits)
  then have fine: "\<forall>x\<in>set (day_orders (rc_db w) d). \<not> is_anomaly x" by (simp add: filter_empty_conv)
  then have "filter (\<lambda>x. o_AmountMicros x < 0) (day_orders (rc_db w1) d) = []" using lay by (auto simp: filter_empty_conv is_anomaly_def)
  then have "rc_db w' = rc_db w1 \<and> rc_redis w' = rc_redis w1" using run l rep(1) by (rule RunDay_without_negatives)
  with d fine lay kept rep(3) show ?thesis by (auto simp: untouched_def split: option.splits)
qed

definition demo_reconcile :: "(string \<times> int) list reconcile_env" where
  "demo_reconcile = \<lparr>re_pg = True, re_ping = False, re_redis = mem_redis, re_pgdate = parse_day\<rparr>"

definition demo_args :: reconcile_args where
  "demo_args = \<lparr>ra_pgDSN = ''pg'', ra_redisAddr = ''redis'', ra_day = None, ra_autoRefund = True\<rparr>"

text \<open>Theorem: An unreachable Redis makes the command report that nothing is frozen. The exit code does not depend on
  what is frozen when the ping fails, although an address was given.\<close>

theorem unreachable_redis_is_clean:
  assumes "\<not> re_ping env" and "ra_pgDSN a \<noteq> []" and "re_pg env" and "re_pgdate env (reconcile_day today a) = Some d"
    and "\<forall>x\<in>set (day_orders (rc_db w) d). \<not> is_anomaly x" and "rc_sched w = []" and "Summary NoFault (rc_db w) d = Inr m"
  shows "snd (reconcile_main env today now w a) = 0"
proof -
  have neg: "filter (\<lambda>x. o_AmountMicros x < 0) (day_orders (rc_db w) d) = []" using assms(5) by (auto simp: filter_empty_conv is_anomaly_def)
  have an: "filter is_anomaly (day_orders (rc_db w) d) = []" using assms(5) by (simp add: filter_empty_conv)
  have "sweep_redis env a = None" using assms(1) by (simp add: sweep_redis_def)
  then show ?thesis
    using assms(2-4,6,7) neg an
    by (simp add: reconcile_main_def RunDay_def run_layers_def pop_def Anomalies_def query_def frozen_check_def Let_def
        autoRefundNegativeAmounts_def NegativeAmountOrders_def reconcile_exit_def day_report_def)
qed

lemma demo_day: "re_pgdate demo_reconcile (reconcile_day 20652 demo_args) = Some 20651"
  using format_day_parses [of 20651] by (simp add: demo_reconcile_def demo_args_def reconcile_day_def)

lemma demo_exit: "snd (reconcile_main demo_reconcile 20652 0 (demo_recon\<lparr>rc_redis := [(frozenKey ''u'', 200)]\<rparr>) demo_args) = 0"
  using demo_day
  by (simp add: reconcile_main_def demo_reconcile_def demo_args_def sweep_redis_def RunDay_def run_layers_def pop_def demo_recon_def Summary_def
      Anomalies_def query_def frozen_check_def day_report_def day_orders_def empty_pg_def group_keys_def Let_def autoRefundNegativeAmounts_def
      NegativeAmountOrders_def reconcile_exit_def)

theorem unreachable_redis_is_clean_witness:
  "snd (reconcile_main demo_reconcile 20652 0 (demo_recon\<lparr>rc_redis := [(frozenKey ''u'', 200)]\<rparr>) demo_args) = 0"
  by (rule unreachable_redis_is_clean [OF _ _ _ demo_day])
    (simp_all add: demo_reconcile_def demo_args_def demo_recon_def day_orders_def empty_pg_def Summary_def query_def group_keys_def)

theorem clean_exit_vouches_for_the_day_witness:
  "\<exists>w'. reconcile_main demo_reconcile 20652 0 (demo_recon\<lparr>rc_redis := [(frozenKey ''u'', 200)]\<rparr>) demo_args = (w', 0) \<and>
     untouched (demo_recon\<lparr>rc_redis := [(frozenKey ''u'', 200)]\<rparr>) w'"
proof -
  let ?w = "demo_recon\<lparr>rc_redis := [(frozenKey ''u'', 200)]\<rparr>"
  obtain w' where "reconcile_main demo_reconcile 20652 0 ?w demo_args = (w', 0)" using demo_exit by (metis prod.collapse)
  with clean_exit_vouches_for_the_day [OF this] show ?thesis by blast
qed

end
