(* ===== verification/Metrics.thy ===== *)
theory Metrics
  imports Gauges Reconcile_Cmd
begin

text \<open>
  The Prometheus metrics: \<open>internal/obs/metrics.go\<close> with the statements that update them in the gateway, the
  precharger, the sink, the limiter and the reconciler. The client library is a parameter, with its documented contract
  as the locale \<open>prometheus\<close>: updating a metric with the wrong number of label values or with a value that is not UTF-8
  and adding a negative number to a counter panic, here \<open>None\<close>; histograms count their observations.
\<close>

section \<open>The metrics\<close>

datatype metric =
  HTTPRequestsTotal | HTTPRequestDuration | PrechargeTotal | PrechargeDuration | OrdersSettledTotal | SettleBatchSize |
  SettleDuration | RefundIssuedTotal | SinkDroppedTotal | KafkaWriteErrors | KafkaConsumerLag | FrozenBalanceMicros |
  ReconDiffTotal | ReconWithinTolerance | RateLimitedTotal | QuotaUsageRatio | ChannelHealthGauge | ChannelBreakerGauge

datatype metric_kind = Counter | Gauge | Histogram

record metric_desc =
  md_kind :: metric_kind
  md_name :: string
  md_labels :: "string list"

definition metric_desc_of :: "metric \<Rightarrow> metric_desc" where
  "metric_desc_of m =
     (case m of
        HTTPRequestsTotal \<Rightarrow> \<lparr>md_kind = Counter, md_name = ''metergate_http_requests_total'', md_labels = [''path'', ''method'', ''code'']\<rparr>
      | HTTPRequestDuration \<Rightarrow> \<lparr>md_kind = Histogram, md_name = ''metergate_http_request_duration_seconds'', md_labels = [''path'']\<rparr>
      | PrechargeTotal \<Rightarrow> \<lparr>md_kind = Counter, md_name = ''metergate_precharge_total'', md_labels = [''result'']\<rparr>
      | PrechargeDuration \<Rightarrow> \<lparr>md_kind = Histogram, md_name = ''metergate_precharge_duration_seconds'', md_labels = []\<rparr>
      | OrdersSettledTotal \<Rightarrow> \<lparr>md_kind = Counter, md_name = ''metergate_orders_settled_total'', md_labels = [''status'']\<rparr>
      | SettleBatchSize \<Rightarrow> \<lparr>md_kind = Histogram, md_name = ''metergate_settle_batch_size'', md_labels = []\<rparr>
      | SettleDuration \<Rightarrow> \<lparr>md_kind = Histogram, md_name = ''metergate_settle_duration_seconds'', md_labels = []\<rparr>
      | RefundIssuedTotal \<Rightarrow> \<lparr>md_kind = Counter, md_name = ''metergate_refunds_total'', md_labels = [''level'']\<rparr>
      | SinkDroppedTotal \<Rightarrow> \<lparr>md_kind = Counter, md_name = ''metergate_sink_dropped_total'', md_labels = []\<rparr>
      | KafkaWriteErrors \<Rightarrow> \<lparr>md_kind = Counter, md_name = ''metergate_kafka_write_errors_total'', md_labels = []\<rparr>
      | KafkaConsumerLag \<Rightarrow> \<lparr>md_kind = Gauge, md_name = ''metergate_kafka_consumer_lag'', md_labels = []\<rparr>
      | FrozenBalanceMicros \<Rightarrow> \<lparr>md_kind = Gauge, md_name = ''metergate_frozen_balance_micros'', md_labels = []\<rparr>
      | ReconDiffTotal \<Rightarrow> \<lparr>md_kind = Counter, md_name = ''metergate_recon_diffs_total'', md_labels = [''layer'']\<rparr>
      | ReconWithinTolerance \<Rightarrow> \<lparr>md_kind = Gauge, md_name = ''metergate_recon_within_tolerance'', md_labels = []\<rparr>
      | RateLimitedTotal \<Rightarrow> \<lparr>md_kind = Counter, md_name = ''metergate_rate_limited_total'', md_labels = [''layer'']\<rparr>
      | QuotaUsageRatio \<Rightarrow> \<lparr>md_kind = Gauge, md_name = ''metergate_quota_usage_ratio'', md_labels = [''layer'', ''scope'']\<rparr>
      | ChannelHealthGauge \<Rightarrow> \<lparr>md_kind = Gauge, md_name = ''metergate_channel_health'', md_labels = [''channel'']\<rparr>
      | ChannelBreakerGauge \<Rightarrow> \<lparr>md_kind = Gauge, md_name = ''metergate_channel_breaker_state'', md_labels = [''channel'']\<rparr>)"

text \<open>In the order in which \<open>New\<close> registers them.\<close>

definition all_metrics :: "metric list" where
  "all_metrics = [HTTPRequestsTotal, HTTPRequestDuration, PrechargeTotal, PrechargeDuration, OrdersSettledTotal, SettleBatchSize,
     SettleDuration, RefundIssuedTotal, SinkDroppedTotal, KafkaWriteErrors, KafkaConsumerLag, FrozenBalanceMicros,
     ReconDiffTotal, ReconWithinTolerance, RateLimitedTotal, QuotaUsageRatio, ChannelHealthGauge, ChannelBreakerGauge]"

definition name_char :: "char \<Rightarrow> bool" where
  "name_char c \<longleftrightarrow> c = CHR ''_'' \<or> c = CHR '':'' \<or> is_digit c \<or> 65 \<le> (of_char c :: nat) \<and> (of_char c :: nat) \<le> 90 \<or>
     97 \<le> (of_char c :: nat) \<and> (of_char c :: nat) \<le> 122"

definition valid_name :: "string \<Rightarrow> bool" where
  "valid_name s \<longleftrightarrow> s \<noteq> [] \<and> \<not> is_digit (hd s) \<and> list_all name_char s"

text \<open>What registering needs: valid names, and no name twice.\<close>

definition registrable :: "metric list \<Rightarrow> bool" where
  "registrable ms \<longleftrightarrow> distinct (map (md_name \<circ> metric_desc_of) ms) \<and>
     list_all (\<lambda>m. valid_name (md_name (metric_desc_of m)) \<and> list_all valid_name (md_labels (metric_desc_of m))) ms"

section \<open>Updating\<close>

datatype metric_op = Inc metric "string list" | AddTo metric "string list" rat | SetTo metric "string list" rat | Observe metric "string list"

text \<open>A series is a metric with a list of label values; \<open>val\<close> reads its value, \<open>None\<close> while it was never touched.\<close>

definition series :: "('m \<Rightarrow> metric \<times> string list \<rightharpoonup> rat) \<Rightarrow> 'm \<Rightarrow> metric \<Rightarrow> string list \<Rightarrow> rat" where
  "series val M m ls = (case val M (m, ls) of None \<Rightarrow> 0 | Some v \<Rightarrow> v)"

definition labels_fit :: "metric \<Rightarrow> string list \<Rightarrow> bool" where
  "labels_fit m ls \<longleftrightarrow> length ls = length (md_labels (metric_desc_of m)) \<and> list_all valid_utf8 ls"

fun op_series :: "metric_op \<Rightarrow> metric \<times> string list" where
  "op_series (Inc m ls) = (m, ls)"
| "op_series (AddTo m ls v) = (m, ls)"
| "op_series (SetTo m ls v) = (m, ls)"
| "op_series (Observe m ls) = (m, ls)"

fun op_fits :: "metric_op \<Rightarrow> bool" where
  "op_fits (AddTo m ls v) \<longleftrightarrow> labels_fit m ls \<and> 0 \<le> v"
| "op_fits op \<longleftrightarrow> labels_fit (fst (op_series op)) (snd (op_series op))"

fun op_value :: "metric_op \<Rightarrow> rat \<Rightarrow> rat" where
  "op_value (Inc m ls) x = x + 1"
| "op_value (AddTo m ls v) x = x + v"
| "op_value (SetTo m ls v) x = v"
| "op_value (Observe m ls) x = x + 1"

text \<open>A counter, gauge or histogram call of the client library changes the one series it names.\<close>

locale prometheus =
  fixes app :: "metric_op \<Rightarrow> 'm \<Rightarrow> 'm option"
    and val :: "'m \<Rightarrow> metric \<times> string list \<rightharpoonup> rat"
  assumes call_returns: "op_fits op \<Longrightarrow> \<exists>M'. app op M = Some M' \<and>
      val M' = (val M)(op_series op \<mapsto> op_value op (case val M (op_series op) of None \<Rightarrow> 0 | Some v \<Rightarrow> v))"
    and call_panics: "\<not> op_fits op \<Longrightarrow> app op M = None"

text \<open>The updates of a handler, up to one that panics.\<close>

fun apply_ops :: "(metric_op \<Rightarrow> 'm \<Rightarrow> 'm option) \<Rightarrow> metric_op list \<Rightarrow> 'm \<Rightarrow> 'm option" where
  "apply_ops app [] M = Some M"
| "apply_ops app (op # ops) M = Option.bind (app op M) (apply_ops app ops)"

text \<open>A registry as a finite table of series.\<close>

type_synonym registry = "metric \<times> string list \<rightharpoonup> rat"

definition table_call :: "metric_op \<Rightarrow> registry \<Rightarrow> registry option" where
  "table_call op M =
     (if op_fits op then Some (M(op_series op \<mapsto> op_value op (case M (op_series op) of None \<Rightarrow> 0 | Some v \<Rightarrow> v))) else None)"

definition table_val :: "registry \<Rightarrow> registry" where
  "table_val M = M"

interpretation table: prometheus table_call table_val
proof
  fix op M
  assume "op_fits op"
  then show "\<exists>M'. table_call op M = Some M' \<and> table_val M' =
      (table_val M)(op_series op \<mapsto> op_value op (case table_val M (op_series op) of None \<Rightarrow> 0 | Some v \<Rightarrow> v))"
    unfolding table_call_def table_val_def by (simp only: if_True) blast
qed (simp only: table_call_def if_False)

section \<open>The statements that update\<close>

text \<open>\<open>instrument\<close>: the status the recorder holds is 200 until a header is written.\<close>

definition recorded_status :: "writer \<Rightarrow> int" where
  "recorded_status wr = (if w_status wr = 0 then 200 else w_status wr)"

definition http_ops :: "http_request \<Rightarrow> writer \<Rightarrow> metric_op list" where
  "http_ops r wr =
     [Inc HTTPRequestsTotal [hq_path r, hq_method r, Sprintf_d (recorded_status wr div 100) @ ''xx''], Observe HTTPRequestDuration [hq_path r]]"

definition instrument_metered ::
  "(metric_op \<Rightarrow> 'm \<Rightarrow> 'm option) \<Rightarrow> 'w server \<Rightarrow> ('w \<Rightarrow> writer \<Rightarrow> 'w \<times> writer) \<Rightarrow> http_request \<Rightarrow> 'w \<Rightarrow> writer \<Rightarrow> 'm \<Rightarrow> ('w \<times> writer) \<times> 'm option" where
  "instrument_metered app sv next r w wr M =
     (let (w', wr') = instrument sv next w wr
      in ((w', wr'), if sv_metrics sv then apply_ops app (http_ops r wr') M else Some M))"

definition precharge_ops :: "int \<Rightarrow> go_error + unit \<Rightarrow> metric_op list" where
  "precharge_ops amountMicros ans =
     (if amountMicros \<le> 0 then []
      else [Inc PrechargeTotal [case ans of Inr _ \<Rightarrow> ''ok'' | Inl e \<Rightarrow> if e = ErrInsufficientBalance then ''insufficient'' else ''error''],
            Observe PrechargeDuration []])"

definition PreCharge_metered ::
  "(metric_op \<Rightarrow> 'm \<Rightarrow> 'm option) \<Rightarrow> 'r redis \<Rightarrow> fault \<Rightarrow> string \<Rightarrow> string \<Rightarrow> int \<Rightarrow> 'r \<times> 'm option \<Rightarrow> ('r \<times> 'm option) \<times> (go_error + unit)" where
  "PreCharge_metered app R f userID requestID amountMicros st =
     (case st of (s, M) \<Rightarrow>
        let (s', ans) = PreCharge R f s userID requestID amountMicros
        in ((s', Option.bind M (apply_ops app (precharge_ops amountMicros ans))), ans))"

definition sink_ops :: "Sink \<Rightarrow> metric_op list" where
  "sink_ops k = (if length (sk_ch k) < sk_cap k then [] else [Inc SinkDroppedTotal []])"

definition recon_ops :: "Report \<Rightarrow> metric_op list" where
  "recon_ops rep =
     [AddTo ReconDiffTotal [''internal''] (of_int (rp_Anomalies rep)),
      SetTo ReconWithinTolerance [] (if rp_Anomalies rep = 0 then 1 else 0)]"

definition reject_ops :: "verdict \<Rightarrow> metric_op list" where
  "reject_ops v = (case v of Admit \<Rightarrow> [] | Reject layer n \<Rightarrow> [Inc RateLimitedTotal [layer]])"

definition quota_ops :: "Scope \<Rightarrow> rat \<Rightarrow> metric_op list" where
  "quota_ops sc v = [SetTo QuotaUsageRatio [sc_Layer sc, scopeName (sc_Layer sc) (sc_ID sc)] v]"

definition channel_ops :: "ChannelState \<Rightarrow> metric_op list" where
  "channel_ops ch =
     [SetTo ChannelHealthGauge [ct_ID ch] (if ct_Healthy ch then 1 else 0), SetTo ChannelBreakerGauge [ct_ID ch] (breakerValue (ct_BreakerState ch))]"

text \<open>Every list of updates a run of the process makes, for requests, limits and channels whose names are UTF-8.\<close>

inductive updates :: "metric_op list \<Rightarrow> bool" where
  "valid_utf8 (hq_path r) \<Longrightarrow> valid_utf8 (hq_method r) \<Longrightarrow> 0 \<le> w_status wr \<Longrightarrow> updates (http_ops r wr)"
| "updates (precharge_ops a ans)"
| "updates (sink_ops k)"
| "0 \<le> rp_Anomalies rep \<Longrightarrow> updates (recon_ops rep)"
| "(\<And>layer n. v = Reject layer n \<Longrightarrow> valid_utf8 layer) \<Longrightarrow> updates (reject_ops v)"
| "valid_utf8 (sc_Layer sc) \<Longrightarrow> valid_utf8 (scopeName (sc_Layer sc) (sc_ID sc)) \<Longrightarrow> updates (quota_ops sc v)"
| "valid_utf8 (ct_ID ch) \<Longrightarrow> updates (channel_ops ch)"
| "updates [SetTo FrozenBalanceMicros [] v]"
| "updates [SetTo KafkaConsumerLag [] v]"

section \<open>No update panics\<close>

lemma valid_utf8_ascii: "list_all (\<lambda>c. (of_char c :: nat) \<le> 127) s \<Longrightarrow> valid_utf8 s"
proof (induction s)
  case (Cons c s)
  then have "byte_in 0 127 (c # s) 0" by (simp add: byte_in_def)
  with Cons show ?case by (simp add: valid_utf8.simps [of "c # s"] rune_width_ascii)
qed (simp add: valid_utf8.simps)

lemma Sprintf_d_ascii: "0 \<le> n \<Longrightarrow> list_all (\<lambda>c. (of_char c :: nat) \<le> 127) (Sprintf_d n)"
proof (cases "n = 0")
  case False
  assume "0 \<le> n"
  with False have "list_all is_digit (itoa_loop n [])" using itoa_loop_value [of n] by simp
  then show ?thesis using \<open>0 \<le> n\<close> False by (auto simp: Sprintf_d_def list_all_iff is_digit_def)
qed (simp add: Sprintf_d_def)

lemma status_class_utf8: "0 \<le> w_status wr \<Longrightarrow> valid_utf8 (Sprintf_d (recorded_status wr div 100) @ ''xx'')"
  using Sprintf_d_ascii [of "recorded_status wr div 100"]
  by (intro valid_utf8_ascii) (simp add: recorded_status_def pos_imp_zdiv_nonneg_iff)

lemma constant_labels [simp]:
  "valid_utf8 ''ok''" "valid_utf8 ''insufficient''" "valid_utf8 ''error''" "valid_utf8 ''internal''" "valid_utf8 ''4xx''"
  by (simp_all add: valid_utf8_ascii)

lemma metrics_registrable: "registrable all_metrics"
  by code_simp

lemma all_metrics_complete: "m \<in> set all_metrics"
  by (cases m) (simp_all add: all_metrics_def)

lemma updates_fit: "updates ops \<Longrightarrow> \<forall>op\<in>set ops. op_fits op"
proof (induction rule: updates.induct)
  case (1 r wr)
  then show ?case by (simp add: http_ops_def labels_fit_def metric_desc_of_def status_class_utf8)
next
  case (2 a ans)
  show ?case by (simp add: precharge_ops_def labels_fit_def metric_desc_of_def split: sum.split)
next
  case (4 rep)
  then show ?case by (simp add: recon_ops_def labels_fit_def metric_desc_of_def)
qed (auto simp: sink_ops_def reject_ops_def quota_ops_def channel_ops_def labels_fit_def metric_desc_of_def split: verdict.split)

lemma updates_fit_all: "\<forall>ops\<in>set opss. updates ops \<Longrightarrow> \<forall>op\<in>set (concat opss). op_fits op"
  using updates_fit by auto

definition unused_metrics :: "metric set" where
  "unused_metrics = {OrdersSettledTotal, SettleBatchSize, SettleDuration, RefundIssuedTotal, KafkaWriteErrors}"

lemma updates_unused: "updates ops \<Longrightarrow> op \<in> set ops \<Longrightarrow> fst (op_series op) \<notin> unused_metrics"
  by (induction rule: updates.induct)
     (auto simp: unused_metrics_def http_ops_def precharge_ops_def sink_ops_def recon_ops_def reject_ops_def quota_ops_def
       channel_ops_def split: if_splits verdict.splits)

context prometheus
begin

lemma call_series:
  assumes "op_fits op"
  obtains M' where "app op M = Some M'" and "series val M' m ls = (if op_series op = (m, ls) then op_value op (series val M m ls) else series val M m ls)"
    and "dom (val M') = Set.insert (op_series op) (dom (val M))" and "op_series op \<noteq> (m, ls) \<Longrightarrow> val M' (m, ls) = val M (m, ls)"
proof -
  obtain M' where "app op M = Some M'"
    "val M' = (val M)(op_series op \<mapsto> op_value op (case val M (op_series op) of None \<Rightarrow> 0 | Some v \<Rightarrow> v))"
    using call_returns [OF assms] by blast
  then show ?thesis by (intro that [of M']) (auto simp: series_def)
qed

lemma calls_return:
  "\<forall>op\<in>set ops. op_fits op \<Longrightarrow> \<exists>M'. apply_ops app ops M = Some M' \<and> dom (val M') = op_series ` set ops \<union> dom (val M) \<and>
     (\<forall>m ls. (m, ls) \<notin> op_series ` set ops \<longrightarrow> val M' (m, ls) = val M (m, ls))"
proof (induction ops arbitrary: M)
  case (Cons op ops)
  then obtain M1 where M1: "app op M = Some M1" "val M1 = (val M)(op_series op \<mapsto> op_value op (case val M (op_series op) of None \<Rightarrow> 0 | Some v \<Rightarrow> v))"
    using call_returns [of op M] by auto
  have "\<forall>op\<in>set ops. op_fits op" using Cons.prems by simp
  from Cons.IH [OF this, of M1] obtain M' where "apply_ops app ops M1 = Some M'" "dom (val M') = op_series ` set ops \<union> dom (val M1)"
    "\<forall>m ls. (m, ls) \<notin> op_series ` set ops \<longrightarrow> val M' (m, ls) = val M1 (m, ls)" by blast
  with M1 show ?case by (intro exI [of _ M']) auto
qed simp

lemma calls_panic: "\<exists>op\<in>set ops. \<not> op_fits op \<Longrightarrow> apply_ops app ops M = None"
proof (induction ops arbitrary: M)
  case (Cons op ops)
  then show ?case using call_panics [of op M] by (cases "op_fits op"; cases "app op M") auto
qed simp

end

text \<open>Theorem: Metrics never stop the process. Their names are distinct and valid, so registering them at the start does not panic, and no
  sequence of the updates that the code makes panics, whatever the values, while the names of paths, methods, layers and
  channels are UTF-8: every update names its metric with the right number of label values, and nothing is
  subtracted from a counter.\<close>

theorem metrics_never_panic:
  assumes "prometheus app val" and "\<forall>ops\<in>set opss. updates ops"
  shows "registrable all_metrics \<and> (\<exists>M'. apply_ops app (concat opss) M = Some M')"
  using metrics_registrable prometheus.calls_return [OF assms(1) updates_fit_all [OF assms(2)]] by blast

theorem metrics_never_panic_witness:
  "\<exists>M'. apply_ops table_call (concat [precharge_ops 5 (Inr ()), reject_ops (Reject ''key'' 3), [SetTo KafkaConsumerLag [] 2]]) Map.empty = Some M'"
proof -
  have "updates (reject_ops (Reject ''key'' 3))" by (rule updates.intros) (simp add: valid_utf8_ascii)
  then have "\<forall>ops\<in>set [precharge_ops 5 (Inr ()), reject_ops (Reject ''key'' 3), [SetTo KafkaConsumerLag [] 2]]. updates ops"
    by (auto intro: updates.intros)
  from metrics_never_panic [OF table.prometheus_axioms this, of Map.empty] show ?thesis by blast
qed

text \<open>Theorem: Five of the metrics are never updated. The counters of settled orders, refunds and Kafka write errors and the
  histograms of settle batches and durations have no value after any run.\<close>

theorem unused_metrics_stay_empty:
  assumes "prometheus app val" and "\<forall>ops\<in>set opss. updates ops" and "m \<in> unused_metrics" and "val M (m, ls) = None"
  shows "\<exists>M'. apply_ops app (concat opss) M = Some M' \<and> val M' (m, ls) = None"
proof -
  have "fst (op_series op) \<noteq> m" if "op \<in> set (concat opss)" for op using that assms(2,3) updates_unused by fastforce
  then have "(m, ls) \<notin> op_series ` set (concat opss)" by (metis fst_conv imageE)
  with prometheus.calls_return [OF assms(1) updates_fit_all [OF assms(2)], of M] assms(4) show ?thesis by metis
qed

theorem unused_metrics_stay_empty_witness:
  "\<exists>M'. apply_ops table_call (concat [precharge_ops 5 (Inr ())]) Map.empty = Some M' \<and> table_val M' (RefundIssuedTotal, [''auto'']) = None"
  by (rule unused_metrics_stay_empty [OF table.prometheus_axioms]) (auto simp: unused_metrics_def table_val_def intro: updates.intros)

section \<open>What the counters count\<close>

fun precharge_calls ::
  "(metric_op \<Rightarrow> 'm \<Rightarrow> 'm option) \<Rightarrow> 'r redis \<Rightarrow> 'r \<times> 'm option \<Rightarrow> (fault \<times> string \<times> string \<times> int) list \<Rightarrow>
   ('r \<times> 'm option) \<times> (int \<times> (go_error + unit)) list" where
  "precharge_calls app R st [] = (st, [])"
| "precharge_calls app R st ((f, u, r, a) # cs) =
     (let (st1, ans) = PreCharge_metered app R f u r a st; (st2, rest) = precharge_calls app R st1 cs in (st2, (a, ans) # rest))"

text \<open>The same calls without metrics: the final state of Redis and the answers.\<close>

fun plain_calls :: "'r redis \<Rightarrow> 'r \<Rightarrow> (fault \<times> string \<times> string \<times> int) list \<Rightarrow> 'r \<times> (int \<times> (go_error + unit)) list" where
  "plain_calls R s [] = (s, [])"
| "plain_calls R s ((f, u, r, a) # cs) =
     (let (s1, ans) = PreCharge R f s u r a; (s2, rest) = plain_calls R s1 cs in (s2, (a, ans) # rest))"

definition result_label :: "go_error + unit \<Rightarrow> string" where
  "result_label ans = (case ans of Inr _ \<Rightarrow> ''ok'' | Inl e \<Rightarrow> if e = ErrInsufficientBalance then ''insufficient'' else ''error'')"

abbreviation calls_with :: "string \<Rightarrow> (int \<times> (go_error + unit)) list \<Rightarrow> nat" where
  "calls_with l as \<equiv> length (filter (\<lambda>(a, ans). 0 < a \<and> result_label ans = l) as)"

abbreviation reserving_calls :: "(int \<times> (go_error + unit)) list \<Rightarrow> nat" where
  "reserving_calls as \<equiv> length (filter (\<lambda>(a, ans). 0 < a) as)"

context prometheus
begin

lemma precharge_ops_result:
  "\<exists>M'. apply_ops app (precharge_ops a ans) M = Some M' \<and>
     (\<forall>l. series val M' PrechargeTotal [l] = series val M PrechargeTotal [l] + (if 0 < a \<and> result_label ans = l then 1 else 0)) \<and>
     series val M' PrechargeDuration [] = series val M PrechargeDuration [] + (if 0 < a then 1 else 0)"
proof (cases "0 < a")
  case True
  let ?c = "Inc PrechargeTotal [result_label ans]" and ?d = "Observe PrechargeDuration []"
  have fits: "op_fits ?c" "op_fits ?d" by (simp_all add: result_label_def labels_fit_def metric_desc_of_def split: sum.split)
  obtain M1 where M1: "app ?c M = Some M1" "val M1 = (val M)(op_series ?c \<mapsto> op_value ?c (case val M (op_series ?c) of None \<Rightarrow> 0 | Some v \<Rightarrow> v))"
    using call_returns [OF fits(1)] by blast
  obtain M' where M': "app ?d M1 = Some M'" "val M' = (val M1)(op_series ?d \<mapsto> op_value ?d (case val M1 (op_series ?d) of None \<Rightarrow> 0 | Some v \<Rightarrow> v))"
    using call_returns [OF fits(2)] by blast
  have "precharge_ops a ans = [?c, ?d]" using True by (simp add: precharge_ops_def result_label_def)
  with True M1 M' show ?thesis by (auto simp: series_def)
qed (simp add: precharge_ops_def)

lemma precharge_calls_count:
  "\<exists>M'. precharge_calls app R (s, Some M) cs = ((fst (plain_calls R s cs), Some M'), snd (plain_calls R s cs)) \<and>
     (\<forall>l. series val M' PrechargeTotal [l] = series val M PrechargeTotal [l] + of_nat (calls_with l (snd (plain_calls R s cs)))) \<and>
     series val M' PrechargeDuration [] = series val M PrechargeDuration [] + of_nat (reserving_calls (snd (plain_calls R s cs)))"
proof (induction cs arbitrary: s M)
  case (Cons c cs)
  obtain f u r a where c: "c = (f, u, r, a)" by (metis prod_cases4)
  obtain s1 ans where p: "PreCharge R f s u r a = (s1, ans)" by fastforce
  obtain M1 where M1: "apply_ops app (precharge_ops a ans) M = Some M1"
    "\<forall>l. series val M1 PrechargeTotal [l] = series val M PrechargeTotal [l] + (if 0 < a \<and> result_label ans = l then 1 else 0)"
    "series val M1 PrechargeDuration [] = series val M PrechargeDuration [] + (if 0 < a then 1 else 0)"
    using precharge_ops_result by blast
  obtain M' where M': "precharge_calls app R (s1, Some M1) cs = ((fst (plain_calls R s1 cs), Some M'), snd (plain_calls R s1 cs))"
    "\<forall>l. series val M' PrechargeTotal [l] = series val M1 PrechargeTotal [l] + of_nat (calls_with l (snd (plain_calls R s1 cs)))"
    "series val M' PrechargeDuration [] = series val M1 PrechargeDuration [] + of_nat (reserving_calls (snd (plain_calls R s1 cs)))"
    using Cons.IH by blast
  have "plain_calls R s (c # cs) = (fst (plain_calls R s1 cs), (a, ans) # snd (plain_calls R s1 cs))"
    by (simp add: c p split_beta)
  moreover have "precharge_calls app R (s, Some M) (c # cs) = ((fst (plain_calls R s1 cs), Some M'), (a, ans) # snd (plain_calls R s1 cs))"
    by (simp add: c p M1(1) M'(1) PreCharge_metered_def)
  ultimately show ?case using M1(2,3) M'(2,3) by (intro exI [of _ M']) simp
qed simp

end

text \<open>C30: The pre-charge counters are exact and the instrumentation is transparent. After any calls with any outcomes of
  Redis, the three counters have grown by how many calls were granted, refused for lack of money and failed, calls
  that reserve nothing apart; the histogram by one observation for each of these; and Redis and the answers are those of the
  calls without metrics.\<close>

theorem precharge_counters_are_exact:
  assumes "prometheus app val"
  shows "\<exists>M'. precharge_calls app R (s, Some M) cs = ((fst (plain_calls R s cs), Some M'), snd (plain_calls R s cs)) \<and>
     (\<forall>l. series val M' PrechargeTotal [l] = series val M PrechargeTotal [l] + of_nat (calls_with l (snd (plain_calls R s cs)))) \<and>
     series val M' PrechargeDuration [] = series val M PrechargeDuration [] + of_nat (reserving_calls (snd (plain_calls R s cs)))"
  by (rule prometheus.precharge_calls_count [OF assms])

theorem precharge_counters_are_exact_witness:
  "\<exists>M'. snd (fst (precharge_calls table_call mem_redis ([(balKey ''u'', 10)], Some Map.empty)
       [(NoFault, ''u'', ''r1'', 6), (NoFault, ''u'', ''r2'', 6), (NoFault, ''u'', ''r3'', 0)])) = Some M' \<and>
     series table_val M' PrechargeTotal [''ok''] = 1 \<and> series table_val M' PrechargeTotal [''insufficient''] = 1 \<and>
     series table_val M' PrechargeDuration [] = 2"
proof -
  let ?cs = "[(NoFault, ''u'', ''r1'', 6), (NoFault, ''u'', ''r2'', 6), (NoFault, ''u'', ''r3'', 0)]"
  have as: "snd (plain_calls mem_redis [(balKey ''u'', 10)] ?cs) = [(6, Inr ()), (6, Inl ErrInsufficientBalance), (0, Inr ())]" by code_simp
  obtain M' where "precharge_calls table_call mem_redis ([(balKey ''u'', 10)], Some Map.empty) ?cs =
      ((fst (plain_calls mem_redis [(balKey ''u'', 10)] ?cs), Some M'), snd (plain_calls mem_redis [(balKey ''u'', 10)] ?cs))"
    "\<forall>l. series table_val M' PrechargeTotal [l] = series table_val Map.empty PrechargeTotal [l] +
      of_nat (calls_with l (snd (plain_calls mem_redis [(balKey ''u'', 10)] ?cs)))"
    "series table_val M' PrechargeDuration [] = series table_val Map.empty PrechargeDuration [] +
      of_nat (reserving_calls (snd (plain_calls mem_redis [(balKey ''u'', 10)] ?cs)))"
    using precharge_counters_are_exact [OF table.prometheus_axioms, of mem_redis "[(balKey ''u'', 10)]" Map.empty ?cs] by blast
  then show ?thesis unfolding as by (intro exI [of _ M']) (simp add: series_def table_val_def result_label_def)
qed

definition Handler_metered ::
  "(metric_op \<Rightarrow> 'm \<Rightarrow> 'm option) \<Rightarrow> 'w server \<Rightarrow> 'w \<Rightarrow> writer \<Rightarrow> http_request \<Rightarrow> 'm \<Rightarrow> ('w \<times> writer) \<times> 'm option" where
  "Handler_metered app sv w wr r M =
     (if hq_path r = ''/healthz'' \<and> hq_method r \<in> {''GET'', ''HEAD''} \<or> sv_metrics sv \<and> hq_path r = ''/metrics'' then (Handler sv w wr r, Some M)
      else instrument_metered app sv (\<lambda>w wr. authMiddleware sv (api_mux sv r) w wr r) r w wr M)"

lemma Handler_metered_transparent: "fst (Handler_metered app sv w wr r M) = Handler sv w wr r"
  by (auto simp: Handler_metered_def Handler_def instrument_metered_def Let_def split: prod.split)

fun serve_all :: "(metric_op \<Rightarrow> 'm \<Rightarrow> 'm option) \<Rightarrow> 'w server \<Rightarrow> 'w \<Rightarrow> 'm option \<Rightarrow> http_request list \<Rightarrow> 'w \<times> 'm option" where
  "serve_all app sv w M [] = (w, M)"
| "serve_all app sv w M (r # rs) =
     (case M of None \<Rightarrow> (w, None) | Some M0 \<Rightarrow> (case Handler_metered app sv w new_writer r M0 of ((w', wr), M') \<Rightarrow> serve_all app sv w' M' rs))"

abbreviation http_label :: "http_request \<Rightarrow> string list" where
  "http_label r \<equiv> [hq_path r, hq_method r, ''4xx'']"

definition unknown_request :: "http_request \<Rightarrow> bool" where
  "unknown_request r \<longleftrightarrow> presented_key (hq_Authorization r) = [] \<and> hq_path r \<notin> {''/healthz'', ''/metrics''} \<and>
     valid_utf8 (hq_path r) \<and> valid_utf8 (hq_method r)"

lemma refused_metered:
  assumes "presented_key (hq_Authorization r) = []" and "hq_path r \<notin> {''/healthz'', ''/metrics''}" and "sv_metrics sv"
  shows "\<exists>wr. recorded_status wr div 100 = 4 \<and> Handler_metered app sv w new_writer r M = ((w, wr), apply_ops app (http_ops r wr) M)"
proof -
  let ?wr = "writeError 401 ''invalid or missing API key'' (new_writer\<lparr>w_flusher := False\<rparr>)"
  have "recorded_status ?wr div 100 = 4"
    by (simp add: recorded_status_def writeError_def Write_def WriteHeader_def new_writer_def)
  with assms show ?thesis
    by (intro exI [of _ ?wr]) (simp add: Handler_metered_def instrument_metered_def instrument_def authMiddleware_def authenticate_def)
qed

lemma refused_ops: "recorded_status wr div 100 = 4 \<Longrightarrow> http_ops r wr = [Inc HTTPRequestsTotal (http_label r), Observe HTTPRequestDuration [hq_path r]]"
proof -
  assume "recorded_status wr div 100 = 4"
  moreover have "Sprintf_d 4 = ''4''" by code_simp
  ultimately show ?thesis by (simp add: http_ops_def)
qed

context prometheus
begin

lemma stranger_metered:
  assumes "sv_metrics sv" and "unknown_request r"
  shows "\<exists>wr M'. Handler_metered app sv w new_writer r M = ((w, wr), Some M') \<and>
    dom (val M') = {(HTTPRequestsTotal, http_label r), (HTTPRequestDuration, [hq_path r])} \<union> dom (val M)"
proof -
  obtain wr where wr: "recorded_status wr div 100 = 4" "Handler_metered app sv w new_writer r M = ((w, wr), apply_ops app (http_ops r wr) M)"
    using assms refused_metered [of r sv app w M] unfolding unknown_request_def by blast
  have "\<forall>op\<in>set (http_ops r wr). op_fits op"
    using assms(2) by (simp add: refused_ops [OF wr(1)] unknown_request_def labels_fit_def metric_desc_of_def)
  from calls_return [OF this, of M] wr(2) show ?thesis by (auto simp: refused_ops [OF wr(1)])
qed

lemma strangers_metered:
  assumes "sv_metrics sv" and "\<forall>r\<in>set rs. unknown_request r"
  shows "\<exists>M'. serve_all app sv w (Some M) rs = (w, Some M') \<and>
    dom (val M') = (\<Union>r\<in>set rs. {(HTTPRequestsTotal, http_label r), (HTTPRequestDuration, [hq_path r])}) \<union> dom (val M)"
  using assms(2)
proof (induction rs arbitrary: M)
  case (Cons r rs)
  then obtain wr M1 where M1: "Handler_metered app sv w new_writer r M = ((w, wr), Some M1)"
    "dom (val M1) = {(HTTPRequestsTotal, http_label r), (HTTPRequestDuration, [hq_path r])} \<union> dom (val M)"
    using stranger_metered [OF assms(1), of r w M] by auto
  have "\<forall>r\<in>set rs. unknown_request r" using Cons.prems by simp
  from Cons.IH [OF this, of M1] obtain M' where "serve_all app sv w (Some M1) rs = (w, Some M')"
    "dom (val M') = (\<Union>r\<in>set rs. {(HTTPRequestsTotal, http_label r), (HTTPRequestDuration, [hq_path r])}) \<union> dom (val M1)" by blast
  with M1 show ?case by (intro exI [of _ M']) auto
qed simp

end

text \<open>Theorem: Strangers fill the metrics. Requests without a key are refused and change nothing, but each path they name becomes
  two series of its own that are kept for good: the labels are taken from the URL before authentication.\<close>

theorem strangers_create_series:
  assumes "prometheus app val" and "sv_metrics sv" and "\<forall>r\<in>set rs. unknown_request r"
  shows "\<exists>M'. serve_all app sv w (Some M) rs = (w, Some M') \<and>
    dom (val M') = (\<Union>r\<in>set rs. {(HTTPRequestsTotal, http_label r), (HTTPRequestDuration, [hq_path r])}) \<union> dom (val M)"
  by (rule prometheus.strangers_metered [OF assms])

theorem strangers_create_series_witness:
  "\<exists>M'. serve_all table_call (plain_server\<lparr>sv_metrics := True\<rparr>) 0 (Some Map.empty)
       [stranger\<lparr>hq_path := ''/a'', hq_Authorization := []\<rparr>, stranger\<lparr>hq_path := ''/b'', hq_Authorization := []\<rparr>] = (0, Some M') \<and>
     {(HTTPRequestsTotal, [''/a'', ''POST'', ''4xx'']), (HTTPRequestsTotal, [''/b'', ''POST'', ''4xx''])} \<subseteq> dom (table_val M')"
proof -
  let ?rs = "[stranger\<lparr>hq_path := ''/a'', hq_Authorization := []\<rparr>, stranger\<lparr>hq_path := ''/b'', hq_Authorization := []\<rparr>]"
  have "presented_key [] = []" by code_simp
  then have rs: "\<forall>r\<in>set ?rs. unknown_request r" by (auto simp: unknown_request_def stranger_def intro!: valid_utf8_ascii)
  have "sv_metrics (plain_server\<lparr>sv_metrics := True\<rparr>)" by simp
  from strangers_create_series [OF table.prometheus_axioms this rs, of 0 Map.empty] obtain M' where
    "serve_all table_call (plain_server\<lparr>sv_metrics := True\<rparr>) 0 (Some Map.empty) ?rs = (0, Some M')"
    "dom (table_val M') = (\<Union>r\<in>set ?rs. {(HTTPRequestsTotal, http_label r), (HTTPRequestDuration, [hq_path r])}) \<union> dom (table_val Map.empty)" by blast
  then show ?thesis by (intro exI [of _ M']) (simp add: stranger_def)
qed

text \<open>Theorem: A path that is not UTF-8 makes the instrumentation panic. The request is handled and refused, and then the update
  of its counter panics, as the byte is not allowed in a label: the client gets no answer.\<close>

theorem malformed_path_panics:
  assumes "prometheus app val"
  shows "snd (Handler_metered app (sv\<lparr>sv_metrics := True\<rparr>) w new_writer
    \<lparr>hq_method = m, hq_path = [CHR ''/'', CHR 0xFF], hq_Authorization = [], hq_EndUser = e, hq_body = b\<rparr> M) = None"
proof -
  let ?r = "\<lparr>hq_method = m, hq_path = [CHR ''/'', CHR 0xFF], hq_Authorization = [], hq_EndUser = e, hq_body = b\<rparr>"
  have "\<not> valid_utf8 [CHR ''/'', CHR 0xFF]" by code_simp
  then have "\<exists>op\<in>set (http_ops ?r wr). \<not> op_fits op" for wr by (simp add: http_ops_def labels_fit_def)
  then have "apply_ops app (http_ops ?r wr) M = None" for wr by (rule prometheus.calls_panic [OF assms])
  moreover have "presented_key (hq_Authorization ?r) = []" by simp code_simp
  ultimately show ?thesis using refused_metered [of ?r "sv\<lparr>sv_metrics := True\<rparr>" app w M] by auto
qed

theorem malformed_path_panics_witness:
  "snd (Handler_metered table_call (plain_server\<lparr>sv_metrics := True\<rparr>) 0 new_writer
    \<lparr>hq_method = ''GET'', hq_path = [CHR ''/'', CHR 0xFF], hq_Authorization = [], hq_EndUser = [], hq_body = Inr []\<rparr> Map.empty) = None"
  by (rule malformed_path_panics [OF table.prometheus_axioms])

text \<open>Theorem: The tolerance gauge does not see frozen money. A day without anomalous orders sets the gauge to 1, within tolerance,
  also when the same run found frozen amounts and the command exits with 1.\<close>

theorem tolerance_gauge_ignores_frozen:
  assumes "prometheus app val" and "rp_Anomalies rep = 0" and "0 < rp_FrozenLeaked rep"
  shows "\<exists>M'. apply_ops app (recon_ops rep) M = Some M' \<and> series val M' ReconWithinTolerance [] = 1 \<and> reconcile_exit auto (Inr rep) = 1"
proof -
  let ?a = "AddTo ReconDiffTotal [''internal''] 0" and ?s = "SetTo ReconWithinTolerance [] 1"
  have fits: "op_fits ?a" "op_fits ?s" by (simp_all add: labels_fit_def metric_desc_of_def)
  obtain M1 where "app ?a M = Some M1" using prometheus.call_returns [OF assms(1) fits(1)] by blast
  moreover obtain M' where "app ?s M1 = Some M'" "series val M' ReconWithinTolerance [] = op_value ?s (series val M1 ReconWithinTolerance [])"
    by (rule prometheus.call_series [OF assms(1) fits(2), of M1 ReconWithinTolerance "[]"]) simp
  ultimately show ?thesis using assms(2,3) by (intro exI [of _ M']) (simp add: recon_ops_def reconcile_exit_def)
qed

theorem tolerance_gauge_ignores_frozen_witness:
  "\<exists>M'. apply_ops table_call (recon_ops ((day_report 0 (\<lambda>_. None))\<lparr>rp_FrozenLeaked := 7\<rparr>)) Map.empty = Some M' \<and>
     series table_val M' ReconWithinTolerance [] = 1"
  using tolerance_gauge_ignores_frozen [OF table.prometheus_axioms, of "(day_report 0 (\<lambda>_. None))\<lparr>rp_FrozenLeaked := 7\<rparr>" Map.empty False]
  by (auto simp: day_report_def Let_def)

text \<open>The counter of dropped events is the one the sink keeps.\<close>

lemma sink_counter:
  assumes "prometheus app val" and "series val M SinkDroppedTotal [] = of_nat (sk_droppedTotal k)"
  shows "\<exists>M'. apply_ops app (sink_ops k) M = Some M' \<and> series val M' SinkDroppedTotal [] = of_nat (sk_droppedTotal (fst (Sink_Emit k ev)))"
proof (cases "length (sk_ch k) < sk_cap k")
  case False
  have fits: "op_fits (Inc SinkDroppedTotal [])" by (simp add: labels_fit_def metric_desc_of_def)
  obtain M' where "app (Inc SinkDroppedTotal []) M = Some M'"
    "series val M' SinkDroppedTotal [] = op_value (Inc SinkDroppedTotal []) (series val M SinkDroppedTotal [])"
    by (rule prometheus.call_series [OF assms(1) fits, of M SinkDroppedTotal "[]"]) simp
  with False assms(2) show ?thesis by (intro exI [of _ M']) (simp add: sink_ops_def Sink_Emit_def)
qed (use assms(2) in \<open>simp add: sink_ops_def Sink_Emit_def\<close>)

end
