(* ===== verification/Lifecycle.thy ===== *)
theory Lifecycle
  imports Wiring Settler
begin

text \<open>
  The end of the process: \<open>ListenAndServe\<close> of \<open>internal/gateway/server.go\<close>, what \<open>main\<close> does with its result, and
  the calls \<open>main\<close> has deferred, for a process that settles through the in-process sink. Requests, the
  consumer of the queue and the flushers of the settler run beside the shutdown, so the process is a step relation.
  The time limit of \<open>Shutdown\<close> is a step that may happen while a request is active.
\<close>

section \<open>Serving\<close>

text \<open>How the \<open>select\<close> of \<open>ListenAndServe\<close> ends: the listener failed, or the context was cancelled and \<open>Shutdown\<close> returned
  after all requests or after its 30 seconds.\<close>

datatype serve_end = ListenFailed go_error | Drained | DrainTimeout

definition ListenAndServe :: "serve_end \<Rightarrow> go_error + unit" where
  "ListenAndServe r =
     (case r of ListenFailed e \<Rightarrow> Inl e | Drained \<Rightarrow> Inr () | DrainTimeout \<Rightarrow> Inl ErrService)"

section \<open>What main defers\<close>

datatype closer = StopSignals | CloseStore | CloseSink | CloseKafka | CloseDetail | ShutdownAdmin

text \<open>The deferred calls in the order of their statements; they run in the opposite order. Shards are not closed.\<close>

definition main_defers :: "plan \<Rightarrow> closer list" where
  "main_defers p =
     [StopSignals] @ (if pl_store p = Single then [CloseStore] else []) @ (if pl_store p \<noteq> NoStore then [CloseSink] else []) @
     (if Bus \<in> set (pl_sinks p) then [CloseKafka] else []) @ (if DetailTier \<in> set (pl_sinks p) then [CloseDetail] else []) @
     (if pl_admin p then [ShutdownAdmin] else [])"

definition closing_order :: "plan \<Rightarrow> closer list" where
  "closing_order p = rev (main_defers p)"

section \<open>The process\<close>

datatype phase = Serving | Stopping | Closing "closer list" | Exited int

text \<open>
  \<open>pc_active\<close> counts the requests in their handlers, \<open>pc_loop\<close> says whether the consumer goroutine of the sink runs,
  \<open>pc_open\<close> whether the connection pool is open. \<open>pc_emitted\<close>, \<open>pc_taken\<close> and \<open>pc_lost\<close> record the events
  emitted, handed to the settler and dropped.
\<close>

record ('s, 'r) proc =
  pc_phase :: phase
  pc_active :: nat
  pc_loop :: bool
  pc_sink :: Sink
  pc_world :: "('s, 'r) world"
  pc_open :: bool
  pc_emitted :: "Event list"
  pc_taken :: "Event list"
  pc_lost :: "Event list"

definition start_proc :: "('s, 'r) world \<Rightarrow> ('s, 'r) proc" where
  "start_proc W = \<lparr>pc_phase = Serving, pc_active = 0, pc_loop = True, pc_sink = NewSink 10000, pc_world = W, pc_open = True,
     pc_emitted = [], pc_taken = [], pc_lost = []\<rparr>"

text \<open>A closed pool refuses every statement.\<close>

definition pool_insert :: "'s inserter \<Rightarrow> bool \<Rightarrow> 's inserter" where
  "pool_insert ins up fs s xs = (if up then ins fs s xs else (s, Inl ErrService, fs))"

definition emit_event :: "Event \<Rightarrow> ('s, 'r) proc \<Rightarrow> ('s, 'r) proc" where
  "emit_event ev p =
     p\<lparr>pc_sink := fst (Sink_Emit (pc_sink p) ev), pc_emitted := pc_emitted p @ [ev],
       pc_lost := (if length (sk_ch (pc_sink p)) < sk_cap (pc_sink p) then pc_lost p else pc_lost p @ [ev])\<rparr>"

definition with_settler :: "Settler \<Rightarrow> ('s, 'r) proc \<Rightarrow> ('s, 'r) proc" where
  "with_settler S p = p\<lparr>pc_world := (pc_world p)\<lparr>sw_settler := S\<rparr>\<rparr>"

definition take_event :: "price_state \<Rightarrow> int \<Rightarrow> ('s, 'r) proc \<Rightarrow> ('s, 'r) proc" where
  "take_event ps now p =
     (let (k, S) = Sink_loop ps now (pc_sink p, sw_settler (pc_world p))
      in with_settler S (p\<lparr>pc_sink := k, pc_taken := pc_taken p @ take 1 (sk_ch (pc_sink p))\<rparr>))"

definition run_closer :: "price_state \<Rightarrow> int \<Rightarrow> closer \<Rightarrow> ('s, 'r) proc \<Rightarrow> ('s, 'r) proc" where
  "run_closer ps now c p =
     (case c of
        CloseSink \<Rightarrow>
          (let (k, S) = Sink_Close ps now (pc_sink p, sw_settler (pc_world p))
           in with_settler S (p\<lparr>pc_sink := k, pc_taken := pc_taken p @ sk_ch (pc_sink p)\<rparr>))
      | CloseStore \<Rightarrow> p\<lparr>pc_open := False\<rparr>
      | _ \<Rightarrow> p)"

text \<open>\<open>main\<close> leaves with status 1 when \<open>ListenAndServe\<close> returns an error, without its deferred calls.\<close>

definition main_end :: "plan \<Rightarrow> serve_end \<Rightarrow> phase" where
  "main_end pl r = (case ListenAndServe r of Inl e \<Rightarrow> Exited 1 | Inr _ \<Rightarrow> Closing (closing_order pl))"

definition running :: "('s, 'r) proc \<Rightarrow> bool" where
  "running p \<longleftrightarrow> (case pc_phase p of Exited n \<Rightarrow> False | _ \<Rightarrow> True)"

inductive proc_step :: "'s inserter \<Rightarrow> 'r redis option \<Rightarrow> plan \<Rightarrow> ('s, 'r) proc \<Rightarrow> ('s, 'r) proc \<Rightarrow> bool" for ins pre pl where
  accept: "pc_phase p = Serving \<Longrightarrow> proc_step ins pre pl p (p\<lparr>pc_active := Suc (pc_active p)\<rparr>)"
| refuse: "pc_phase p \<in> {Serving, Stopping} \<Longrightarrow> pc_active p = Suc n \<Longrightarrow> proc_step ins pre pl p (p\<lparr>pc_active := n\<rparr>)"
| serve: "pc_phase p \<in> {Serving, Stopping} \<Longrightarrow> pc_active p = Suc n \<Longrightarrow> proc_step ins pre pl p (emit_event ev (p\<lparr>pc_active := n\<rparr>))"
| consume: "running p \<Longrightarrow> pc_loop p \<Longrightarrow> proc_step ins pre pl p (take_event ps now p)"
| stop_loop: "running p \<Longrightarrow> pc_phase p \<noteq> Serving \<Longrightarrow> proc_step ins pre pl p (p\<lparr>pc_loop := False\<rparr>)"
| wake: "running p \<Longrightarrow> k < length (st_shards (sw_settler (pc_world p))) \<Longrightarrow>
    proc_step ins pre pl p (p\<lparr>pc_world := fst (flushLoop (pool_insert ins (pc_open p)) pre (pc_world p) k w)\<rparr>)"
| signal: "pc_phase p = Serving \<Longrightarrow> proc_step ins pre pl p (p\<lparr>pc_phase := Stopping\<rparr>)"
| listen_failed: "pc_phase p = Serving \<Longrightarrow> proc_step ins pre pl p (p\<lparr>pc_phase := main_end pl (ListenFailed e)\<rparr>)"
| drained: "pc_phase p = Stopping \<Longrightarrow> pc_active p = 0 \<Longrightarrow> proc_step ins pre pl p (p\<lparr>pc_phase := main_end pl Drained\<rparr>)"
| drain_timeout: "pc_phase p = Stopping \<Longrightarrow> 0 < pc_active p \<Longrightarrow> proc_step ins pre pl p (p\<lparr>pc_phase := main_end pl DrainTimeout\<rparr>)"
| close: "pc_phase p = Closing (c # cs) \<Longrightarrow> proc_step ins pre pl p ((run_closer ps now c p)\<lparr>pc_phase := Closing cs\<rparr>)"
| leave: "pc_phase p = Closing [] \<Longrightarrow> proc_step ins pre pl p (p\<lparr>pc_phase := Exited 0\<rparr>)"

inductive_cases proc_stepE: "proc_step ins pre pl p p'"

section \<open>What a shutdown keeps\<close>

text \<open>The bookkeeping of events: each is handed over, queued or dropped, and drops are counted.\<close>

definition events_ok :: "('s, 'r) proc \<Rightarrow> bool" where
  "events_ok p \<longleftrightarrow> mset (pc_emitted p) = mset (pc_taken p) + mset (sk_ch (pc_sink p)) + mset (pc_lost p) \<and>
     length (pc_lost p) = sk_droppedTotal (pc_sink p)"

definition phase_ok :: "plan \<Rightarrow> ('s, 'r) proc \<Rightarrow> bool" where
  "phase_ok pl p \<longleftrightarrow>
     (case pc_phase p of
        Closing cs \<Rightarrow> \<exists>ds. closing_order pl = ds @ cs \<and> (CloseSink \<in> set ds \<longrightarrow> sk_ch (pc_sink p) = []) \<and>
          (pc_open p \<longleftrightarrow> CloseStore \<notin> set ds)
      | Exited n \<Rightarrow> n = 0 \<longrightarrow> CloseSink \<in> set (closing_order pl) \<longrightarrow> sk_ch (pc_sink p) = []
      | _ \<Rightarrow> pc_open p)"

lemma Sink_loop_queue:
  "Sink_loop ps now (k, S) = (k\<lparr>sk_ch := tl (sk_ch k)\<rparr>, foldl (Sink_handle ps now) S (take 1 (sk_ch k)))"
  by (cases "sk_ch k") simp_all

lemma take_event_fields:
  "pc_sink (take_event ps now p) = (pc_sink p)\<lparr>sk_ch := tl (sk_ch (pc_sink p))\<rparr>"
  "pc_taken (take_event ps now p) = pc_taken p @ take 1 (sk_ch (pc_sink p))"
  "pc_world (take_event ps now p) =
     (pc_world p)\<lparr>sw_settler := foldl (Sink_handle ps now) (sw_settler (pc_world p)) (take 1 (sk_ch (pc_sink p)))\<rparr>"
  "pc_emitted (take_event ps now p) = pc_emitted p" "pc_lost (take_event ps now p) = pc_lost p"
  "pc_phase (take_event ps now p) = pc_phase p" "pc_open (take_event ps now p) = pc_open p"
  by (simp_all add: take_event_def Sink_loop_queue with_settler_def del: Sink_loop.simps)

lemma run_closer_fields:
  "pc_sink (run_closer ps now c p) = (if c = CloseSink then (pc_sink p)\<lparr>sk_ch := []\<rparr> else pc_sink p)"
  "pc_taken (run_closer ps now c p) = pc_taken p @ (if c = CloseSink then sk_ch (pc_sink p) else [])"
  "pc_world (run_closer ps now c p) = (pc_world p)\<lparr>sw_settler :=
     foldl (Sink_handle ps now) (sw_settler (pc_world p)) (if c = CloseSink then sk_ch (pc_sink p) else [])\<rparr>"
  "pc_emitted (run_closer ps now c p) = pc_emitted p" "pc_lost (run_closer ps now c p) = pc_lost p"
  "pc_open (run_closer ps now c p) \<longleftrightarrow> pc_open p \<and> c \<noteq> CloseStore"
  by (cases c; simp add: run_closer_def with_settler_def)+

lemma emit_event_fields [simp]:
  "pc_world (emit_event ev p) = pc_world p" "pc_taken (emit_event ev p) = pc_taken p"
  "pc_phase (emit_event ev p) = pc_phase p" "pc_open (emit_event ev p) = pc_open p"
  by (simp_all add: emit_event_def)

lemma events_ok_emit: "events_ok p \<Longrightarrow> events_ok (emit_event ev p)"
  by (auto simp: events_ok_def emit_event_def Sink_Emit_def)

lemma events_ok_take: "events_ok p \<Longrightarrow> events_ok (take_event ps now p)"
  by (cases "sk_ch (pc_sink p)") (auto simp: events_ok_def take_event_fields)

lemma events_ok_step: "proc_step ins pre pl p p' \<Longrightarrow> events_ok p \<Longrightarrow> events_ok p'"
proof (induction rule: proc_step.induct)
  case (serve p n ev)
  then show ?case by (intro events_ok_emit) (simp add: events_ok_def)
next
  case (consume p ps now)
  then show ?case by (simp add: events_ok_take)
qed (auto simp: events_ok_def run_closer_fields)

lemma phase_ok_step: "proc_step ins pre pl p p' \<Longrightarrow> phase_ok pl p \<Longrightarrow> phase_ok pl p'"
proof (induction rule: proc_step.induct)
  case (consume p ps now)
  then show ?case by (auto simp: phase_ok_def take_event_fields running_def split: phase.splits)
next
  case (close p c cs ps now)
  then obtain ds where "closing_order pl = ds @ c # cs" "CloseSink \<in> set ds \<longrightarrow> sk_ch (pc_sink p) = []" "pc_open p \<longleftrightarrow> CloseStore \<notin> set ds"
    by (auto simp: phase_ok_def)
  then show ?case by (auto simp: phase_ok_def run_closer_fields intro!: exI [of _ "ds @ [c]"])
qed (auto simp: phase_ok_def running_def main_end_def ListenAndServe_def split: phase.splits)

text \<open>While the pool is open and inserts succeed: what was handed to the settler is buffered or stored.\<close>

definition kept ::
  "(string \<Rightarrow> nat) \<Rightarrow> ('s \<Rightarrow> nat \<Rightarrow> string \<Rightarrow> Order option) \<Rightarrow> ('s \<Rightarrow> bool) \<Rightarrow> 's \<Rightarrow> ('s, 'r) proc \<Rightarrow> bool" where
  "kept slot look invar s0 p \<longleftrightarrow> (\<exists>H. run_ok slot look invar s0 H (pc_world p) \<and> all_kept slot look H (pc_world p) \<and>
     (\<forall>ev\<in>set (pc_taken p). ev_RequestID ev \<noteq> [] \<longrightarrow> (\<exists>ps. orderFromEvent ps ev \<in> H)))"

lemma exec_handles:
  "foldl (exec_action ins pre) W (map (DoHandle ps now) evs) = W\<lparr>sw_settler := foldl (Sink_handle ps now) (sw_settler W) evs\<rparr>"
  by (induction evs arbitrary: W) (simp_all add: exec_action_def Sink_handle_def)

lemma handled_handles: "set (handled (map (DoHandle ps now) evs)) = orderFromEvent ps ` {ev \<in> set evs. ev_RequestID ev \<noteq> []}"
  by (induction evs) auto

context order_store
begin

lemma kept_handles:
  assumes "kept slot look inv s0 p"
    and "pc_world p' = (pc_world p)\<lparr>sw_settler := foldl (Sink_handle ps now) (sw_settler (pc_world p)) evs\<rparr>" and "pc_taken p' = pc_taken p @ evs"
  shows "kept slot look inv s0 p'"
proof -
  from assms(1) obtain H where H: "run_ok slot look inv s0 H (pc_world p)" "all_kept slot look H (pc_world p)"
    "\<forall>ev\<in>set (pc_taken p). ev_RequestID ev \<noteq> [] \<longrightarrow> (\<exists>ps. orderFromEvent ps ev \<in> H)"
    by (auto simp: kept_def)
  from settler_run [OF H(1), of "map (DoHandle ps now) evs" None] H(2)
  have "run_ok slot look inv s0 (H \<union> orderFromEvent ps ` {ev \<in> set evs. ev_RequestID ev \<noteq> []}) (pc_world p')"
    "all_kept slot look (H \<union> orderFromEvent ps ` {ev \<in> set evs. ev_RequestID ev \<noteq> []}) (pc_world p')"
    by (simp_all add: exec_handles handled_handles assms(2))
  moreover have "\<exists>qs. orderFromEvent qs ev \<in> H \<union> orderFromEvent ps ` {ev \<in> set evs. ev_RequestID ev \<noteq> []}"
    if "ev \<in> set (pc_taken p')" "ev_RequestID ev \<noteq> []" for ev
    using that H(3) assms(3) by (cases "ev \<in> set evs") auto
  ultimately show ?thesis unfolding kept_def by blast
qed

lemma kept_step:
  assumes "proc_step insert pre pl p p'" and "pc_open p'" and "pc_open p \<Longrightarrow> kept slot look inv s0 p"
  shows "kept slot look inv s0 p'"
  using assms
proof (induction rule: proc_step.induct)
  case (consume p ps now)
  then have "kept slot look inv s0 p" by (simp add: take_event_fields)
  then show ?case by (rule kept_handles) (rule take_event_fields)+
next
  case (close p c cs ps now)
  then have "kept slot look inv s0 p" by (simp add: run_closer_fields)
  then show ?case 
    by (rule kept_handles [where ps = ps and now = now and evs = "if c = CloseSink then sk_ch (pc_sink p) else []"]) (simp_all add: run_closer_fields)
next
  case (wake p k w)
  then have "kept slot look inv s0 p" by simp
  then obtain H where H: "run_ok slot look inv s0 H (pc_world p)" "all_kept slot look H (pc_world p)"
    "\<forall>ev\<in>set (pc_taken p). ev_RequestID ev \<noteq> [] \<longrightarrow> (\<exists>ps. orderFromEvent ps ev \<in> H)"
    by (auto simp: kept_def)
  have "pool_insert insert True = insert" by (simp add: pool_insert_def fun_eq_iff)
  with exec_action_run [OF H(1), of "DoWake k w" pre] H(2) wake.hyps wake.prems(1) have
    "run_ok slot look inv s0 H (fst (flushLoop (pool_insert insert (pc_open p)) pre (pc_world p) k w))"
    "all_kept slot look H (fst (flushLoop (pool_insert insert (pc_open p)) pre (pc_world p) k w))"
    by (simp_all add: exec_action_def)
  with H(3) show ?case by (auto simp: kept_def)
qed (auto simp: kept_def)

lemma process_runs:
  assumes "(proc_step insert pre pl)\<^sup>*\<^sup>* (start_proc W) p" and "inv (sw_store W)" and "settler_ok (sw_settler W)"
    and "buffered_orders (sw_settler W) = []" and "sw_store_sched W = []"
  shows "events_ok p \<and> phase_ok pl p \<and> (pc_open p \<longrightarrow> kept slot look inv (sw_store W) p)"
  using assms(1)
proof (induction rule: rtranclp_induct)
  case base
  have "run_ok slot look inv (sw_store W) {} W \<and> all_kept slot look {} W" using assms by (simp add: run_ok_def all_kept_def)
  then show ?case by (auto simp: start_proc_def events_ok_def phase_ok_def kept_def NewSink_def)
next
  case (step p p')
  then show ?case
    using events_ok_step [OF step.hyps(2)] phase_ok_step [OF step.hyps(2)] kept_step [OF step.hyps(2)] by blast
qed

lemma kept_event:
  assumes "kept slot look inv s0 p" and "ev \<in> set (pc_taken p)" and "ev_RequestID ev \<noteq> []"
  shows "look (sw_store (pc_world p)) (slot (ev_UserID ev)) (ev_RequestID ev) \<noteq> None \<or>
    (\<exists>ps. orderFromEvent ps ev \<in> set (buffered_orders (sw_settler (pc_world p))))"
proof -
  from assms obtain H ps where "all_kept slot look H (pc_world p)" "orderFromEvent ps ev \<in> H" by (auto simp: kept_def)
  then show ?thesis by (force simp: all_kept_def)
qed

end

section \<open>Properties\<close>

lemma closing_sink: "CloseSink \<in> set (closing_order pl) \<longleftrightarrow> pl_store pl \<noteq> NoStore"
  by (auto simp: closing_order_def main_defers_def)

text \<open>Everything else is closed before the store.\<close>

lemma after_a_part: "xs @ ys = as @ bs \<Longrightarrow> x \<in> set xs \<Longrightarrow> x \<notin> set as \<Longrightarrow> set ys \<subseteq> set bs"
  by (auto simp: append_eq_append_conv2)

lemma store_closes_last:
  obtains as where "closing_order pl = as @ (if pl_store pl = Single then [CloseStore] else []) @ [StopSignals]" and "CloseStore \<notin> set as"
proof
  let ?as = "(if pl_admin pl then [ShutdownAdmin] else []) @ (if DetailTier \<in> set (pl_sinks pl) then [CloseDetail] else []) @
    (if Bus \<in> set (pl_sinks pl) then [CloseKafka] else []) @ (if pl_store pl \<noteq> NoStore then [CloseSink] else [])"
  show "closing_order pl = ?as @ (if pl_store pl = Single then [CloseStore] else []) @ [StopSignals]"
    by (simp add: closing_order_def main_defers_def)
  show "CloseStore \<notin> set ?as" by simp
qed

lemma sink_closes_before_store:
  assumes "closing_order pl = ds @ cs" and "CloseStore \<in> set ds"
  shows "CloseSink \<notin> set cs"
proof -
  obtain as where "closing_order pl = as @ (if pl_store pl = Single then [CloseStore] else []) @ [StopSignals]" "CloseStore \<notin> set as"
    by (rule store_closes_last)
  with assms have "set cs \<subseteq> set ((if pl_store pl = Single then [CloseStore] else []) @ [StopSignals])"
    by (intro after_a_part [of ds cs as _ CloseStore]) simp_all
  then show ?thesis by (auto split: if_splits)
qed

abbreviation fresh_world :: "nat \<Rightarrow> int \<Rightarrow> pg \<Rightarrow> 'r \<Rightarrow> sched \<Rightarrow> (pg, 'r) world" where
  "fresh_world cpus batch db rd gs \<equiv>
     \<lparr>sw_settler = NewSettler cpus batch, sw_store = db, sw_redis = rd, sw_store_sched = [], sw_redis_sched = gs\<rparr>"


lemma exited_is_final: "pc_phase p = Exited n \<Longrightarrow> \<not> proc_step ins pre pl p p'"
  by (auto simp: running_def elim: proc_stepE)

lemma closing_ends:
  assumes "pc_phase p = Closing cs"
  shows "\<exists>p'. (proc_step ins pre pl)\<^sup>*\<^sup>* p p' \<and> pc_phase p' = Exited 0 \<and> sw_store (pc_world p') = sw_store (pc_world p) \<and>
    pc_emitted p' = pc_emitted p \<and> pc_lost p' = pc_lost p"
  using assms
proof (induction cs arbitrary: p)
  case Nil
  then show ?case by (intro exI [of _ "p\<lparr>pc_phase := Exited 0\<rparr>"]) (auto intro: proc_step.leave)
next
  case (Cons c cs)
  let ?p = "(run_closer init_prices 0 c p)\<lparr>pc_phase := Closing cs\<rparr>"
  have step: "proc_step ins pre pl p ?p" using Cons.prems by (rule proc_step.close)
  obtain p' where "(proc_step ins pre pl)\<^sup>*\<^sup>* ?p p'" "pc_phase p' = Exited 0" "sw_store (pc_world p') = sw_store (pc_world ?p)"
    "pc_emitted p' = pc_emitted ?p" "pc_lost p' = pc_lost ?p"
    using Cons.IH [of ?p] by auto
  with step show ?case by (intro exI [of _ p']) (simp add: run_closer_fields converse_rtranclp_into_rtranclp)
qed

definition after_one_request :: "Event \<Rightarrow> nat \<Rightarrow> ('s, 'r) world \<Rightarrow> ('s, 'r) proc" where
  "after_one_request ev n W = (emit_event ev ((start_proc W)\<lparr>pc_active := n\<rparr>))\<lparr>pc_phase := Stopping\<rparr>"

lemma reach_after_one_request: "(proc_step ins pre pl)\<^sup>*\<^sup>* (start_proc W) (after_one_request ev n W)"
proof -
  have accepts: "(proc_step ins pre pl)\<^sup>*\<^sup>* (start_proc W) ((start_proc W)\<lparr>pc_active := m\<rparr>)" for m
  proof (induction m)
    case (Suc m)
    have "proc_step ins pre pl ((start_proc W)\<lparr>pc_active := m\<rparr>) ((start_proc W)\<lparr>pc_active := Suc m\<rparr>)"
      using proc_step.accept [of "(start_proc W)\<lparr>pc_active := m\<rparr>" ins pre pl] by (simp add: start_proc_def)
    with Suc show ?case by simp
  qed (simp add: start_proc_def)
  have "proc_step ins pre pl ((start_proc W)\<lparr>pc_active := Suc n\<rparr>) (emit_event ev ((start_proc W)\<lparr>pc_active := n\<rparr>))"
    using proc_step.serve [of "(start_proc W)\<lparr>pc_active := Suc n\<rparr>" n ins pre pl ev] by (simp add: start_proc_def)
  with accepts [of "Suc n"] have "(proc_step ins pre pl)\<^sup>*\<^sup>* (start_proc W) (emit_event ev ((start_proc W)\<lparr>pc_active := n\<rparr>))" by simp
  moreover have "proc_step ins pre pl (emit_event ev ((start_proc W)\<lparr>pc_active := n\<rparr>)) (after_one_request ev n W)"
    unfolding after_one_request_def by (rule proc_step.signal) (simp add: start_proc_def)
  ultimately show ?thesis by simp
qed

lemma after_one_request_fields:
  "pc_emitted (after_one_request ev n W) = [ev]" "pc_lost (after_one_request ev n W) = []" "pc_world (after_one_request ev n W) = W"
  "pc_phase (after_one_request ev n W) = Stopping" "pc_active (after_one_request ev n W) = n" "sk_ch (pc_sink (after_one_request ev n W)) = [ev]"
  by (simp_all add: after_one_request_def emit_event_def start_proc_def NewSink_def Sink_Emit_def)

text \<open>Theorem: An orderly shutdown can lose a bill. Whatever the event of a served request, the process can drain, run all its
  deferred calls and exit with status 0 without the order ever reaching the database, although the queue dropped nothing:
  main closes the sink but not the settler behind it, and exits while the settler still buffers.\<close>

theorem shutdown_loses_buffered_orders:
  "\<exists>p. (proc_step ins pre pl)\<^sup>*\<^sup>* (start_proc W) p \<and> pc_phase p = Exited 0 \<and> pc_emitted p = [ev] \<and> pc_lost p = [] \<and>
     sw_store (pc_world p) = sw_store W \<and> (\<forall>p'. \<not> proc_step ins pre pl p p')"
proof -
  let ?p = "after_one_request ev 0 W"
  let ?q = "?p\<lparr>pc_phase := Closing (closing_order pl)\<rparr>"
  have "proc_step ins pre pl ?p ?q"
    using proc_step.drained [of ?p ins pre pl] by (simp add: after_one_request_fields main_end_def ListenAndServe_def)
  moreover obtain p where "(proc_step ins pre pl)\<^sup>*\<^sup>* ?q p" "pc_phase p = Exited 0" "sw_store (pc_world p) = sw_store W"
    "pc_emitted p = [ev]" "pc_lost p = []"
    using closing_ends [of ?q "closing_order pl" ins pre pl] by (auto simp: after_one_request_fields)
  ultimately show ?thesis
    using reach_after_one_request [of ins pre pl W ev 0] exited_is_final [of p 0 ins pre pl]
    by (intro exI [of _ p]) (auto intro: rtranclp_trans converse_rtranclp_into_rtranclp)
qed

text \<open>Theorem: A shutdown that takes too long loses what is queued. While one request is still active when the time limit
  of the shutdown is over, the process exits with status 1, without its deferred calls: the events of the
  requests that were answered before stay in the queue.\<close>

theorem slow_shutdown_loses_the_queue:
  "\<exists>p. (proc_step ins pre pl)\<^sup>*\<^sup>* (start_proc W) p \<and> pc_phase p = Exited 1 \<and> pc_emitted p = [ev] \<and> sk_ch (pc_sink p) = [ev] \<and>
     sw_store (pc_world p) = sw_store W \<and> (\<forall>p'. \<not> proc_step ins pre pl p p')"
proof -
  let ?p = "after_one_request ev 1 W"
  let ?q = "?p\<lparr>pc_phase := Exited 1\<rparr>"
  have "proc_step ins pre pl ?p ?q"
    using proc_step.drain_timeout [of ?p ins pre pl] by (simp add: after_one_request_fields main_end_def ListenAndServe_def)
  then show ?thesis
    using reach_after_one_request [of ins pre pl W ev 1] exited_is_final [of ?q 1 ins pre pl]
    by (intro exI [of _ ?q]) (auto simp: after_one_request_fields)
qed


end
