(* ===== verification/Connect.thy ===== *)
theory Connect
  imports Wiring
begin

text \<open>
  Opening the databases: the ledger boundary (\<open>internal/ledger\<close>), the constructors of the order store and of the account
  service, and the part of \<open>main\<close> that opens one store or all shards. The pool library is a parameter; the locale
  \<open>pgx\<close> states its documented behaviour: which pools are open, and which statements a pool has executed.
\<close>

section \<open>The pool library\<close>

record 'w pgxpool =
  px_New :: "string \<Rightarrow> 'w \<Rightarrow> 'w \<times> (go_error + nat)"
  px_Ping :: "nat \<Rightarrow> 'w \<Rightarrow> 'w \<times> go_error option"
  px_Exec :: "nat \<Rightarrow> string \<Rightarrow> 'w \<Rightarrow> 'w \<times> go_error option"
  px_Close :: "nat \<Rightarrow> 'w \<Rightarrow> 'w"

locale pgx =
  fixes px :: "'w pgxpool" and opened :: "'w \<Rightarrow> nat set" and executed :: "'w \<Rightarrow> nat \<Rightarrow> string list"
  assumes New_ok: "px_New px dsn w = (w', Inr p) \<Longrightarrow> p \<notin> opened w \<and> opened w' = Set.insert p (opened w)"
    and New_fails: "px_New px dsn w = (w', Inl e) \<Longrightarrow> opened w' = opened w"
    and New_executed: "px_New px dsn w = (w', res) \<Longrightarrow> q \<in> opened w \<Longrightarrow> executed w' q = executed w q"
    and Ping_keeps: "px_Ping px p w = (w', r) \<Longrightarrow> opened w' = opened w \<and> executed w' = executed w"
    and Exec_opened: "px_Exec px p s w = (w', r) \<Longrightarrow> opened w' = opened w"
    and Exec_ok: "px_Exec px p s w = (w', None) \<Longrightarrow> executed w' = (executed w)(p := executed w p @ [s])"
    and Exec_fails: "px_Exec px p s w = (w', Some e) \<Longrightarrow> executed w' = executed w"
    and Close_opened: "opened (px_Close px p w) = opened w - {p}"
    and Close_executed: "q \<noteq> p \<Longrightarrow> executed (px_Close px p w) q = executed w q"

section \<open>The constructors\<close>

definition SchemaSQL :: "string \<Rightarrow> go_error + string" where
  "SchemaSQL schemaSQL = (if schemaSQL = [] then Inl ErrService else Inr schemaSQL)"

definition applySchema :: "'w pgxpool \<Rightarrow> string \<Rightarrow> nat \<Rightarrow> 'w \<Rightarrow> 'w \<times> go_error option" where
  "applySchema px schemaSQL pool w =
     (case SchemaSQL schemaSQL of Inl e \<Rightarrow> (w, Some e) | Inr schema \<Rightarrow> px_Exec px pool schema w)"

definition NewPostgresOrderStore :: "'w pgxpool \<Rightarrow> string \<Rightarrow> string \<Rightarrow> 'w \<Rightarrow> 'w \<times> (go_error + nat)" where
  "NewPostgresOrderStore px schemaSQL dsn w =
     (case px_New px dsn w of
        (w, Inl e) \<Rightarrow> (w, Inl e)
      | (w, Inr pool) \<Rightarrow>
          (case px_Ping px pool w of
             (w, Some e) \<Rightarrow> (px_Close px pool w, Inl e)
           | (w, None) \<Rightarrow>
               (case applySchema px schemaSQL pool w of
                  (w, Some e) \<Rightarrow> (px_Close px pool w, Inl e)
                | (w, None) \<Rightarrow> (w, Inr pool))))"

text \<open>The adapter embeds the store: its methods are those of the store.\<close>

definition NewPostgresAdapter :: "'w pgxpool \<Rightarrow> string \<Rightarrow> string \<Rightarrow> 'w \<Rightarrow> 'w \<times> (go_error + nat)" where
  "NewPostgresAdapter px schemaSQL dsn w =
     (case NewPostgresOrderStore px schemaSQL dsn w of (w, Inl e) \<Rightarrow> (w, Inl e) | (w, Inr store) \<Rightarrow> (w, Inr store))"

definition NewService :: "'w pgxpool \<Rightarrow> string \<Rightarrow> string \<Rightarrow> 'w \<Rightarrow> 'w \<times> (go_error + nat)" where
  "NewService px commercialSchema dsn w =
     (case px_New px dsn w of
        (w, Inl e) \<Rightarrow> (w, Inl e)
      | (w, Inr pool) \<Rightarrow>
          (case px_Ping px pool w of
             (w, Some e) \<Rightarrow> (px_Close px pool w, Inl e)
           | (w, None) \<Rightarrow>
               (case px_Exec px pool commercialSchema w of
                  (w, Some e) \<Rightarrow> (px_Close px pool w, Inl e)
                | (w, None) \<Rightarrow> (w, Inr pool))))"

text \<open>The loop of \<open>main\<close> over the shards, and closing a sharded store.\<close>

fun open_shards :: "'w pgxpool \<Rightarrow> string \<Rightarrow> environ \<Rightarrow> nat \<Rightarrow> nat \<Rightarrow> 'w \<Rightarrow> 'w \<times> (startup_error + nat list)" where
  "open_shards px schema getenv i 0 w = (w, Inr [])"
| "open_shards px schema getenv i (Suc n) w =
     (let dsn = getenv (''METERGATE_PG_DSN_'' @ Sprintf_d (int i)) in
      if dsn = [] then (w, Inl (MissingShardDSN i))
      else case NewPostgresAdapter px schema dsn w of
             (w, Inl e) \<Rightarrow> (w, Inl (ShardDown i))
           | (w, Inr p) \<Rightarrow>
               (case open_shards px schema getenv (Suc i) n w of
                  (w, Inl e) \<Rightarrow> (w, Inl e)
                | (w, Inr ps) \<Rightarrow> (w, Inr (p # ps))))"

definition Sharded_Close :: "'w pgxpool \<Rightarrow> nat list \<Rightarrow> 'w \<Rightarrow> 'w" where
  "Sharded_Close px shards w = foldl (\<lambda>w p. px_Close px p w) w shards"

section \<open>No pool is lost\<close>

context pgx
begin

text \<open>What a constructor promises: an error leaves no pool behind, and a store has a new pool with its schema.\<close>

lemma connect_spec:
  assumes "px_New px dsn w = (w1, Inr pool)" and "px_Ping px pool w1 = (w2, None)" and "px_Exec px pool schema w2 = (w', None)"
  shows "pool \<notin> opened w" "opened w' = Set.insert pool (opened w)" "schema \<in> set (executed w' pool)"
    "\<forall>q\<in>opened w. executed w' q = executed w q"
  using New_ok [OF assms(1)] New_executed [OF assms(1)] Ping_keeps [OF assms(2)] Exec_opened [OF assms(3)] Exec_ok [OF assms(3)] by auto

lemma NewPostgresOrderStore_ok:
  assumes "NewPostgresOrderStore px schema dsn w = (w', Inr pool)"
  shows "pool \<notin> opened w \<and> opened w' = Set.insert pool (opened w) \<and> schema \<in> set (executed w' pool) \<and>
    (\<forall>q\<in>opened w. executed w' q = executed w q) \<and> schema \<noteq> []"
proof -
  from assms obtain w1 w2 where c: "px_New px dsn w = (w1, Inr pool)" "px_Ping px pool w1 = (w2, None)" "px_Exec px pool schema w2 = (w', None)"
    "schema \<noteq> []"
    by (auto simp: NewPostgresOrderStore_def applySchema_def SchemaSQL_def split: prod.splits sum.splits option.splits if_splits)
  then show ?thesis using connect_spec [OF c(1-3)] by simp
qed

lemma NewPostgresOrderStore_fails: "NewPostgresOrderStore px schema dsn w = (w', Inl e) \<Longrightarrow> opened w' = opened w"
  by (auto simp: NewPostgresOrderStore_def applySchema_def SchemaSQL_def Close_opened
      split: prod.splits sum.splits option.splits if_splits dest!: New_ok New_fails Ping_keeps Exec_opened)

lemma NewService_ok:
  assumes "NewService px schema dsn w = (w', Inr pool)"
  shows "pool \<notin> opened w \<and> opened w' = Set.insert pool (opened w) \<and> schema \<in> set (executed w' pool)"
proof -
  from assms obtain w1 w2 where c: "px_New px dsn w = (w1, Inr pool)" "px_Ping px pool w1 = (w2, None)" "px_Exec px pool schema w2 = (w', None)"
    by (auto simp: NewService_def split: prod.splits sum.splits option.splits)
  then show ?thesis using connect_spec [OF c(1-3)] by simp
qed

lemma NewService_fails: "NewService px schema dsn w = (w', Inl e) \<Longrightarrow> opened w' = opened w"
  by (auto simp: NewService_def Close_opened split: prod.splits sum.splits option.splits dest!: New_ok New_fails Ping_keeps Exec_opened)

lemma NewPostgresAdapter_store: "NewPostgresAdapter px schema dsn w = NewPostgresOrderStore px schema dsn w"
  by (simp add: NewPostgresAdapter_def split: prod.split sum.split)

lemma open_shards_ok:
  "open_shards px schema getenv i n w = (w', Inr ps) \<Longrightarrow>
     length ps = n \<and> distinct ps \<and> set ps \<inter> opened w = {} \<and> opened w' = opened w \<union> set ps \<and>
     (\<forall>p\<in>set ps. schema \<in> set (executed w' p)) \<and> (\<forall>q\<in>opened w. executed w' q = executed w q)"
proof (induction n arbitrary: i w w' ps)
  case (Suc n)
  from Suc.prems obtain p w1 qs where p: "NewPostgresOrderStore px schema (getenv (''METERGATE_PG_DSN_'' @ Sprintf_d (int i))) w = (w1, Inr p)"
    and qs: "open_shards px schema getenv (Suc i) n w1 = (w', Inr qs)" "ps = p # qs"
    by (auto simp: NewPostgresAdapter_store Let_def split: if_splits prod.splits sum.splits)
  from NewPostgresOrderStore_ok [OF p] Suc.IH [OF qs(1)] qs(2) show ?case by auto
qed simp

lemma Sharded_Close_opened: "opened (Sharded_Close px ps w) = opened w - set ps"
  by (induction ps arbitrary: w) (auto simp: Sharded_Close_def Close_opened)

end

text \<open>A world of pools as a table: databases that are down, the pools opened so far with the statements they ran.\<close>

record pool_table =
  pt_down :: "string list"
  pt_next :: nat
  pt_open :: "nat list"
  pt_log :: "(nat \<times> string) list"

definition table_pools :: "pool_table pgxpool" where
  "table_pools =
     \<lparr>px_New = (\<lambda>dsn w. if dsn \<in> set (pt_down w) then (w, Inl ErrService)
        else (w\<lparr>pt_next := Suc (Max (Set.insert (pt_next w) (set (pt_open w)))), pt_open := Suc (Max (Set.insert (pt_next w) (set (pt_open w)))) # pt_open w\<rparr>,
              Inr (Suc (Max (Set.insert (pt_next w) (set (pt_open w))))))),
      px_Ping = (\<lambda>p w. (w, if p \<in> set (pt_open w) then None else Some ErrService)),
      px_Exec = (\<lambda>p s w. if p \<in> set (pt_open w) then (w\<lparr>pt_log := pt_log w @ [(p, s)]\<rparr>, None) else (w, Some ErrService)),
      px_Close = (\<lambda>p w. w\<lparr>pt_open := filter (\<lambda>q. q \<noteq> p) (pt_open w)\<rparr>)\<rparr>"

definition table_opened :: "pool_table \<Rightarrow> nat set" where
  "table_opened w = set (pt_open w)"

definition table_executed :: "pool_table \<Rightarrow> nat \<Rightarrow> string list" where
  "table_executed w p = map snd (filter (\<lambda>x. fst x = p) (pt_log w))"

lemma fresh_pool: "Suc (Max (Set.insert n (set ps))) \<notin> set ps"
  by (metis List.finite_set Max_ge Suc_n_not_le_n finite.insertI insertI2)

interpretation table_pgx: pgx table_pools table_opened table_executed
  by unfold_locales
     (auto simp: table_pools_def table_opened_def table_executed_def fresh_pool fun_eq_iff split: if_splits)

text \<open>C31: Connecting leaks no pool. When a constructor of the order store or of the account service fails, at any of its steps, exactly the
  pools that were open before are open after; when it succeeds there is one new pool, which has executed the schema.
  Opening n shards gives n different new pools, each with the schema, and closing the sharded store closes exactly these.\<close>

theorem connecting_leaks_no_pool:
  assumes "pgx px opened executed"
  shows "(NewPostgresAdapter px schema dsn w = (w', Inl e) \<longrightarrow> opened w' = opened w) \<and>
    (NewPostgresAdapter px schema dsn w = (w', Inr p) \<longrightarrow> p \<notin> opened w \<and> opened w' = Set.insert p (opened w) \<and> schema \<in> set (executed w' p)) \<and>
    (NewService px schema dsn w = (w', Inl e) \<longrightarrow> opened w' = opened w) \<and>
    (NewService px schema dsn w = (w', Inr p) \<longrightarrow> p \<notin> opened w \<and> opened w' = Set.insert p (opened w) \<and> schema \<in> set (executed w' p)) \<and>
    (open_shards px schema getenv i n w = (w', Inr ps) \<longrightarrow> length ps = n \<and> distinct ps \<and> opened w' = opened w \<union> set ps \<and>
      (\<forall>p\<in>set ps. p \<notin> opened w \<and> schema \<in> set (executed w' p)) \<and> opened (Sharded_Close px ps w') = opened w)"
proof -
  note spec = pgx.NewPostgresOrderStore_ok [OF assms] pgx.NewPostgresOrderStore_fails [OF assms] pgx.NewService_ok [OF assms]
    pgx.NewService_fails [OF assms] pgx.NewPostgresAdapter_store [OF assms]
  have "length ps = n \<and> distinct ps \<and> opened w' = opened w \<union> set ps \<and>
      (\<forall>p\<in>set ps. p \<notin> opened w \<and> schema \<in> set (executed w' p)) \<and> opened (Sharded_Close px ps w') = opened w"
    if "open_shards px schema getenv i n w = (w', Inr ps)"
    using pgx.open_shards_ok [OF assms that] pgx.Sharded_Close_opened [OF assms, of ps w'] by auto
  then show ?thesis by (auto simp: spec(5) dest: spec(1-4))
qed

theorem connecting_leaks_no_pool_witness:
  "let w = \<lparr>pt_down = [''b''], pt_next = 0, pt_open = [], pt_log = []\<rparr>; w' = fst (NewPostgresAdapter table_pools ''s'' ''a'' w)
   in snd (NewPostgresAdapter table_pools ''s'' ''a'' w) = Inr 1 \<and> table_opened w' = {1} \<and> ''s'' \<in> set (table_executed w' 1)"
proof -
  let ?w = "\<lparr>pt_down = [''b''], pt_next = 0, pt_open = [], pt_log = []\<rparr>"
  have r: "NewPostgresAdapter table_pools ''s'' ''a'' ?w = (fst (NewPostgresAdapter table_pools ''s'' ''a'' ?w), Inr 1)" by code_simp
  have "table_opened ?w = {}" by (simp add: table_opened_def)
  with r connecting_leaks_no_pool [OF table_pgx.pgx_axioms, where schema = "''s''" and dsn = "''a''" and w = ?w and p = 1 and
      w' = "fst (NewPostgresAdapter table_pools ''s'' ''a'' ?w)"]
  show ?thesis by (metis insert_not_empty snd_conv)
qed

end
