(* ===== verification/Spec2Isabelle.thy ===== *)
theory Spec2Isabelle
  imports Kafka_Consumer Mock_Idp Metrics Lifecycle Connect
begin

text \<open>
  MeterGate is a gateway in front of LLM providers that meters and bills every request. This
  development models its billing core, its request path, its background jobs, its account service,
  both of its HTTP APIs and the way the process connects them, and proves the properties that make
  them correct. File names below are relative to \<open>src/\<close>.

  \<^bold>\<open>The program.\<close> A request enters \<open>internal/gateway/server.go\<close>, passes metrics and API-key
  authentication and reaches \<open>handleChat\<close> (\<open>handler.go\<close>). The rate limiter
  (\<open>cmd/metergate/keylimiter.go\<close> over \<open>internal/ratelimit\<close>) and the reservation of an estimate
  in Redis (\<open>internal/billing/precharge.go\<close>) admit it; an upstream, a single HTTP client or the
  router of \<open>internal/router\<close>, answers it; an accumulator of \<open>internal/metering\<close> counts the
  tokens; one metering event goes to a sink. On the settlement track the event reaches the
  settler (\<open>internal/billing/settle.go\<close>) through an in-process queue (\<open>sink.go\<close>) or Kafka
  (\<open>kafka.go\<close>, \<open>kafkaconsumer.go\<close>), becomes an order row in Postgres (\<open>postgres.go\<close>, possibly
  sharded, \<open>sharded.go\<close>) and releases the reservation. Reconciliation
  (\<open>internal/reconciliation\<close>) checks a day and refunds mistakes; \<open>internal/payment\<close> tops balances
  up; \<open>internal/auth\<close> keeps users, keys, sessions and the budget chain. Merchants use
  \<open>internal/portal\<close>, operators \<open>internal/admin\<close>; \<open>cmd/metergate/main.go\<close> decides from the
  environment which of these parts run and hands each the functions it calls.

  \<^bold>\<open>Theories.\<close> Each theory follows the order of the code, keeps the names of the source and opens
  with a note on its own modelling choices.
  \<^item> \<open>Prelude\<close>: 64-bit signed arithmetic, Go errors, the outcome of a call to a service
    (\<open>fault\<close>: it works, fails before the effect, or fails after it) and generic lemmas.
    \<open>Decimal\<close>: the hand-written integer formatters and request ids.
  \<^item> \<open>Pricing\<close>: price and cost tables, charge and estimate at 64 bits.
  \<^item> \<open>Redis_Api\<close> with the locale \<open>redis_kv\<close>: the Redis commands the scripts use and their
    laws, interpreted on an in-memory store. \<open>Precharge\<close>: both Lua scripts and every operation
    of the precharger, refined to an abstract wallet of balances, frozen sums and reservations.
  \<^item> \<open>Order_Store\<close> with the locale \<open>order_store\<close>: the SQL statements over lists of rows;
    \<open>Sharded_Store\<close>: the fan-out over shards, and a second interpretation of the locale.
  \<^item> \<open>Metering\<close>: the token estimator over UTF-8 bytes, the streaming accumulator.
  \<^item> \<open>Settler\<close>: event to order, shards, flush triggers, flush, the event queue.
    \<open>Kafka_Consumer\<close>: the producer and the consumer loop, as a step relation with crashes.
  \<^item> \<open>Detail_Sink\<close> with the locale \<open>clickhouse\<close>: the per-request detail rows.
  \<^item> \<open>Reconciliation\<close>, \<open>Payment\<close>: the daily job with automatic refunds, and recharges.
  \<^item> \<open>Rate_Limit\<close> with the locale \<open>redis_limits\<close>: the sliding-window script, concurrency
    slots, the six budget layers, the quota sampler.
  \<^item> \<open>Floats\<close> with the locale \<open>float_rounding\<close>: what is used of double precision, interpreted on
    exact arithmetic and on rounding to 53 bits. \<open>Routing\<close>: circuit breaker, health window,
    weighted selection, failover. \<open>Auto_Router\<close>: the automatic model picker and the configuration checks.
  \<^item> \<open>Sse\<close>: the stream reader and the delta scanner over bytes. \<open>Gateway\<close> with the locale
    \<open>upstream_contract\<close> (interpreted on the HTTP and the routing upstream): the handler, the
    middleware chain, the composite sink.
  \<^item> \<open>Auth_Store\<close>: users, teams, projects, organisations and API keys. \<open>Key_Cache\<close>: the cache in
    front of the keys, with concurrent lookups as a step relation. \<open>Identity\<close>: session tokens and
    single sign-on. \<open>Org_Tree\<close>: the account tree assembled from five queries, the quota scopes.
  \<^item> \<open>Portal\<close>, \<open>Admin\<close>: every endpoint of the two APIs with its guards, route table and
    middleware, over the databases of the theories above.
  \<^item> \<open>Reconcile_Cmd\<close>: the reconciliation command with its exit code. \<open>Mock_Idp\<close>: the identity provider the
    repository brings for tests (\<open>deploy/dex/mock-oidc\<close>), and the sign-on through it.
  \<^item> \<open>Wiring\<close>: which parts start in which environment, the options of the server and the functions
    main passes from one part to another. \<open>Gauges\<close>: the gauge collector (\<open>internal/obs/collector.go\<close>) with
    the providers main gives it, and the loop of the quota monitor.
  \<^item> \<open>Metrics\<close> with the locale \<open>prometheus\<close>: every metric of \<open>internal/obs/metrics.go\<close> and the statements
    that update them. \<open>Connect\<close> with the locale \<open>pgx\<close>: opening and closing of the database pools, behind the
    boundary of \<open>internal/ledger\<close>. \<open>Lifecycle\<close>: serving and shutting down, as a step relation in which
    requests, the queue consumer and the flushers run beside the deferred calls of main.
  \<^item> This theory: the properties that span both billing tracks.

  \<^bold>\<open>State and effects.\<close> Structs are records, enums datatypes, tables lists of rows in insertion
  order. A stateful operation takes and returns its state. A call that may fail returns
  \<open>go_error + 'a\<close>. Every call to Redis or Postgres takes a scheduled outcome from a list of
  \<open>fault\<close>s, so that the theorems cover the error paths; an empty schedule means that the
  services answer. Goroutines that drain buffers (the flush loops, the Kafka consumer) are step
  relations; parallel flushes are flushes in an arbitrary order. Go's \<open>int64\<close> is an \<open>int\<close> with
  \<open>wrap64\<close> written out; Redis integers are checked for overflow as Redis does.

  \<^bold>\<open>Parameters.\<close> Code outside the repository is an argument with named laws: Redis and its
  number rounding in Lua (\<open>redis_kv\<close>, \<open>redis_limits\<close>), the clock, the random source, the HTTP
  client, JSON and YAML decoding, bcrypt, SHA-256, HMAC and the token library, the identity
  provider, ClickHouse (\<open>clickhouse\<close>), the metrics client (\<open>prometheus\<close>), connection pools (\<open>pgx\<close>), floating point where only monotonicity and exactness of small
  integers matter (\<open>float_rounding\<close>). Every locale is interpreted on a concrete instance, and every property
  with a hypothesis has a witness at a concrete input.

  \<^bold>\<open>What the lemmas show.\<close> Money: one request changes the balance by exactly its bill, scripts
  refine the wallet, money is conserved, balances stay nonnegative, the frozen sum is the sum of
  the reservations, refunds and recharges are credited at most once. Records: each request id is
  stored once, the settler and the consumer lose nothing while the store answers, the balance
  is the replay of the ledger, sharding does not change a summary. Traffic: quotas and
  concurrency limits hold, retry hints suffice, the router ends at the first final answer and
  keeps every channel, unauthenticated requests have no effect, each forwarded request emits one
  event, the stream reader ends. Accounts: the tables stay consistent, a revoked key stops working
  within the time to live of the cache, the combined query of the budget chain is the separate
  ones, the tree is the hierarchy of the tables, sessions last a day and act for their user only,
  policy needs the administrator's key, the started gateway refuses unknown keys. Across parts: every
  event is settled on one path, a payment in the portal funds requests at the gateway, signing on with the test provider opens a
  session, a clean exit of the reconciliation vouches for its day, the gauges show the state and the
  pre-charge counters are exact, connecting leaks no pool, and events survive until the pool closes, apart from what the
  settler still buffers. Where the code does not do what its comments say, a theorem states what it does.

  \<^bold>\<open>Bounds.\<close> Hypotheses of the form \<open>small x\<close> bound an amount below the point where Lua's
  doubles or \<open>int64\<close> would round or wrap (2 to the 53 micro-units). No definition uses fuel: loops
  recurse on their data, and the endless background loops are step relations.

  \<^bold>\<open>Not modelled.\<close> Sockets and signals themselves (they are steps of the environment), log messages and levels, the
  buckets of histograms, the bytes of JSON answers, static files, the client side of the provider's discovery,
  constructors that only store their arguments, interface declarations, type declarations and helpers that no code
  calls (most of \<open>pkg/openai/types.go\<close>, \<open>requestSSE\<close>), load generators and the web front end: they are I/O and glue over
  the operations modelled here.
\<close>

section \<open>The life of one request across both tracks\<close>

lemma flush_empty: "sh_buf (st_shards (sw_settler W) ! k) = [] \<Longrightarrow> flush ins pre W k = W"
  by (simp add: flush_def)

lemma foldl_flush_single:
  assumes "distinct ks" and "k \<in> set ks"
    and "\<And>j. j \<in> set ks \<Longrightarrow> j \<noteq> k \<Longrightarrow> j < length (st_shards (sw_settler W)) \<and> sh_buf (st_shards (sw_settler W) ! j) = []"
  shows "foldl (flush ins pre) W ks = flush ins pre W k"
proof -
  have none: "foldl (flush ins pre) V js = V" if "\<And>j. j \<in> set js \<Longrightarrow> sh_buf (st_shards (sw_settler V) ! j) = []" for V js
    using that by (induction js) (simp_all add: flush_empty)
  obtain as bs where ks: "ks = as @ k # bs" using assms(2) by (meson split_list)
  have "foldl (flush ins pre) W as = W"
    using assms(1,3) ks by (intro none) auto
  moreover have "foldl (flush ins pre) (flush ins pre W k) bs = flush ins pre W k"
  proof (rule none)
    fix j assume "j \<in> set bs"
    then have "j \<noteq> k" "j \<in> set ks" using assms(1) ks by auto
    with assms(3) [of j] show "sh_buf (st_shards (sw_settler (flush ins pre W k)) ! j) = []"
      by (simp add: flush_settler cleared_buf)
  qed
  ultimately show ?thesis by (simp add: ks)
qed

lemma handled_alone:
  assumes "ev_RequestID ev \<noteq> []" and "S = fst (Handle ps now (NewSettler cpus batch) ev)"
  defines "k \<equiv> shardIndex (ev_RequestID ev) (length (st_shards (NewSettler cpus batch)))"
  shows "length (st_shards S) = length (st_shards (NewSettler cpus batch)) \<and> k < length (st_shards S) \<and>
    sh_buf (st_shards S ! k) = [orderFromEvent ps ev] \<and> sh_pending (st_shards S ! k) = [ev] \<and>
    (\<forall>j<length (st_shards S). j \<noteq> k \<longrightarrow> sh_buf (st_shards S ! j) = [])"
proof -
  let ?N = "NewSettler cpus batch"
  have k: "k < length (st_shards ?N)"
    using settler_ok_new [of cpus batch] by (simp add: k_def settler_ok_def shardIndex_less)
  have new: "j < length (st_shards ?N) \<Longrightarrow> st_shards ?N ! j = new_shard" for j
    by (simp add: NewSettler_def Let_def)
  show ?thesis
    using assms(1) k new
    by (auto simp: assms(2) Handle_def Let_def k_def [symmetric] new_shard_def signalFlush_def)
qed

text \<open>C1: A request costs exactly its bill, on both tracks. A request that reserves an
affordable estimate, is metered and is settled (both services answering, its id not billed
before) leaves one order row with the amount of its event, and in Redis the user's balance
lower by that amount, the frozen amount as it was and no reservation: the estimate has no
influence on the final balance, and a failed request is free.\<close>

theorem request_costs_its_bill:
  assumes "redis_kv R" and "pg_ok db" and "0 < a" and "a \<le> get0 R s (balKey u)"
    and "touch_small (wallet_of R s) u (ev_RequestID ev) a"
    and "0 \<le> get0 R s (frozenKey u)" and "small (get0 R s (frozenKey u) + a)"
    and "ev_UserID ev = u" and "ev_RequestID ev \<noteq> []"
    and "find_order (ev_RequestID ev) (rows_of db) = None"
    and ord: "ord = orderFromEvent ps ev" and "small (o_AmountMicros ord)"
    and s1: "(s1, r1) = PreCharge R NoFault s u (ev_RequestID ev) a"
    and S: "(S, r2) = Handle ps now (NewSettler cpus batch) ev"
    and W': "(W', r3) = FlushSync (InsertOrders clock) (Some R) prio None
       \<lparr>sw_settler = S, sw_store = db, sw_redis = s1, sw_store_sched = [], sw_redis_sched = []\<rparr>"
  shows "r1 = Inr () \<and> r2 = Inr () \<and> r3 = Inr () \<and>
    rows_of (sw_store W') = rows_of db @ [erase ord] \<and>
    get0 R (sw_redis W') (balKey u) = get0 R s (balKey u) - order_charge ord \<and>
    get0 R (sw_redis W') (frozenKey u) = get0 R s (frozenKey u) \<and>
    r_get R (sw_redis W') (preKey (ev_RequestID ev)) = None"
proof -
  let ?w = "wallet_of R s" and ?rid = "ev_RequestID ev"
  let ?W = "\<lparr>sw_settler = S, sw_store = db, sw_redis = s1, sw_store_sched = [], sw_redis_sched = []\<rparr>"
  define k where "k = shardIndex ?rid (length (st_shards (NewSettler cpus batch)))"
  have S1: "S = fst (Handle ps now (NewSettler cpus batch) ev)" and r2: "r2 = Inr ()"
    using S assms(9) by (simp_all add: Handle_def Let_def split: if_splits)
  note alone = handled_alone [OF assms(9) S1, folded k_def]
  have w1: "wallet_of R s1 = spec_PreCharge ?w u ?rid a" and r1: "r1 = Inr ()"
    using redis_kv.PreCharge_refines [OF assms(1,5)] s1 assms(3,4) by (simp_all add: prod_eq_iff)
  have W'1: "W' = flush (InsertOrders clock) (Some R) ?W k" and r3: "r3 = Inr ()"
    using W' alone foldl_flush_single [of "map_range prio [0..<length (st_shards S)]" k ?W]
    by (simp_all add: FlushSync_def map_range_set map_range_distinct)
  obtain db' where ins: "InsertOrders clock [] db [ord] = (db', Inr (), [])"
    using pgs.insert_available [OF assms(2)] by blast
  have rows: "rows_of (sw_store W') = rows_of db @ [erase ord]"
    using InsertOrders_effect [OF ins] assms(10) alone ins
    by (auto simp: W'1 flush_store ord find_order_None)
  have rd: "sw_redis W' = fst (BatchSettle R [] s1 [settle_req ord ev])"
    using flush_redis [of ?W k "InsertOrders clock" db' "[]" R] alone ins by (simp add: W'1 ord)
  have small: "batch_small (wallet_of R s1) [settle_req ord ev]"
    using assms(3-8,12) by (auto simp: w1 spec_PreCharge_def touch_small_def small_def settle_req_def)
  have "wallet_of R (sw_redis W') = spec_req (spec_PreCharge ?w u ?rid a) (settle_req ord ev)"
    using redis_kv.BatchSettle_refines [OF assms(1) small] rd w1 by simp
  then have w2: "w_bal (wallet_of R (sw_redis W')) u = get0 R s (balKey u) - order_charge ord"
    "w_frozen (wallet_of R (sw_redis W')) u = get0 R s (frozenKey u)"
    "w_marker (wallet_of R (sw_redis W')) ?rid = None"
    using assms(3,4,8) by (auto simp: spec_req_def spec_PreCharge_def spec_Settle_def settle_req_def order_charge_def)
  show ?thesis using r1 r2 r3 rows w2 by simp
qed

theorem request_costs_its_bill_witness:
  "\<exists>W' s1 S. PreCharge mem_redis NoFault [(balKey ''u'', 90000)] ''u'' ''r1'' 20000 = (s1, Inr ()) \<and>
     Handle init_prices 3 (NewSettler 8 500) (sample_event ''r1'' ''u'' StatusCompleted) = (S, Inr ()) \<and>
     FlushSync (InsertOrders (\<lambda>_. 7)) (Some mem_redis) [] None
       \<lparr>sw_settler = S, sw_store = empty_pg, sw_redis = s1, sw_store_sched = [], sw_redis_sched = []\<rparr> = (W', Inr ()) \<and>
     get0 mem_redis (sw_redis W') (balKey ''u'') = 90000 - 7000"
proof -
  let ?ev = "sample_event ''r1'' ''u'' StatusCompleted"
  obtain s1 r1 where 1: "PreCharge mem_redis NoFault [(balKey ''u'', 90000)] ''u'' ''r1'' 20000 = (s1, r1)" by fastforce
  obtain S r2 where 2: "Handle init_prices 3 (NewSettler 8 500) ?ev = (S, r2)" by fastforce
  obtain W' r3 where 3: "FlushSync (InsertOrders (\<lambda>_. 7)) (Some mem_redis) [] None
     \<lparr>sw_settler = S, sw_store = empty_pg, sw_redis = s1, sw_store_sched = [], sw_redis_sched = []\<rparr> = (W', r3)" by fastforce
  have amt: "o_AmountMicros (orderFromEvent init_prices ?ev) = 7000" "o_Status (orderFromEvent init_prices ?ev) = StatusSettled"
    by (simp_all add: orderFromEvent_def priceFromEvent_def sample_event_def CalculateAmount_def
        mul64_def add64_def div64_def wrap64_def sdiv_nonneg)
  have "r1 = Inr () \<and> r2 = Inr () \<and> r3 = Inr () \<and>
      get0 mem_redis (sw_redis W') (balKey ''u'') = 90000 - order_charge (orderFromEvent init_prices ?ev)"
    using request_costs_its_bill [OF mem.redis_kv_axioms pg_ok_empty, of 20000 "[(balKey ''u'', 90000)]" "''u''" ?ev _ init_prices,
        OF _ _ _ _ _ _ _ _ refl _ _ 2 [symmetric] 3 [symmetric]] 1 amt
    by (simp add: touch_small_def small_def)
  with 1 2 3 amt show ?thesis by (auto simp: order_charge_def)
qed
section \<open>From the handler to the bill\<close>

definition callback :: "ChatCall \<Rightarrow> on_chunk option" where
  "callback call = (if cc_Stream call then Some (OnChunk CountText) else None)"

lemma forward_event:
  assumes "sv_sink sv = Some e" and "cc_Stream call \<longrightarrow> w_flusher wr"
    and "sv_upstream sv (fst (sv_now sv w)) call (callback call) (NewAccumulator n, wr) = (w2, st, call', r)"
  shows "\<exists>w' ev wr'. forward (logged sv) (w, tr) wr call n = ((w', tr @ [AUpstream call, AEmit ev]), wr') \<and>
    ev_Status ev = (if succeeded (cc_Stream call) r then StatusCompleted else StatusFailed)"
proof (cases "cc_Stream call")
  case True
  with handleStream_event [OF assms(1), of wr w call CountText n w2 "fst st" "snd st" call' r tr] assms(2,3)
  show ?thesis by (auto simp: forward_def callback_def)
next
  case False
  with handleNonStream_event [OF assms(1), of w call n wr w2 st call' r tr] assms(3)
  show ?thesis by (auto simp: forward_def callback_def)
qed


definition broken_server :: "nat server" where
  "broken_server = plain_server\<lparr>sv_upstream := (\<lambda>w call f st. (w, st, call, Inl ErrUpstream))\<rparr>"


text \<open>Theorem: A refused stream is billed. With a single HTTP upstream a streaming call that the
  provider answers with an error status delivers nothing to the client, and is billed its
  prompt tokens as a settled order.\<close>

theorem refused_stream_is_billed:
  assumes "sv_sink sv = Some e" and "sv_upstream sv = HTTPUpstream_Chat sv http endpoint key"
    and "w_flusher wr" and "cc_Stream call"
    and "http (fst (sv_now sv w)) endpoint key (cc_Body call) = (w2, Inr resp)" and "hr_status resp \<noteq> 200"
  shows "\<exists>w' ev. forward (logged sv) (w, tr) wr call n = ((w', tr @ [AUpstream call, AEmit ev]), wr) \<and>
    o_Status (orderFromEvent ps ev) = StatusSettled \<and>
    o_AmountMicros (orderFromEvent ps ev) = CalculateAmount n 0 (priceFromEvent ps ev)"
proof -
  have "sv_upstream sv (fst (sv_now sv w)) call (Some (OnChunk CountText)) (NewAccumulator n, wr) =
      (w2, (NewAccumulator n, wr), call, Inr \<lparr>cr_StatusCode = hr_status resp, cr_Body = read_partial (2 ^ 20) resp, cr_UpstreamUsageRaw = []\<rparr>)"
    using assms(4-6) by (simp add: assms(2) HTTPUpstream_Chat_def)
  from handleStream_event [OF assms(1,3) this, of tr] assms(4) obtain w' ev where
      "forward (logged sv) (w, tr) wr call n = ((w', tr @ [AUpstream call, AEmit ev]), wr)"
      "ev_Status ev = StatusCompleted" "ev_PromptTokens ev = n" "ev_CompletionTokens ev = 0"
    by (auto simp: forward_def succeeded_def NewAccumulator_def)
  then show ?thesis by (intro exI [of _ w'] exI [of _ ev]) (simp add: orderFromEvent_def Let_def)
qed

definition refusing_server :: "nat server" where
  "refusing_server = plain_server\<lparr>sv_upstream := HTTPUpstream_Chat plain_server
     (\<lambda>w ep k b. (w, Inr \<lparr>hr_status = 503, hr_body = [], hr_fin = None\<rparr>)) ''u'' ''key''\<rparr>"

theorem refused_stream_is_billed_witness:
  "\<exists>w' ev. forward (logged refusing_server) (0, []) new_writer sample_call 1000000 = ((w', [AUpstream sample_call, AEmit ev]), new_writer) \<and>
     o_Status (orderFromEvent init_prices ev) = StatusSettled"
proof -
  let ?http = "\<lambda>w ep k b. (w, Inr \<lparr>hr_status = 503, hr_body = [], hr_fin = None\<rparr>)"
  have "sv_upstream refusing_server = HTTPUpstream_Chat plain_server ?http ''u'' ''key''" by (simp add: refusing_server_def)
  also have "\<dots> = HTTPUpstream_Chat refusing_server ?http ''u'' ''key''"
    by (rule HTTPUpstream_server_irrelevant) (simp_all add: refusing_server_def)
  finally have "sv_upstream refusing_server = HTTPUpstream_Chat refusing_server ?http ''u'' ''key''" .
  moreover have "sv_sink refusing_server = Some (\<lambda>w ev. (w, Inr ()))" by (simp add: refusing_server_def plain_server_def)
  ultimately show ?thesis
    using refused_stream_is_billed [of refusing_server "\<lambda>w ev. (w, Inr ())" ?http "''u''" "''key''" new_writer sample_call 0 _ _ "[]" 1000000 init_prices]
    by (simp add: new_writer_def sample_call_def) blast
qed

end
